(* ===== verification/Prelude.thy ===== *)
theory Prelude
  imports Main "HOL-Library.Word"
begin

text \<open>
  Shared vocabulary of the development: Go's fallible results as sums, row lists as
  database tables with the three things a statement does to them (select, update where,
  delete where), and the lemmas about them every repository proof uses. The laws of a table
  whose rows carry a primary key are proved once, in the locale \<open>keyed\<close>.
\<close>

named_theorems table_simps "rows and keys after an update, an insert or a delete"
named_theorems table_intros "distinctness of keys is kept"

type_synonym uuid = "128 word"
type_synonym time = int
type_synonym duration = int

section \<open>Fallible results\<close>

lemma sum_split_all:
  "P r = ((\<forall>e. r = Inl e \<longrightarrow> P (Inl e)) \<and> (\<forall>x. r = Inr x \<longrightarrow> P (Inr x)))"
  by (cases r) auto

section \<open>Tables as lists of rows\<close>

definition select_where :: "('r \<Rightarrow> bool) \<Rightarrow> 'r list \<Rightarrow> 'r list" where
  "select_where P rows = filter P rows"

definition update_where :: "('r \<Rightarrow> bool) \<Rightarrow> ('r \<Rightarrow> 'r) \<Rightarrow> 'r list \<Rightarrow> 'r list" where
  "update_where P f rows = map (\<lambda>r. if P r then f r else r) rows"

definition delete_where :: "('r \<Rightarrow> bool) \<Rightarrow> 'r list \<Rightarrow> 'r list" where
  "delete_where P rows = filter (\<lambda>r. \<not> P r) rows"

definition count_where :: "('r \<Rightarrow> bool) \<Rightarrow> 'r list \<Rightarrow> nat" where
  "count_where P rows = length (filter P rows)"

definition first_row :: "('r \<Rightarrow> bool) \<Rightarrow> 'r list \<Rightarrow> 'r option" where
  "first_row P rows = find P rows"

lemma update_where_simps [simp]:
  "update_where P f [] = []"
  "update_where P f (r # rows) = (if P r then f r else r) # update_where P f rows"
  by (simp_all add: update_where_def)

lemma update_where_append [simp]:
  "update_where P f (xs @ ys) = update_where P f xs @ update_where P f ys"
  by (simp add: update_where_def)

lemma length_update_where [simp]: "length (update_where P f rows) = length rows"
  by (simp add: update_where_def)

lemma set_update_where:
  "set (update_where P f rows) = {if P r then f r else r | r. r \<in> set rows}"
  by (auto simp: update_where_def)

lemma update_where_memI:
  "r \<in> set rows \<Longrightarrow> \<not> P r \<Longrightarrow> r \<in> set (update_where P f rows)"
  "r \<in> set rows \<Longrightarrow> P r \<Longrightarrow> f r \<in> set (update_where P f rows)"
  by (auto simp: update_where_def)

lemma update_where_ball:
  "(\<forall>r \<in> set (update_where P f rows). Q r) \<longleftrightarrow> (\<forall>r \<in> set rows. Q (if P r then f r else r))"
  by (auto simp: update_where_def)

lemma update_where_none: "\<forall>r \<in> set rows. \<not> P r \<Longrightarrow> update_where P f rows = rows"
  by (induction rows) auto

lemma count_where_simps [simp]:
  "count_where P [] = 0"
  "count_where P (r # rows) = (if P r then Suc (count_where P rows) else count_where P rows)"
  by (simp_all add: count_where_def)

lemma count_where_append [simp]:
  "count_where P (xs @ ys) = count_where P xs + count_where P ys"
  by (simp add: count_where_def)

lemma count_where_zero_iff: "count_where P rows = 0 \<longleftrightarrow> (\<forall>r \<in> set rows. \<not> P r)"
  by (induction rows) auto

lemma count_where_pos_iff: "0 < count_where P rows \<longleftrightarrow> (\<exists>r \<in> set rows. P r)"
  by (induction rows) auto

lemma count_where_cong:
  "(\<And>r. r \<in> set rows \<Longrightarrow> P r = Q r) \<Longrightarrow> count_where P rows = count_where Q rows"
  by (induction rows) auto

text \<open>
  An update that turns \<open>Q\<close> off on exactly the rows it touches lowers the count of \<open>Q\<close>
  by the number of rows it touched: the fact behind every counter kept beside a table.
\<close>

lemma count_update_where_off:
  assumes "\<And>r. r \<in> set rows \<Longrightarrow> P r \<Longrightarrow> Q r" and "\<And>r. r \<in> set rows \<Longrightarrow> P r \<Longrightarrow> \<not> Q (f r)"
  shows "count_where Q (update_where P f rows) + count_where P rows = count_where Q rows"
  using assms by (induction rows) auto

lemma count_update_where_same:
  assumes "\<And>r. r \<in> set rows \<Longrightarrow> P r \<Longrightarrow> Q (f r) = Q r"
  shows "count_where Q (update_where P f rows) = count_where Q rows"
  using assms by (induction rows) auto

lemma first_row_Some: "first_row P rows = Some r \<Longrightarrow> r \<in> set rows \<and> P r"
  by (auto simp: first_row_def find_Some_iff)

lemma first_row_None: "first_row P rows = None \<longleftrightarrow> (\<forall>r \<in> set rows. \<not> P r)"
  by (auto simp: first_row_def find_None_iff)

lemma first_row_simps [simp]:
  "first_row P [] = None"
  "first_row P (r # rows) = (if P r then Some r else first_row P rows)"
  by (simp_all add: first_row_def)

lemma first_row_update:
  assumes "\<And>r. Q (f r) = Q r"
  shows "first_row Q (update_where P f rows) = map_option (\<lambda>r. if P r then f r else r) (first_row Q rows)"
  by (induction rows) (auto simp: assms)

lemma first_row_append:
  "first_row Q (xs @ ys) = (case first_row Q xs of None \<Rightarrow> first_row Q ys | Some r \<Rightarrow> Some r)"
  by (induction xs) auto

lemma map_update_where: "(\<And>r. g (f r) = g r) \<Longrightarrow> map g (update_where P f rows) = map g rows"
  by (induction rows) auto

lemma first_row_fresh:
  assumes "g r \<notin> g ` set rows"
  shows "first_row (\<lambda>q. g q = k) (rows @ [r]) = (if k = g r then Some r else first_row (\<lambda>q. g q = k) rows)"
proof (cases "k = g r")
  case True
  with assms have "first_row (\<lambda>q. g q = k) rows = None"
    unfolding first_row_None by (metis image_eqI)
  with True show ?thesis by (simp add: first_row_append)
next
  case False
  then show ?thesis by (simp add: first_row_append split: option.splits)
qed

lemma first_row_key_exists:
  assumes "distinct (map g rows)" and "r \<in> set rows" and "g r = k"
  shows "first_row (\<lambda>q. g q = k) rows = Some r"
  using assms by (induction rows) (auto simp: image_iff)

lemma first_row_update_off:
  "(\<And>r. P r \<Longrightarrow> \<not> Q (f r)) \<Longrightarrow> first_row Q (update_where P f rows) = first_row (\<lambda>r. Q r \<and> \<not> P r) rows"
  by (induction rows) auto

lemma filter_update_off:
  "(\<And>r. P r \<Longrightarrow> \<not> Q (f r)) \<Longrightarrow> filter Q (update_where P f rows) = filter (\<lambda>r. Q r \<and> \<not> P r) rows"
  by (induction rows) auto

text \<open>Changing a unique column of one keyed row to a value no other row has keeps it unique.\<close>

lemma distinct_update_one:
  assumes "distinct (map key rows)" and "distinct (map g (filter P rows))"
    and "\<And>r. key (f r) = key r" and "\<And>r. P (f r) = P r"
    and "\<And>r q. r \<in> set rows \<Longrightarrow> q \<in> set rows \<Longrightarrow> key r = k \<Longrightarrow> P r \<Longrightarrow> key q \<noteq> k \<Longrightarrow> P q \<Longrightarrow> g (f r) \<noteq> g q"
  shows "distinct (map g (filter P (update_where (\<lambda>q. key q = k \<and> P q) f rows)))"
  using assms(1,2,5)
proof (induction rows)
  case Nil
  show ?case by simp
next
  case (Cons r rows)
  let ?u = "update_where (\<lambda>q. key q = k \<and> P q) f"
  have "distinct (map key rows)" "distinct (map g (filter P rows))"
    using Cons.prems(1,2) by (auto split: if_splits)
  then have IH: "distinct (map g (filter P (?u rows)))"
    by (rule Cons.IH) (rule Cons.prems(3), auto)
  show ?case
  proof (cases "P r")
    case False
    with IH show ?thesis by simp
  next
    case True
    have new: "g q' \<noteq> g (if key r = k then f r else r)" if q': "q' \<in> set (?u rows)" "P q'" for q'
    proof -
      from q'(1) obtain q where q: "q \<in> set rows" "q' = (if key q = k \<and> P q then f q else q)"
        by (auto simp: set_update_where)
      have pq: "P q" using q(2) q'(2) assms(4) by (auto split: if_splits)
      have kq: "key q \<noteq> key r" using Cons.prems(1) q(1) by (auto simp: image_iff)
      have gq: "g q \<noteq> g r" using Cons.prems(2) True q(1) pq by (auto simp: image_iff)
      show ?thesis
      proof (cases "key q = k")
        case True
        with kq pq q Cons.prems(3) [of q r] \<open>P r\<close> show ?thesis by auto
      next
        case False
        with kq pq q gq Cons.prems(3) [of r q] \<open>P r\<close> show ?thesis by auto
      qed
    qed
    have "g (if key r = k then f r else r) \<notin> g ` set (filter P (?u rows))"
      using new by fastforce
    with IH True show ?thesis using assms(4) by (auto split: if_splits)
  qed
qed

section \<open>Tables with a primary key\<close>

locale keyed =
  fixes key :: "'r \<Rightarrow> 'k"
begin

lemma insert_key:
  assumes "distinct (map key rows)" and "\<not> (\<exists>r \<in> set rows. key r = key new)"
  shows "distinct (map key (rows @ [new]))"
  using assms by auto

lemma update_keys:
  assumes "\<And>r. key (f r) = key r"
  shows "map key (update_where P f rows) = map key rows"
  using assms by (induction rows) auto

lemma delete_keys: "distinct (map key rows) \<Longrightarrow> distinct (map key (delete_where P rows))"
  by (simp add: delete_where_def distinct_map_filter)

lemma key_unique:
  "distinct (map key rows) \<Longrightarrow> r \<in> set rows \<Longrightarrow> s \<in> set rows \<Longrightarrow> key r = key s \<Longrightarrow> r = s"
  by (induction rows) (auto simp: image_iff)

lemma first_row_key:
  assumes "distinct (map key rows)" and "r \<in> set rows" and "P r"
    and "\<And>s. P s \<Longrightarrow> key s = key r"
  shows "first_row P rows = Some r"
proof (cases "first_row P rows")
  case None
  with assms show ?thesis by (auto simp: first_row_None)
next
  case (Some s)
  from first_row_Some [OF Some] have "s \<in> set rows" "P s" by auto
  with assms key_unique have "s = r" by blast
  with Some show ?thesis by simp
qed

lemma count_key_le_one:
  assumes "distinct (map key rows)" and "\<And>r. P r \<Longrightarrow> key r = k"
  shows "count_where P rows \<le> 1"
  using assms(1)
proof (induction rows)
  case Nil
  show ?case by simp
next
  case (Cons r rows)
  have "count_where P rows = 0" if "P r"
  proof -
    have "\<not> P s" if "s \<in> set rows" for s
      using Cons.prems \<open>P r\<close> assms(2) that by (metis distinct.simps(2) image_eqI list.simps(9) set_map)
    then show ?thesis by (simp add: count_where_zero_iff)
  qed
  with Cons show ?case by auto
qed

lemma count_update_key:
  assumes "distinct (map key rows)" and "\<And>r. P r \<Longrightarrow> key r = k" and "\<And>r. key (f r) = key r"
  shows "count_where P (update_where P f rows) \<le> 1"
  using count_key_le_one [of "update_where P f rows" P k] update_keys [of f P rows] assms by simp

end

end
