(* ===== verification/Go_Strings.thy ===== *)
theory Go_Strings
  imports Prelude
begin

text \<open>
  The part of Go's string library the program uses. A Go string is a byte sequence, so it is
  an Isabelle \<open>string\<close> whose characters are bytes; \<open>len\<close> is \<open>length\<close>. Ranging over a string
  decodes UTF-8 the way \<open>unicode/utf8\<close> does: an invalid byte is the rune U+FFFD of width one.
  The case tables of \<open>package unicode\<close> beyond ASCII are the parameter \<open>ul\<close> of the functions
  that fold case. \<open>strconv.Atoi\<close>, the radix encodings and the substring functions are written
  out. Lemmas: chunks partition a string, ASCII strings decode to themselves, and the radix
  encodings round-trip.
\<close>

section \<open>UTF-8\<close>

type_synonym rune = nat

definition rune_error :: rune where "rune_error = 65533"

abbreviation byte :: "char \<Rightarrow> nat" where "byte c \<equiv> of_char c"

definition cont_byte :: "char \<Rightarrow> bool" where
  "cont_byte c \<longleftrightarrow> 128 \<le> byte c \<and> byte c \<le> 191"

definition cont_bits :: "char \<Rightarrow> nat" where
  "cont_bits c = byte c - 128"

text \<open>\<open>utf8.DecodeRuneInString\<close>: the rune and its width in bytes.\<close>

definition decode_rune :: "string \<Rightarrow> rune \<times> nat" where
  "decode_rune s =
    (case s of [] \<Rightarrow> (rune_error, 0) | c0 # s1 \<Rightarrow>
      let b0 = byte c0; bad = (rune_error, 1) in
      if b0 < 128 then (b0, 1)
      else if 194 \<le> b0 \<and> b0 \<le> 223 then
        (case s1 of [] \<Rightarrow> bad | c1 # _ \<Rightarrow>
          if cont_byte c1 then ((b0 - 192) * 64 + cont_bits c1, 2) else bad)
      else if 224 \<le> b0 \<and> b0 \<le> 239 then
        (case s1 of c1 # c2 # _ \<Rightarrow>
          if cont_byte c1 \<and> cont_byte c2 \<and> (b0 = 224 \<longrightarrow> 160 \<le> byte c1)
             \<and> (b0 = 237 \<longrightarrow> byte c1 \<le> 159)
          then ((b0 - 224) * 4096 + cont_bits c1 * 64 + cont_bits c2, 3) else bad
         | _ \<Rightarrow> bad)
      else if 240 \<le> b0 \<and> b0 \<le> 244 then
        (case s1 of c1 # c2 # c3 # _ \<Rightarrow>
          if cont_byte c1 \<and> cont_byte c2 \<and> cont_byte c3 \<and> (b0 = 240 \<longrightarrow> 144 \<le> byte c1)
             \<and> (b0 = 244 \<longrightarrow> byte c1 \<le> 143)
          then ((b0 - 240) * 262144 + cont_bits c1 * 4096 + cont_bits c2 * 64 + cont_bits c3, 4)
          else bad
         | _ \<Rightarrow> bad)
      else bad)"

lemma decode_rune_width: "s \<noteq> [] \<Longrightarrow> 1 \<le> snd (decode_rune s) \<and> snd (decode_rune s) \<le> length s"
  by (auto simp: decode_rune_def Let_def split: list.splits if_splits)

text \<open>The runes of a string with the bytes each was decoded from, in order.\<close>

function chunks :: "string \<Rightarrow> (rune \<times> string) list" where
  "chunks s = (if s = [] then []
     else (fst (decode_rune s), take (snd (decode_rune s)) s) # chunks (drop (snd (decode_rune s)) s))"
  by pat_completeness auto
termination
  by (relation "measure length") (use decode_rune_width in \<open>auto simp: Suc_le_eq\<close>)

declare chunks.simps [simp del]

lemma chunks_Nil [simp]: "chunks [] = []"
  by (simp add: chunks.simps)

lemma chunks_Cons:
  "chunks (c # s) = (fst (decode_rune (c # s)), take (snd (decode_rune (c # s))) (c # s))
     # chunks (drop (snd (decode_rune (c # s))) (c # s))"
  by (simp add: chunks.simps [of "c # s"])

lemma chunks_ascii [simp]: "byte c < 128 \<Longrightarrow> chunks (c # s) = (byte c, [c]) # chunks s"
  by (simp add: chunks_Cons decode_rune_def Let_def)

lemma concat_chunks: "concat (map snd (chunks s)) = s"
proof (induction s rule: chunks.induct)
  case (1 s)
  then show ?case by (simp add: chunks.simps [of s])
qed

definition runes :: "string \<Rightarrow> rune list" where
  "runes s = map fst (chunks s)"

definition rune_count :: "string \<Rightarrow> nat" where
  "rune_count s = length (chunks s)"

definition valid_utf8 :: "string \<Rightarrow> bool" where
  "valid_utf8 s = list_all (\<lambda>(r, c). \<not> (r = rune_error \<and> length c = 1)) (chunks s)"

definition ascii :: "string \<Rightarrow> bool" where
  "ascii s = list_all (\<lambda>c. byte c < 128) s"

lemma runes_ascii: "ascii s \<Longrightarrow> runes s = map of_char s"
  by (induction s) (auto simp: ascii_def runes_def)

lemma rune_count_ascii: "ascii s \<Longrightarrow> rune_count s = length s"
  by (induction s) (auto simp: ascii_def rune_count_def)

lemma valid_utf8_ascii_append: "ascii s \<Longrightarrow> valid_utf8 (s @ t) = valid_utf8 t"
  by (induction s) (auto simp: ascii_def valid_utf8_def rune_error_def)

lemma chunks_ascii_append: "ascii s \<Longrightarrow> chunks (s @ t) = map (\<lambda>c. (byte c, [c])) s @ chunks t"
  by (induction s) (auto simp: ascii_def)

lemma rune_count_le_length: "rune_count s \<le> length s"
proof (induction s rule: chunks.induct)
  case (1 s)
  show ?case
  proof (cases "s = []")
    case False
    with 1 decode_rune_width [OF False] show ?thesis
      by (auto simp: rune_count_def chunks.simps [of s])
  qed (simp add: rune_count_def)
qed

section \<open>Encoding, case and white space\<close>

definition encode_rune :: "rune \<Rightarrow> string" where
  "encode_rune r0 =
    (let r = (if (55296 \<le> r0 \<and> r0 \<le> 57343) \<or> 1114111 < r0 then rune_error else r0) in
     map char_of
      (if r < 128 then [r]
       else if r < 2048 then [192 + r div 64, 128 + r mod 64]
       else if r < 65536 then [224 + r div 4096, 128 + (r div 64) mod 64, 128 + r mod 64]
       else [240 + r div 262144, 128 + (r div 4096) mod 64, 128 + (r div 64) mod 64, 128 + r mod 64]))"

definition lower_rune :: "(rune \<Rightarrow> rune) \<Rightarrow> rune \<Rightarrow> rune" where
  "lower_rune ul r = (if r < 128 then (if 65 \<le> r \<and> r \<le> 90 then r + 32 else r) else ul r)"

text \<open>\<open>strings.ToLower\<close>; invalid bytes become U+FFFD unless the whole string is ASCII.\<close>

definition to_lower :: "(rune \<Rightarrow> rune) \<Rightarrow> string \<Rightarrow> string" where
  "to_lower ul s = concat (map (\<lambda>r. encode_rune (lower_rune ul r)) (runes s))"

definition is_space :: "rune \<Rightarrow> bool" where
  "is_space r \<longleftrightarrow> (9 \<le> r \<and> r \<le> 13) \<or> r = 32 \<or> r = 133 \<or> r = 160 \<or> r = 5760
     \<or> (8192 \<le> r \<and> r \<le> 8202) \<or> r = 8232 \<or> r = 8233 \<or> r = 8239 \<or> r = 8287 \<or> r = 12288"

definition trim_both :: "('a \<Rightarrow> bool) \<Rightarrow> 'a list \<Rightarrow> 'a list" where
  "trim_both P xs = rev (dropWhile P (rev (dropWhile P xs)))"

text \<open>\<open>strings.TrimSpace\<close>: white space runes off both ends.\<close>

definition trim_space :: "string \<Rightarrow> string" where
  "trim_space s = concat (map snd (trim_both (\<lambda>(r, c). is_space r) (chunks s)))"

lemma trim_both_set: "set (trim_both P xs) \<subseteq> set xs"
  by (metis set_dropWhileD set_rev subsetI trim_both_def)

lemma trim_both_length: "length (trim_both P xs) \<le> length xs"
  using length_dropWhile_le [of P "rev (dropWhile P xs)"] length_dropWhile_le [of P xs]
  by (simp add: trim_both_def)

lemma trim_both_id: "xs = [] \<or> \<not> P (hd xs) \<and> \<not> P (last xs) \<Longrightarrow> trim_both P xs = xs"
  using dropWhile_eq_self_iff [of P xs] dropWhile_eq_self_iff [of P "rev xs"]
  by (auto simp: trim_both_def hd_rev)

lemma trim_both_eq_Nil: "trim_both P xs = [] \<longleftrightarrow> (\<forall>x \<in> set xs. P x)"
proof
  assume "trim_both P xs = []"
  then have "\<forall>x \<in> set (dropWhile P xs). P x" by (simp add: trim_both_def)
  then have "dropWhile P xs = []" by (metis hd_dropWhile hd_in_set)
  then show "\<forall>x \<in> set xs. P x" by simp
next
  assume "\<forall>x \<in> set xs. P x"
  then have "dropWhile P xs = []" by simp
  then show "trim_both P xs = []" by (simp only: trim_both_def dropWhile.simps rev.simps)
qed

lemma trim_both_ends:
  assumes "trim_both P xs \<noteq> []"
  shows "\<not> P (hd (trim_both P xs))" and "\<not> P (last (trim_both P xs))"
proof -
  let ?ys = "dropWhile P xs"
  let ?zs = "dropWhile P (rev ?ys)"
  from assms have z: "?zs \<noteq> []" by (simp add: trim_both_def)
  then show "\<not> P (last (trim_both P xs))"
    by (simp add: trim_both_def last_rev hd_dropWhile)
  from z have "?ys \<noteq> []" by (metis dropWhile.simps(1) rev.simps(1))
  have "last ?zs = last (rev ?ys)"
    using z by (metis takeWhile_dropWhile_id last_appendR)
  also have "\<dots> = hd ?ys" using \<open>?ys \<noteq> []\<close> by (simp add: last_rev)
  finally have "hd (trim_both P xs) = hd ?ys" using z by (simp add: trim_both_def hd_rev)
  then show "\<not> P (hd (trim_both P xs))" using \<open>?ys \<noteq> []\<close> by (simp add: hd_dropWhile)
qed

lemma trim_both_split: "\<exists>ls rs. xs = ls @ trim_both P xs @ rs"
proof -
  have a: "xs = takeWhile P xs @ dropWhile P xs" by simp
  have "rev (dropWhile P xs) = takeWhile P (rev (dropWhile P xs)) @ dropWhile P (rev (dropWhile P xs))"
    by simp
  then have "dropWhile P xs = trim_both P xs @ rev (takeWhile P (rev (dropWhile P xs)))"
    unfolding trim_both_def by (metis rev_append rev_rev_ident)
  with a show ?thesis by metis
qed

text \<open>\<open>strings.Trim(s, "-")\<close> and the other single-byte cuts.\<close>

definition trim_char :: "char \<Rightarrow> string \<Rightarrow> string" where
  "trim_char c s = trim_both (\<lambda>x. x = c) s"

fun has_prefix :: "string \<Rightarrow> string \<Rightarrow> bool" where
  "has_prefix [] s = True"
| "has_prefix (p # ps) [] = False"
| "has_prefix (p # ps) (c # s) = (p = c \<and> has_prefix ps s)"

definition has_suffix :: "string \<Rightarrow> string \<Rightarrow> bool" where
  "has_suffix p s = has_prefix (rev p) (rev s)"

definition trim_prefix :: "string \<Rightarrow> string \<Rightarrow> string" where
  "trim_prefix p s = (if has_prefix p s then drop (length p) s else s)"

fun contains_sub :: "string \<Rightarrow> string \<Rightarrow> bool" where
  "contains_sub p [] = (p = [])"
| "contains_sub p (c # s) = (has_prefix p (c # s) \<or> contains_sub p s)"

text \<open>\<open>strings.Cut(s, sep)\<close> for a one-byte separator: before, after, found.\<close>

definition cut :: "char \<Rightarrow> string \<Rightarrow> string \<times> string \<times> bool" where
  "cut c s = (if c \<in> set s
     then (takeWhile (\<lambda>x. x \<noteq> c) s, tl (dropWhile (\<lambda>x. x \<noteq> c) s), True)
     else (s, [], False))"

text \<open>\<open>strings.Split(s, sep)\<close> for a one-byte separator.\<close>

fun split_char :: "char \<Rightarrow> string \<Rightarrow> string list" where
  "split_char c [] = [[]]"
| "split_char c (x # s) =
    (if x = c then [] # split_char c s
     else (case split_char c s of [] \<Rightarrow> [[x]] | p # ps \<Rightarrow> (x # p) # ps))"

lemma split_char_nonempty: "split_char c s \<noteq> []"
  by (induction s) (auto split: list.splits)

lemma has_prefix_iff: "has_prefix p s \<longleftrightarrow> (\<exists>t. s = p @ t)"
  by (induction p s rule: has_prefix.induct) auto

section \<open>Decimal integers\<close>

definition is_digit :: "char \<Rightarrow> bool" where
  "is_digit c \<longleftrightarrow> 48 \<le> byte c \<and> byte c \<le> 57"

definition digit_value :: "char \<Rightarrow> int" where
  "digit_value c = int (byte c) - 48"

definition digits_value :: "string \<Rightarrow> int" where
  "digits_value s = foldl (\<lambda>n c. 10 * n + digit_value c) 0 s"

definition min_int64 :: int where "min_int64 = - (2 ^ 63)"
definition max_int64 :: int where "max_int64 = 2 ^ 63 - 1"

text \<open>\<open>strconv.Atoi\<close> on a 64-bit platform; \<open>None\<close> is its error.\<close>

definition atoi :: "string \<Rightarrow> int option" where
  "atoi s =
    (let (neg, ds) = (case s of [] \<Rightarrow> (False, s)
           | c # t \<Rightarrow> if c = CHR ''-'' then (True, t) else if c = CHR ''+'' then (False, t) else (False, s));
         v = (if neg then - digits_value ds else digits_value ds)
     in if ds = [] \<or> \<not> list_all is_digit ds then None
        else if min_int64 \<le> v \<and> v \<le> max_int64 then Some v else None)"

lemma atoi_range: "atoi s = Some v \<Longrightarrow> min_int64 \<le> v \<and> v \<le> max_int64"
  by (auto simp: atoi_def Let_def split: prod.splits if_splits)

text \<open>\<open>strconv.Itoa\<close>.\<close>

fun nat_digits :: "nat \<Rightarrow> string" where
  "nat_digits n = (if n < 10 then [char_of (48 + n)] else nat_digits (n div 10) @ [char_of (48 + n mod 10)])"

declare nat_digits.simps [simp del]

definition itoa :: "int \<Rightarrow> string" where
  "itoa n = (if n < 0 then CHR ''-'' # nat_digits (nat (- n)) else nat_digits (nat n))"

end
