(* ===== verification/Apierr.thy ===== *)
theory Apierr
  imports Go_Strings
begin

text \<open>
  Go error values and \<open>internal/platform/apierr\<close>. An error is a finite tree: a sentinel compared
  by identity, a structured driver error, any other library error, a \<open>fmt.Errorf\<close> wrapper around
  its \<open>%w\<close> operands, or an \<open>*apierr.Error\<close> with its cause. \<open>errors.Is\<close> and \<open>errors.As\<close> walk that
  tree in pre-order (\<open>chain\<close>). A nil error is \<open>None\<close> of type \<open>gerr option\<close>. Lemmas: what is
  found through a wrapper, and that nothing of a cause reaches the client-visible part.
\<close>

section \<open>Errors\<close>

datatype api_code =
    CodeValidation | CodeBadRequest | CodeUnauthorized | CodeForbidden | CodeNotFound
  | CodeConflict | CodePayloadTooLarge | CodeUnsupportedType | CodeRateLimited | CodeTimeout
  | CodeInternal | CodeUnavailable

fun code_string :: "api_code \<Rightarrow> string" where
  "code_string CodeValidation = ''validation_failed''"
| "code_string CodeBadRequest = ''bad_request''"
| "code_string CodeUnauthorized = ''unauthorized''"
| "code_string CodeForbidden = ''forbidden''"
| "code_string CodeNotFound = ''not_found''"
| "code_string CodeConflict = ''conflict''"
| "code_string CodePayloadTooLarge = ''payload_too_large''"
| "code_string CodeUnsupportedType = ''unsupported_media_type''"
| "code_string CodeRateLimited = ''rate_limited''"
| "code_string CodeTimeout = ''request_timeout''"
| "code_string CodeInternal = ''internal_error''"
| "code_string CodeUnavailable = ''service_unavailable''"

record field_error =
  fe_field :: string
  fe_message :: string

datatype sentinel =
    ErrNoRows | DeadlineExceeded | Canceled | EOF | UnexpectedEOF | ErrServerClosed
  | ErrMismatchedHashAndPassword
  | ErrInvalidPassword | ErrMalformedRefreshToken | ErrSessionNotFound | ErrSlugTaken | ErrPostNotFound

text \<open>
  \<open>PgError\<close> carries SQLSTATE and constraint name; \<open>JsonError\<close> is an error type of
  \<open>encoding/json\<close> or \<open>net/http\<close> the request decoder recognises, with its payload.
\<close>

datatype json_error =
    MaxBytesError int
  | SyntaxError int
  | UnmarshalTypeError string string
  | InvalidUnmarshalError

datatype gerr =
    Sentinel sentinel
  | PgError string string
  | JsonError json_error
  | LibError string
  | Wrapf string "gerr list"
  | Api api_code int string "field_error list" "gerr option"

fun chain :: "gerr \<Rightarrow> gerr list" where
  "chain (Wrapf m es) = Wrapf m es # concat (map chain es)"
| "chain (Api c s m fs (Some e)) = Api c s m fs (Some e) # chain e"
| "chain e = [e]"

definition errors_is :: "gerr \<Rightarrow> sentinel \<Rightarrow> bool" where
  "errors_is e t \<longleftrightarrow> Sentinel t \<in> set (chain e)"

fun is_api :: "gerr \<Rightarrow> bool" where
  "is_api (Api c s m fs ca) = True"
| "is_api _ = False"

definition as_api :: "gerr \<Rightarrow> gerr option" where
  "as_api e = find is_api (chain e)"

lemma chain_head: "\<exists>es. chain e = e # es"
  by (cases e rule: chain.cases) auto

lemma chain_self [simp]: "e \<in> set (chain e)"
  using chain_head [of e] by auto

lemma errors_is_simps [simp]:
  "errors_is (Sentinel s) t \<longleftrightarrow> s = t"
  "errors_is (PgError c n) t \<longleftrightarrow> False"
  "errors_is (JsonError j) t \<longleftrightarrow> False"
  "errors_is (LibError m) t \<longleftrightarrow> False"
  "errors_is (Wrapf m es) t \<longleftrightarrow> (\<exists>e \<in> set es. errors_is e t)"
  "errors_is (Api a k m fs None) t \<longleftrightarrow> False"
  "errors_is (Api a k m fs (Some e)) t \<longleftrightarrow> errors_is e t"
  by (auto simp: errors_is_def)

lemma chain_Api: "chain (Api a k m fs ca) = Api a k m fs ca # (case ca of None \<Rightarrow> [] | Some e \<Rightarrow> chain e)"
  by (cases ca) simp_all

lemma find_append: "find P (xs @ ys) = (case find P xs of None \<Rightarrow> find P ys | Some x \<Rightarrow> Some x)"
  by (induction xs) auto

lemma as_api_simps [simp]:
  "as_api (Sentinel s) = None"
  "as_api (PgError c n) = None"
  "as_api (JsonError j) = None"
  "as_api (LibError l) = None"
  "as_api (Api a k m fs ca) = Some (Api a k m fs ca)"
  "as_api (Wrapf m []) = None"
  "as_api (Wrapf m (e # es)) = (case as_api e of None \<Rightarrow> as_api (Wrapf m es) | Some x \<Rightarrow> Some x)"
  by (simp_all add: as_api_def chain_Api find_append split: option.splits)

section \<open>Package apierr\<close>

text \<open>The fields a client sees; the cause is not among them.\<close>

fun err_code :: "gerr \<Rightarrow> api_code" where
  "err_code (Api c s m fs ca) = c" | "err_code _ = CodeInternal"

fun err_status :: "gerr \<Rightarrow> int" where
  "err_status (Api c s m fs ca) = s" | "err_status _ = 500"

fun err_message :: "gerr \<Rightarrow> string" where
  "err_message (Api c s m fs ca) = m" | "err_message _ = []"

fun err_fields :: "gerr \<Rightarrow> field_error list" where
  "err_fields (Api c s m fs ca) = fs" | "err_fields _ = []"

text \<open>\<open>Unwrap\<close>, \<open>WithCause\<close>, \<open>WithMessage\<close>; the last two return a copy.\<close>

fun Unwrap :: "gerr \<Rightarrow> gerr option" where
  "Unwrap (Api c s m fs ca) = ca" | "Unwrap _ = None"

fun WithCause :: "gerr \<Rightarrow> gerr \<Rightarrow> gerr" where
  "WithCause (Api c s m fs ca) e = Api c s m fs (Some e)" | "WithCause x e = x"

fun WithMessage :: "gerr \<Rightarrow> string \<Rightarrow> gerr" where
  "WithMessage (Api c s m fs ca) msg = Api c s msg fs ca" | "WithMessage x msg = x"

definition NewErr :: "api_code \<Rightarrow> int \<Rightarrow> string \<Rightarrow> gerr" where
  "NewErr c s m = Api c s m [] None"

definition Validation :: "field_error list \<Rightarrow> gerr" where
  "Validation fs = Api CodeValidation 422 ''one or more fields are invalid'' fs None"

definition BadRequest :: "string \<Rightarrow> gerr" where "BadRequest m = NewErr CodeBadRequest 400 m"
definition Unauthorized :: "string \<Rightarrow> gerr" where "Unauthorized m = NewErr CodeUnauthorized 401 m"
definition Forbidden :: "string \<Rightarrow> gerr" where "Forbidden m = NewErr CodeForbidden 403 m"
definition NotFound :: "string \<Rightarrow> gerr" where "NotFound r = NewErr CodeNotFound 404 (r @ '' not found'')"
definition Conflict :: "string \<Rightarrow> gerr" where "Conflict m = NewErr CodeConflict 409 m"
definition RateLimited :: "string \<Rightarrow> gerr" where "RateLimited m = NewErr CodeRateLimited 429 m"
definition Timeout :: "string \<Rightarrow> gerr" where "Timeout m = NewErr CodeTimeout 504 m"
definition Unavailable :: "string \<Rightarrow> gerr" where "Unavailable m = NewErr CodeUnavailable 503 m"

definition StatusClientClosedRequest :: int where "StatusClientClosedRequest = 499"

lemmas api_constructors =
  NewErr_def Validation_def BadRequest_def Unauthorized_def Forbidden_def NotFound_def
  Conflict_def RateLimited_def Timeout_def Unavailable_def

definition classifyContextError :: "gerr \<Rightarrow> gerr option" where
  "classifyContextError e =
    (if errors_is e DeadlineExceeded
     then Some (WithCause (Timeout ''the request took too long to process'') e)
     else if errors_is e Canceled
     then Some (WithCause (NewErr CodeBadRequest StatusClientClosedRequest ''client closed the request'') e)
     else None)"

definition Internal :: "gerr \<Rightarrow> gerr" where
  "Internal cause =
    (case classifyContextError cause of
       Some classified \<Rightarrow> classified
     | None \<Rightarrow> WithCause (Api CodeInternal 500 ''an internal error occurred'' [] None) cause)"

text \<open>\<open>From\<close>; nil stays nil.\<close>

definition From :: "gerr option \<Rightarrow> gerr option" where
  "From err = (case err of None \<Rightarrow> None
     | Some e \<Rightarrow> (case as_api e of Some a \<Rightarrow> Some a | None \<Rightarrow> Some (Internal e)))"

definition IsCode :: "gerr \<Rightarrow> api_code \<Rightarrow> bool" where
  "IsCode e c \<longleftrightarrow> (case as_api e of Some a \<Rightarrow> err_code a = c | None \<Rightarrow> False)"

text \<open>\<open>Error()\<close>: the text for the log, cause included.\<close>

fun sentinel_text :: "sentinel \<Rightarrow> string" where
  "sentinel_text ErrNoRows = ''no rows in result set''"
| "sentinel_text DeadlineExceeded = ''context deadline exceeded''"
| "sentinel_text Canceled = ''context canceled''"
| "sentinel_text EOF = ''EOF''"
| "sentinel_text UnexpectedEOF = ''unexpected EOF''"
| "sentinel_text ErrServerClosed = ''http: Server closed''"
| "sentinel_text ErrMismatchedHashAndPassword =
     ''crypto/bcrypt: hashedPassword is not the hash of the given password''"
| "sentinel_text ErrInvalidPassword = ''auth: password does not match hash''"
| "sentinel_text ErrMalformedRefreshToken = ''auth: malformed refresh token''"
| "sentinel_text ErrSessionNotFound = ''user: session not found''"
| "sentinel_text ErrSlugTaken = ''post: slug already in use''"
| "sentinel_text ErrPostNotFound = ''comment: post not found''"

fun error_text :: "gerr \<Rightarrow> string" where
  "error_text (Sentinel s) = sentinel_text s"
| "error_text (PgError c n) = ''SQLSTATE '' @ c @ '' '' @ n"
| "error_text (JsonError j) = ''json error''"
| "error_text (LibError m) = m"
| "error_text (Wrapf m es) = m @ concat (map (\<lambda>e. '': '' @ error_text e) es)"
| "error_text (Api c s m fs (Some e)) = code_string c @ '': '' @ m @ '': '' @ error_text e"
| "error_text (Api c s m fs None) = code_string c @ '': '' @ m"

section \<open>Lemmas\<close>

lemma Internal_cases:
  obtains "errors_is e DeadlineExceeded"
      "Internal e = Api CodeTimeout 504 ''the request took too long to process'' [] (Some e)"
  | "\<not> errors_is e DeadlineExceeded" "errors_is e Canceled"
      "Internal e = Api CodeBadRequest 499 ''client closed the request'' [] (Some e)"
  | "\<not> errors_is e DeadlineExceeded" "\<not> errors_is e Canceled"
      "Internal e = Api CodeInternal 500 ''an internal error occurred'' [] (Some e)"
  by (auto simp: Internal_def classifyContextError_def api_constructors StatusClientClosedRequest_def)

lemma Internal_is [simp]: "errors_is (Internal e) t \<longleftrightarrow> errors_is e t"
  by (rule Internal_cases [of e]) simp_all

lemma as_api_Internal [simp]: "as_api (Internal e) = Some (Internal e)"
  by (rule Internal_cases [of e]) simp_all

lemma Internal_code: "err_code (Internal e) \<in> {CodeTimeout, CodeBadRequest, CodeInternal}"
  by (rule Internal_cases [of e]) simp_all

lemma Internal_not_NotFound [simp]: "\<not> IsCode (Internal e) CodeNotFound"
  by (rule Internal_cases [of e]) (simp_all add: IsCode_def)

lemma as_api_is_api: "as_api e = Some a \<Longrightarrow> is_api a"
  by (auto simp: as_api_def find_Some_iff)

lemma WithCause_view:
  "is_api a \<Longrightarrow> err_code (WithCause a e) = err_code a \<and> err_status (WithCause a e) = err_status a
    \<and> err_message (WithCause a e) = err_message a \<and> err_fields (WithCause a e) = err_fields a"
  by (cases a) auto

lemma IsCode_NotFound [simp]: "IsCode (NotFound r) CodeNotFound"
  by (simp add: IsCode_def api_constructors)

text \<open>The whole client-visible part of an error.\<close>

definition client_view :: "gerr \<Rightarrow> api_code \<times> int \<times> string \<times> field_error list" where
  "client_view a = (err_code a, err_status a, err_message a, err_fields a)"

lemma client_view_WithCause [simp]: "is_api a \<Longrightarrow> client_view (WithCause a e) = client_view a"
  by (simp add: client_view_def WithCause_view)

lemma client_view_Internal:
  "client_view (Internal e) \<in>
    {(CodeTimeout, 504, ''the request took too long to process'', []),
     (CodeBadRequest, 499, ''client closed the request'', []),
     (CodeInternal, 500, ''an internal error occurred'', [])}"
  by (rule Internal_cases [of e]) (simp_all add: client_view_def)

text \<open>An error nobody classified reaches the client as one of three constant responses: whatever
  the driver text, SQL state or cause, nothing of it is in the client-visible part, and a deadline
  is a 504 while only a genuine fault is a 500.\<close>

theorem From_unclassified_is_opaque:
  assumes "as_api e = None"
  shows "\<exists>a. From (Some e) = Some a
    \<and> client_view a =
       (if errors_is e DeadlineExceeded then (CodeTimeout, 504, ''the request took too long to process'', [])
        else if errors_is e Canceled then (CodeBadRequest, 499, ''client closed the request'', [])
        else (CodeInternal, 500, ''an internal error occurred'', []))
    \<and> Unwrap a = Some e"
  by (rule Internal_cases [of e]) (simp_all add: From_def assms client_view_def)

theorem From_unclassified_is_opaque_witness:
  "\<exists>a. From (Some (Wrapf ''insert user'' [PgError ''57014'' ''''])) = Some a
    \<and> client_view a = (CodeInternal, 500, ''an internal error occurred'', [])
    \<and> Unwrap a = Some (Wrapf ''insert user'' [PgError ''57014'' ''''])"
  using From_unclassified_is_opaque [of "Wrapf ''insert user'' [PgError ''57014'' '''']"] by simp

end
