(* ===== verification/Domain.thy ===== *)
theory Domain
  imports Prelude
begin

text \<open>
  \<open>internal/domain/domain.go\<close>: the entities and the ownership rule. Roles and statuses are Go
  strings with two recognised values each, so \<open>Valid\<close> is a check and not a type.
\<close>

definition RoleUser :: string where "RoleUser = ''user''"
definition RoleAdmin :: string where "RoleAdmin = ''admin''"

definition role_Valid :: "string \<Rightarrow> bool" where
  "role_Valid r \<longleftrightarrow> r = RoleUser \<or> r = RoleAdmin"

record user =
  user_id :: uuid
  email :: string
  username :: string
  display_name :: string
  password_hash :: string
  role :: string
  user_created :: time
  user_updated :: time

record user_summary =
  sum_id :: uuid
  sum_username :: string
  sum_display_name :: string

definition Summary :: "user \<Rightarrow> user_summary" where
  "Summary u = \<lparr>sum_id = user_id u, sum_username = username u, sum_display_name = display_name u\<rparr>"

definition PostStatusDraft :: string where "PostStatusDraft = ''draft''"
definition PostStatusPublished :: string where "PostStatusPublished = ''published''"

definition status_Valid :: "string \<Rightarrow> bool" where
  "status_Valid s \<longleftrightarrow> s = PostStatusDraft \<or> s = PostStatusPublished"

record post =
  post_id :: uuid
  post_author :: uuid
  title :: string
  slug :: string
  post_content :: string
  status :: string
  comment_count :: int
  published_at :: "time option"
  post_created :: time
  post_updated :: time
  author_summary :: "user_summary option"

record cmt =
  cmt_id :: uuid
  cmt_post :: uuid
  cmt_author :: uuid
  parent_id :: "uuid option"
  cmt_content :: string
  cmt_created :: time
  cmt_updated :: time
  cmt_author_summary :: "user_summary option"

record actor =
  actor_id :: uuid
  actor_role :: string

definition IsAdmin :: "actor \<Rightarrow> bool" where
  "IsAdmin a \<longleftrightarrow> actor_role a = RoleAdmin"

definition CanModify :: "actor \<Rightarrow> uuid \<Rightarrow> bool" where
  "CanModify a ownerID \<longleftrightarrow> IsAdmin a \<or> actor_id a = ownerID"

lemma roles_distinct [simp]: "RoleUser \<noteq> RoleAdmin" "RoleAdmin \<noteq> RoleUser"
  by (simp_all add: RoleUser_def RoleAdmin_def)

lemma statuses_distinct [simp]:
  "PostStatusDraft \<noteq> PostStatusPublished" "PostStatusPublished \<noteq> PostStatusDraft"
  by (simp_all add: PostStatusDraft_def PostStatusPublished_def)

lemma role_Valid_simps [simp]: "role_Valid RoleUser" "role_Valid RoleAdmin"
  by (simp_all add: role_Valid_def)

lemma status_Valid_simps [simp]: "status_Valid PostStatusDraft" "status_Valid PostStatusPublished"
  by (simp_all add: status_Valid_def)

lemma CanModify_owner [simp]: "CanModify a (actor_id a)"
  by (simp add: CanModify_def)

end
