(* ===== verification/Externals.thy ===== *)
theory Externals
  imports Apierr Domain
begin

text \<open>
  What the program calls but does not contain: the case tables of \<open>package unicode\<close>, PostgreSQL's
  \<open>lower\<close> and full-text search, the uuid package, SHA-256, bcrypt, the JWT library and the struct
  validator. They are
  the fields of one record, an argument of every definition that uses them. What the program
  relies on is stated here as predicates over that record, used as named hypotheses.
\<close>

record claims =
  cl_subject :: string
  cl_issuer :: string
  cl_audience :: "string list"
  cl_issued :: time
  cl_not_before :: time
  cl_expires :: time
  cl_id :: string
  cl_role :: string

text \<open>The options \<open>ParseAccessToken\<close> passes to \<open>jwt.ParseWithClaims\<close>.\<close>

record parse_opts =
  opt_methods :: "string list"
  opt_issuer :: string
  opt_audience :: string
  opt_exp_required :: bool
  opt_now :: time

text \<open>
  A \<open>validate\<close> tag, a field with its tags as the struct validator sees it (\<open>None\<close> is a nil pointer),
  and what \<open>validator.Struct\<close> returns.
\<close>

datatype validate_tag =
    Required | Omitempty | Email | Min nat | Max nat | OneOf "string list" | Custom string

record tagged_field =
  tf_name :: string
  tf_rules :: "validate_tag list"
  tf_pointer :: bool
  tf_value :: "string option"

record rule_failure =
  rf_field :: string
  rf_tag :: string
  rf_param :: string
  rf_string :: bool

datatype validator_result =
    Accepted
  | Rejected "rule_failure list"
  | InvalidValidation gerr
  | OtherFailure gerr

record ext =
  unicode_lower :: "rune \<Rightarrow> rune"
  pg_lower :: "string \<Rightarrow> string"
  ts_match :: "string \<Rightarrow> string \<Rightarrow> string \<Rightarrow> bool"
  ts_rank :: "string \<Rightarrow> string \<Rightarrow> string \<Rightarrow> int"
  uuid_string :: "uuid \<Rightarrow> string"
  uuid_parse :: "string \<Rightarrow> gerr + uuid"
  sha256 :: "string \<Rightarrow> string"
  bcrypt_generate :: "nat \<Rightarrow> int \<Rightarrow> string \<Rightarrow> gerr + string"
  bcrypt_compare :: "string \<Rightarrow> string \<Rightarrow> gerr option"
  numeric_date :: "time \<Rightarrow> time"
  jwt_sign :: "string \<Rightarrow> string \<Rightarrow> claims \<Rightarrow> gerr + string"
  jwt_parse :: "(string \<Rightarrow> gerr + string) \<Rightarrow> parse_opts \<Rightarrow> string \<Rightarrow> gerr + claims"
  rune_print :: "rune \<Rightarrow> bool"
  validator_struct :: "(string \<Rightarrow> string \<Rightarrow> bool) \<Rightarrow> tagged_field list \<Rightarrow> validator_result"

text \<open>
  Documented behaviour. \<open>sha256\<close> digests have 32 bytes. The uuid package prints what it parses.
  bcrypt accepts exactly the password a hash was made from, and reports any other with
  \<open>ErrMismatchedHashAndPassword\<close>. The JWT library accepts a token exactly when the key function
  yields the key it was signed with, its algorithm is listed, issuer and audience match and the
  time is within its validity; it then returns the signed claims.
\<close>

definition sha256_documented :: "ext \<Rightarrow> bool" where
  "sha256_documented x \<longleftrightarrow> (\<forall>s. length (sha256 x s) = 32)"

definition uuid_documented :: "ext \<Rightarrow> bool" where
  "uuid_documented x \<longleftrightarrow> (\<forall>u. uuid_parse x (uuid_string x u) = Inr u)"

definition bcrypt_documented :: "ext \<Rightarrow> bool" where
  "bcrypt_documented x \<longleftrightarrow>
    (\<forall>n c p h q. bcrypt_generate x n c p = Inr h \<longrightarrow>
       bcrypt_compare x h q = (if p = q then None else Some (Sentinel ErrMismatchedHashAndPassword)))"

definition claims_valid :: "parse_opts \<Rightarrow> claims \<Rightarrow> bool" where
  "claims_valid o' c \<longleftrightarrow> cl_issuer c = opt_issuer o' \<and> opt_audience o' \<in> set (cl_audience c)
     \<and> opt_now o' < cl_expires c \<and> cl_not_before c \<le> opt_now o'"

text \<open>\<open>jwt.NewNumericDate\<close> cuts a time to whole seconds (nanoseconds here).\<close>

definition second :: duration where "second = 1000000000"

definition numeric_date_documented :: "ext \<Rightarrow> bool" where
  "numeric_date_documented x \<longleftrightarrow> (\<forall>t. numeric_date x t \<le> t \<and> t < numeric_date x t + second)"

definition jwt_sound :: "ext \<Rightarrow> bool" where
  "jwt_sound x \<longleftrightarrow>
    (\<forall>kf o' raw c. jwt_parse x kf o' raw = Inr c \<longrightarrow>
       (\<exists>alg key. alg \<in> set (opt_methods o') \<and> kf alg = Inr key
          \<and> jwt_sign x alg key c = Inr raw \<and> claims_valid o' c))"

definition jwt_complete :: "ext \<Rightarrow> bool" where
  "jwt_complete x \<longleftrightarrow>
    (\<forall>kf o' alg key c raw. jwt_sign x alg key c = Inr raw \<longrightarrow> alg \<in> set (opt_methods o') \<longrightarrow>
       kf alg = Inr key \<longrightarrow> claims_valid o' c \<longrightarrow> jwt_parse x kf o' raw = Inr c)"

text \<open>
  The validator accepts a struct only if every tag of every field holds; lengths count runes. What
  it takes for an email address is its own business. What it rejects, it rejects for a field.
\<close>

fun tag_holds :: "(string \<Rightarrow> string \<Rightarrow> bool) \<Rightarrow> validate_tag \<Rightarrow> string \<Rightarrow> bool" where
  "tag_holds custom Required v = (v \<noteq> [])"
| "tag_holds custom (Min n) v = (n \<le> rune_count v)"
| "tag_holds custom (Max n) v = (rune_count v \<le> n)"
| "tag_holds custom (OneOf vs) v = (v \<in> set vs)"
| "tag_holds custom (Custom c) v = custom c v"
| "tag_holds custom Omitempty v = True"
| "tag_holds custom Email v = True"

definition field_ok :: "(string \<Rightarrow> string \<Rightarrow> bool) \<Rightarrow> tagged_field \<Rightarrow> bool" where
  "field_ok custom f \<longleftrightarrow> (case tf_value f of
     None \<Rightarrow> Required \<notin> set (tf_rules f)
   | Some v \<Rightarrow> (Omitempty \<in> set (tf_rules f) \<and> \<not> tf_pointer f \<and> v = [])
       \<or> (\<forall>t \<in> set (tf_rules f). tag_holds custom t v))"

definition validator_documented :: "ext \<Rightarrow> bool" where
  "validator_documented x \<longleftrightarrow> (\<forall>custom fs.
     (validator_struct x custom fs = Accepted \<longrightarrow> list_all (field_ok custom) fs)
     \<and> (\<forall>es. validator_struct x custom fs = Rejected es \<longrightarrow> es \<noteq> [] \<and> rf_field ` set es \<subseteq> tf_name ` set fs))"

section \<open>A concrete instance\<close>

text \<open>
  Computable functions that satisfy every documented law above, for the witnesses: identifiers
  print as their bits, digests pad to 32 bytes, a bcrypt hash is a tagged copy, and exactly one
  claim set can be signed, with one key.
\<close>

definition bits_string :: "uuid \<Rightarrow> string" where
  "bits_string u = map (\<lambda>i. if bit u i then CHR ''1'' else CHR ''0'') [0..<128]"

definition parse_bits :: "string \<Rightarrow> gerr + uuid" where
  "parse_bits s = (if length s = 128 \<and> list_all (\<lambda>c. c = CHR ''0'' \<or> c = CHR ''1'') s
     then Inr (horner_sum of_bool 2 (map (\<lambda>c. c = CHR ''1'') s)) else Inl (LibError ''invalid UUID''))"

definition pad_to :: "nat \<Rightarrow> string \<Rightarrow> string" where
  "pad_to n s = take n (s @ replicate n (CHR ''.''))"

definition hash_tag :: string where "hash_tag = ''$2a$12$ten.chars.tag.''"

definition sample_ext :: "string \<Rightarrow> claims \<Rightarrow> ext" where
  "sample_ext key c0 = \<lparr>unicode_lower = id, pg_lower = id,
     ts_match = (\<lambda>t c q. contains_sub q t \<or> contains_sub q c),
     ts_rank = (\<lambda>t c q. if contains_sub q t then 2 else 1),
     uuid_string = bits_string, uuid_parse = parse_bits, sha256 = pad_to 32,
     bcrypt_generate = (\<lambda>n c p. Inr (hash_tag @ p)),
     bcrypt_compare = (\<lambda>h p. if h = hash_tag @ p then None
        else if has_prefix hash_tag h then Some (Sentinel ErrMismatchedHashAndPassword)
        else Some (LibError ''crypto/bcrypt: hashedSecret too short'')),
     numeric_date = (\<lambda>t. t - t mod second),
     jwt_sign = (\<lambda>alg k c. if alg = ''HS256'' \<and> k = key \<and> c = c0 then Inr ''signed-token''
        else Inl (LibError ''key is invalid'')),
     jwt_parse = (\<lambda>kf o' raw. if raw = ''signed-token'' \<and> ''HS256'' \<in> set (opt_methods o')
          \<and> kf ''HS256'' = Inr key \<and> claims_valid o' c0 then Inr c0
        else Inl (LibError ''token is invalid'')),
     rune_print = (\<lambda>r. False),
     validator_struct = (\<lambda>custom fs. if list_all (field_ok custom) fs then Accepted
        else Rejected (map (\<lambda>f. \<lparr>rf_field = tf_name f, rf_tag = ''required'', rf_param = [], rf_string = True\<rparr>)
          (filter (\<lambda>f. \<not> field_ok custom f) fs)))\<rparr>"

lemma bits_roundtrip [simp]: "parse_bits (bits_string u) = Inr u"
proof -
  have "map (\<lambda>c. c = CHR ''1'') (bits_string u) = map (bit u) [0..<128]"
    by (simp add: bits_string_def)
  moreover have "list_all (\<lambda>c. c = CHR ''0'' \<or> c = CHR ''1'') (bits_string u)"
    by (auto simp: bits_string_def list_all_iff)
  moreover have "length (bits_string u) = 128" by (simp add: bits_string_def)
  ultimately show ?thesis
    by (simp add: parse_bits_def horner_sum_bit_eq_take_bit take_bit_word_eq_self)
qed

lemma hash_tag_mismatch: "has_prefix hash_tag (hash_tag @ p)"
  by (simp add: has_prefix_iff)

lemma sample_ext_laws:
  "sha256_documented (sample_ext key c0)" "uuid_documented (sample_ext key c0)"
  "bcrypt_documented (sample_ext key c0)" "numeric_date_documented (sample_ext key c0)"
  "jwt_sound (sample_ext key c0)" "jwt_complete (sample_ext key c0)"
  "validator_documented (sample_ext key c0)"
proof -
  have "t - t mod second \<le> t \<and> t < t - t mod second + second" for t
    using pos_mod_bound [of second t] pos_mod_sign [of second t] by (simp add: second_def)
  then show "numeric_date_documented (sample_ext key c0)"
    by (simp add: numeric_date_documented_def sample_ext_def)
  show "validator_documented (sample_ext key c0)"
    by (auto simp: validator_documented_def sample_ext_def list_all_iff filter_empty_conv split: if_splits)
qed (auto simp: sha256_documented_def uuid_documented_def bcrypt_documented_def jwt_sound_def
    jwt_complete_def sample_ext_def pad_to_def hash_tag_mismatch split: if_splits)

end
