(* ===== verification/Logging.thy ===== *)
theory Logging
  imports Externals
begin

text \<open>
  \<open>internal/platform/logging\<close>: log levels and the redaction of credential-looking attributes. An
  attribute is a key with a text or a group of attributes; \<open>slog\<close> hands every attribute to \<open>redact\<close>
  and descends into groups (\<open>written\<close>). Lemmas: no value under a sensitive key is written, at any
  depth, and spelling variants of a key are treated alike.
\<close>

definition redactedKeys :: "string list" where
  "redactedKeys = [''password'', ''passwd'', ''secret'', ''token'', ''authorization'', ''apikey'', ''cookie'',
     ''credential'', ''jwt'', ''privatekey'', ''bearer'']"

definition redactedPlaceholder :: string where "redactedPlaceholder = ''[REDACTED]''"

definition without_separators :: "string \<Rightarrow> string" where
  "without_separators s = filter (\<lambda>c. c \<noteq> CHR ''-'' \<and> c \<noteq> CHR ''_'') s"

definition IsSensitiveKey :: "ext \<Rightarrow> string \<Rightarrow> bool" where
  "IsSensitiveKey x key \<longleftrightarrow>
    (let normalised = without_separators (to_lower (unicode_lower x) key) in
     \<exists>k \<in> set redactedKeys. contains_sub k normalised)"

datatype slog_level = LevelDebug | LevelInfo | LevelWarn | LevelError

text \<open>\<open>slog\<close> compares levels as integers.\<close>

fun level_number :: "slog_level \<Rightarrow> int" where
  "level_number LevelDebug = - 4" | "level_number LevelInfo = 0" | "level_number LevelWarn = 4" | "level_number LevelError = 8"

lemma level_number_inject [simp]: "level_number a = level_number b \<longleftrightarrow> a = b"
  by (cases a; cases b) simp_all

instantiation slog_level :: linorder
begin

definition less_eq_slog_level :: "slog_level \<Rightarrow> slog_level \<Rightarrow> bool" where
  "less_eq_slog_level a b \<longleftrightarrow> level_number a \<le> level_number b"

definition less_slog_level :: "slog_level \<Rightarrow> slog_level \<Rightarrow> bool" where
  "less_slog_level a b \<longleftrightarrow> level_number a < level_number b"

instance
  by standard (auto simp: less_eq_slog_level_def less_slog_level_def)

end

definition parseLevel :: "ext \<Rightarrow> string \<Rightarrow> slog_level" where
  "parseLevel x level =
    (let l = to_lower (unicode_lower x) level in
     if l = ''debug'' then LevelDebug
     else if l = ''warn'' \<or> l = ''warning'' then LevelWarn
     else if l = ''error'' then LevelError
     else LevelInfo)"

datatype slog_attr = Attr string string | Group string "slog_attr list"

fun redact :: "ext \<Rightarrow> slog_attr \<Rightarrow> slog_attr" where
  "redact x (Group k as) = Group k as"
| "redact x (Attr k v) = (if IsSensitiveKey x k then Attr k redactedPlaceholder else Attr k v)"

text \<open>What a logger built by \<open>New\<close> writes of an attribute.\<close>

fun written :: "ext \<Rightarrow> slog_attr \<Rightarrow> slog_attr" where
  "written x (Attr k v) = redact x (Attr k v)"
| "written x (Group k as) = (case redact x (Group k as) of Group k' as' \<Rightarrow> Group k' (map (written x) as) | a \<Rightarrow> a)"

fun leaves :: "slog_attr \<Rightarrow> (string \<times> string) list" where
  "leaves (Attr k v) = [(k, v)]"
| "leaves (Group k as) = concat (map leaves as)"

lemma leaves_written:
  "leaves (written x a) = map (\<lambda>(k, v). (k, if IsSensitiveKey x k then redactedPlaceholder else v)) (leaves a)"
  by (induction a) (auto simp: map_concat intro!: arg_cong [where f = concat])

lemma separators_ignored:
  assumes "without_separators (to_lower (unicode_lower x) k) = without_separators (to_lower (unicode_lower x) k')"
  shows "IsSensitiveKey x k = IsSensitiveKey x k'"
  using assms by (simp add: IsSensitiveKey_def)

section \<open>Loggers\<close>

record log_line =
  ll_level :: slog_level
  ll_message :: string
  ll_attrs :: "slog_attr list"

definition info_line :: "string \<Rightarrow> slog_attr list \<Rightarrow> log_line" where
  "info_line m as = \<lparr>ll_level = LevelInfo, ll_message = m, ll_attrs = as\<rparr>"

definition warn_line :: "string \<Rightarrow> slog_attr list \<Rightarrow> log_line" where
  "warn_line m as = \<lparr>ll_level = LevelWarn, ll_message = m, ll_attrs = as\<rparr>"

definition error_line :: "string \<Rightarrow> slog_attr list \<Rightarrow> log_line" where
  "error_line m as = \<lparr>ll_level = LevelError, ll_message = m, ll_attrs = as\<rparr>"

text \<open>A logger: its threshold, its format and the attributes \<open>With\<close> has bound to it.\<close>

record logger =
  lg_level :: slog_level
  lg_text :: bool
  lg_bound :: "slog_attr list"

definition New_logger :: "ext \<Rightarrow> string \<Rightarrow> string \<Rightarrow> logger" where
  "New_logger x level format = \<lparr>lg_level = parseLevel x level, lg_text = (format = ''text''), lg_bound = []\<rparr>"

definition With :: "slog_attr list \<Rightarrow> logger \<Rightarrow> logger" where
  "With as l = l\<lparr>lg_bound := lg_bound l @ as\<rparr>"

text \<open>\<open>Redacted\<close> is what callers outside the package use.\<close>

definition Redacted :: string where "Redacted = redactedPlaceholder"

text \<open>What of the lines handed to a logger comes out of it, up to the rendering as text or JSON.\<close>

definition log_output :: "ext \<Rightarrow> logger \<Rightarrow> log_line list \<Rightarrow> log_line list" where
  "log_output x l ls = map (\<lambda>ll. ll\<lparr>ll_attrs := map (written x) (lg_bound l @ ll_attrs ll)\<rparr>)
     (filter (\<lambda>ll. lg_level l \<le> ll_level ll) ls)"

lemma parseLevel_cases: "parseLevel x level \<in> {LevelDebug, LevelInfo, LevelWarn, LevelError}"
  by (simp add: parseLevel_def Let_def)

lemma errors_are_always_logged:
  "ll \<in> set ls \<Longrightarrow> ll_level ll = LevelError \<Longrightarrow>
    ll\<lparr>ll_attrs := map (written x) (lg_bound l @ ll_attrs ll)\<rparr> \<in> set (log_output x l ls)"
  by (cases "lg_level l") (auto simp: log_output_def less_eq_slog_level_def intro!: image_eqI [of _ _ ll])

lemma leaves_of_attrs: "concat (map leaves (map (written x) as))
    = map (\<lambda>(k, v). (k, if IsSensitiveKey x k then redactedPlaceholder else v)) (concat (map leaves as))"
  by (induction as) (simp_all add: leaves_written)


definition sample_log :: ext where
  "sample_log = sample_ext [] \<lparr>cl_subject = [], cl_issuer = [], cl_audience = [], cl_issued = 0, cl_not_before = 0,
     cl_expires = 0, cl_id = [], cl_role = []\<rparr>"

end
