(* ===== verification/Radix.thy ===== *)
theory Radix
  imports Go_Strings
begin

text \<open>
  The radix encodings of Go's \<open>encoding/base32\<close> and \<open>encoding/base64\<close> without padding, as the
  program uses them: base32 for slug suffixes, URL-safe base64 for refresh tokens. Bytes become
  bits, most significant first; bits are cut into groups, the last one filled with zeros.
  Lemmas: the length of an encoding, its alphabet, and decode after encode.
\<close>

section \<open>Bits\<close>

definition bits_of_char :: "char \<Rightarrow> bool list" where
  "bits_of_char c = [digit7 c, digit6 c, digit5 c, digit4 c, digit3 c, digit2 c, digit1 c, digit0 c]"

fun char_of_bits :: "bool list \<Rightarrow> char" where
  "char_of_bits [b7, b6, b5, b4, b3, b2, b1, b0] = Char b0 b1 b2 b3 b4 b5 b6 b7"
| "char_of_bits _ = CHR 0x00"

lemma length_bits_of_char [simp]: "length (bits_of_char c) = 8"
  by (simp add: bits_of_char_def)

lemma char_of_bits_of_char [simp]: "char_of_bits (bits_of_char c) = c"
  by (cases c) (simp add: bits_of_char_def)

definition bits_of_bytes :: "string \<Rightarrow> bool list" where
  "bits_of_bytes s = concat (map bits_of_char s)"

lemma bits_of_bytes_simps [simp]:
  "bits_of_bytes [] = []" "bits_of_bytes (c # s) = bits_of_char c @ bits_of_bytes s"
  by (simp_all add: bits_of_bytes_def)

lemma length_bits_of_bytes [simp]: "length (bits_of_bytes s) = 8 * length s"
  by (induction s) auto

text \<open>Whole bytes at the front of a bit list; a shorter rest is dropped.\<close>

fun bytes_of_bits :: "bool list \<Rightarrow> string" where
  "bytes_of_bits (b7 # b6 # b5 # b4 # b3 # b2 # b1 # b0 # bs) =
     char_of_bits [b7, b6, b5, b4, b3, b2, b1, b0] # bytes_of_bits bs"
| "bytes_of_bits _ = []"

lemma bytes_of_bits_short: "length bs < 8 \<Longrightarrow> bytes_of_bits bs = []"
  by (induction bs rule: bytes_of_bits.induct) auto

lemma bytes_of_bits_char [simp]: "bytes_of_bits (bits_of_char c @ bs) = c # bytes_of_bits bs"
  by (cases c) (simp add: bits_of_char_def)

lemma bytes_of_bits_of_bytes: "length pad < 8 \<Longrightarrow> bytes_of_bits (bits_of_bytes s @ pad) = s"
  by (induction s) (auto simp: bytes_of_bits_short)

definition nat_of_bits :: "bool list \<Rightarrow> nat" where
  "nat_of_bits bs = foldl (\<lambda>n b. 2 * n + (if b then 1 else 0)) 0 bs"

fun bits_of_nat :: "nat \<Rightarrow> nat \<Rightarrow> bool list" where
  "bits_of_nat 0 n = []"
| "bits_of_nat (Suc k) n = bits_of_nat k (n div 2) @ [odd n]"

lemma nat_of_bits_snoc [simp]: "nat_of_bits (bs @ [b]) = 2 * nat_of_bits bs + (if b then 1 else 0)"
  by (simp add: nat_of_bits_def)

lemma nat_of_bits_bound: "nat_of_bits bs < 2 ^ length bs"
proof (induction bs rule: rev_induct)
  case Nil
  show ?case by (simp add: nat_of_bits_def)
next
  case (snoc b bs)
  then show ?case by auto
qed

lemma bits_of_nat_of_bits: "bits_of_nat (length bs) (nat_of_bits bs) = bs"
  by (induction bs rule: rev_induct) auto

section \<open>Groups\<close>

function pad_groups :: "nat \<Rightarrow> bool list \<Rightarrow> bool list list" where
  "pad_groups k bs = (if bs = [] \<or> k = 0 then []
     else take k (bs @ replicate (k - length bs) False) # pad_groups k (drop k bs))"
  by pat_completeness auto
termination
  by (relation "measure (\<lambda>(k, bs). length bs)") auto

declare pad_groups.simps [simp del]

lemma pad_groups_Nil [simp]: "pad_groups k [] = []"
  by (simp add: pad_groups.simps)

lemma pad_groups_length: "g \<in> set (pad_groups k bs) \<Longrightarrow> length g = k"
proof (induction k bs rule: pad_groups.induct)
  case (1 k bs)
  then show ?case by (auto simp: pad_groups.simps [of k bs] split: if_splits)
qed

lemma concat_pad_groups:
  "0 < k \<Longrightarrow> \<exists>m < k. concat (pad_groups k bs) = bs @ replicate m False"
proof (induction k bs rule: pad_groups.induct)
  case (1 k bs)
  show ?case
  proof (cases "bs = []")
    case True
    with 1 show ?thesis by auto
  next
    case False
    with 1 obtain m where m: "m < k" "concat (pad_groups k (drop k bs)) = drop k bs @ replicate m False"
      by auto
    show ?thesis
    proof (cases "k \<le> length bs")
      case True
      with m False 1 show ?thesis
        by (intro exI [of _ m]) (simp add: pad_groups.simps [of k bs] flip: append_assoc)
    next
      case short: False
      with False 1 have "concat (pad_groups k bs) = bs @ replicate (k - length bs) False"
        by (simp add: pad_groups.simps [of k bs])
      with short False show ?thesis by (intro exI [of _ "k - length bs"]) (cases bs, auto)
    qed
  qed
qed

section \<open>Encoding and decoding\<close>

definition radix_encode :: "string \<Rightarrow> nat \<Rightarrow> string \<Rightarrow> string" where
  "radix_encode alpha k s = map (\<lambda>g. alpha ! nat_of_bits g) (pad_groups k (bits_of_bytes s))"

fun index_of :: "'a \<Rightarrow> 'a list \<Rightarrow> nat option" where
  "index_of x [] = None"
| "index_of x (y # ys) = (if x = y then Some 0 else map_option Suc (index_of x ys))"

lemma index_of_nth: "distinct xs \<Longrightarrow> i < length xs \<Longrightarrow> index_of (xs ! i) xs = Some i"
proof (induction xs arbitrary: i)
  case (Cons x xs)
  then show ?case by (cases i) (auto simp: nth_eq_iff_index_eq dest: nth_mem)
qed simp

definition radix_decode :: "string \<Rightarrow> nat \<Rightarrow> string \<Rightarrow> string option" where
  "radix_decode alpha k s =
    (if list_all (\<lambda>c. index_of c alpha \<noteq> None) s
     then Some (bytes_of_bits (concat (map (\<lambda>c. bits_of_nat k (the (index_of c alpha))) s)))
     else None)"

lemma radix_encode_set:
  assumes "length alpha = 2 ^ k"
  shows "set (radix_encode alpha k s) \<subseteq> set alpha"
proof
  fix c assume "c \<in> set (radix_encode alpha k s)"
  then obtain g where g: "g \<in> set (pad_groups k (bits_of_bytes s))" "c = alpha ! nat_of_bits g"
    by (auto simp: radix_encode_def)
  with pad_groups_length nat_of_bits_bound [of g] assms show "c \<in> set alpha" by auto
qed

lemma length_radix_encode:
  assumes "0 < k"
  shows "\<exists>m < k. k * length (radix_encode alpha k s) = 8 * length s + m"
proof -
  obtain m where m: "m < k" "concat (pad_groups k (bits_of_bytes s)) = bits_of_bytes s @ replicate m False"
    using concat_pad_groups [OF assms] by blast
  have "length (concat gs) = k * length gs" if "\<forall>g \<in> set gs. length g = k" for gs :: "bool list list"
    using that by (induction gs) auto
  with pad_groups_length have "length (concat (pad_groups k (bits_of_bytes s)))
    = k * length (pad_groups k (bits_of_bytes s))" by blast
  with m show ?thesis by (auto simp: radix_encode_def)
qed

lemma radix_roundtrip:
  assumes "distinct alpha" and "length alpha = 2 ^ k" and "0 < k" and "k \<le> 8"
  shows "radix_decode alpha k (radix_encode alpha k s) = Some s"
proof -
  let ?gs = "pad_groups k (bits_of_bytes s)"
  have g: "index_of (alpha ! nat_of_bits g) alpha = Some (nat_of_bits g)" if "g \<in> set ?gs" for g
    using index_of_nth [OF assms(1)] nat_of_bits_bound [of g] pad_groups_length [OF that] assms(2) by simp
  have "map (\<lambda>c. bits_of_nat k (the (index_of c alpha))) (radix_encode alpha k s) = ?gs"
    using g bits_of_nat_of_bits pad_groups_length
    by (force simp: radix_encode_def comp_def intro!: map_idI)
  moreover obtain m where "m < k" "concat ?gs = bits_of_bytes s @ replicate m False"
    using concat_pad_groups [OF assms(3)] by blast
  moreover have "list_all (\<lambda>c. index_of c alpha \<noteq> None) (radix_encode alpha k s)"
    using g by (auto simp: radix_encode_def list_all_iff)
  ultimately show ?thesis
    using assms(4) by (simp add: radix_decode_def bytes_of_bits_of_bytes)
qed

end
