(* ===== verification/Slug.thy ===== *)
theory Slug
  imports Radix
begin

text \<open>
  \<open>internal/post/slug.go\<close>: the slug of a title. The loop over the lower-cased title is
  \<open>slug_loop\<close>, one step per rune; the four random bytes of \<open>randomSuffix\<close> are an argument.
  Lemmas: whatever the title, the case tables and the random bytes, the result satisfies the
  \<open>posts_slug_format\<close> CHECK of the schema, with room for the suffix a collision adds; a slug
  that is already well formed is its own slug.
\<close>

definition maxSlugLen :: nat where "maxSlugLen = 200"

definition slug_rune :: "rune \<Rightarrow> bool" where
  "slug_rune r \<longleftrightarrow> (97 \<le> r \<and> r \<le> 122) \<or> (48 \<le> r \<and> r \<le> 57)"

abbreviation slug_char :: "char \<Rightarrow> bool" where "slug_char c \<equiv> slug_rune (byte c)"

text \<open>The loop body; the flag is \<open>lastWasHyphen\<close>.\<close>

fun slug_loop :: "rune list \<Rightarrow> bool \<Rightarrow> string" where
  "slug_loop [] lastWasHyphen = []"
| "slug_loop (r # rs) lastWasHyphen =
    (if slug_rune r then char_of r # slug_loop rs False
     else if \<not> lastWasHyphen then CHR ''-'' # slug_loop rs True
     else slug_loop rs lastWasHyphen)"

definition suffixAlphabet :: string where
  "suffixAlphabet = ''abcdefghijklmnopqrstuvwxyz234567''"

definition randomSuffix :: "string \<Rightarrow> string" where
  "randomSuffix buf = take 6 (radix_encode suffixAlphabet 5 buf)"

definition Slugify :: "(rune \<Rightarrow> rune) \<Rightarrow> string \<Rightarrow> string \<Rightarrow> string" where
  "Slugify ul buf title =
    (let slug = trim_char (CHR ''-'') (slug_loop (runes (to_lower ul title)) True);
         slug = (if length slug > maxSlugLen then trim_char (CHR ''-'') (take maxSlugLen slug) else slug)
     in if length slug < 3 then ''post-'' @ randomSuffix buf else slug)"

definition WithSuffix :: "string \<Rightarrow> string \<Rightarrow> string" where
  "WithSuffix buf slug = slug @ ''-'' @ randomSuffix buf"

text \<open>
  The CHECK the database applies: groups of [a-z0-9] joined by single hyphens, 3 to 220
  characters.
\<close>

definition slug_pattern :: "string \<Rightarrow> bool" where
  "slug_pattern s \<longleftrightarrow> list_all (\<lambda>g. g \<noteq> [] \<and> list_all slug_char g) (split_char (CHR ''-'') s)"

definition posts_slug_format :: "string \<Rightarrow> bool" where
  "posts_slug_format s \<longleftrightarrow> slug_pattern s \<and> 3 \<le> rune_count s \<and> rune_count s \<le> 220"

section \<open>Well-formed slugs\<close>

definition hyphen_ok :: "char \<Rightarrow> char \<Rightarrow> bool" where
  "hyphen_ok a b \<longleftrightarrow> \<not> (a = CHR ''-'' \<and> b = CHR ''-'')"

definition slug_body :: "string \<Rightarrow> bool" where
  "slug_body s \<longleftrightarrow> list_all (\<lambda>c. slug_char c \<or> c = CHR ''-'') s \<and> successively hyphen_ok s"

definition slug_ends :: "string \<Rightarrow> bool" where
  "slug_ends s \<longleftrightarrow> s \<noteq> [] \<and> hd s \<noteq> CHR ''-'' \<and> last s \<noteq> CHR ''-''"

lemma slug_char_not_hyphen: "slug_char c \<Longrightarrow> c \<noteq> CHR ''-''"
  by (auto simp: slug_rune_def)

lemma split_char_head: "x \<noteq> c \<Longrightarrow> split_char c (x # s)
  = (x # hd (split_char c s)) # tl (split_char c s)"
  using split_char_nonempty [of c s] by (cases "split_char c s") auto

lemma slug_pattern_Cons:
  assumes "slug_char x" and "slug_pattern s"
  shows "slug_pattern (x # s)"
  using assms slug_char_not_hyphen [OF assms(1)] split_char_nonempty [of "CHR ''-''" s]
  by (cases "split_char (CHR ''-'') s")
     (simp_all add: slug_pattern_def split_char_head)

lemma slug_pattern_Cons_hyphen:
  assumes "slug_char x" and "slug_pattern s"
  shows "slug_pattern (x # CHR ''-'' # s)"
  using assms slug_char_not_hyphen [OF assms(1)] by (simp add: slug_pattern_def)

lemma slug_body_pattern: "slug_body s \<Longrightarrow> slug_ends s \<Longrightarrow> slug_pattern s"
proof (induction s rule: induct_list012)
  case (3 x y zs)
  then have x: "slug_char x" by (auto simp: slug_body_def slug_ends_def)
  show ?case
  proof (cases "y = CHR ''-''")
    case True
    with 3 have "slug_body zs \<and> slug_ends zs"
      by (cases zs) (auto simp: slug_body_def slug_ends_def hyphen_ok_def)
    with 3 x True show ?thesis by (simp add: slug_pattern_Cons_hyphen)
  next
    case False
    with 3 have "slug_body (y # zs) \<and> slug_ends (y # zs)"
      by (auto simp: slug_body_def slug_ends_def)
    with 3 x show ?thesis by (simp add: slug_pattern_Cons)
  qed
qed (auto simp: slug_body_def slug_ends_def slug_pattern_def)

lemma slug_pattern_body: "slug_pattern s \<Longrightarrow> slug_body s \<and> slug_ends s"
proof (induction s rule: induct_list012)
  case 1
  then show ?case by (simp add: slug_pattern_def)
next
  case (2 x)
  then show ?case
    using slug_char_not_hyphen by (auto simp: slug_pattern_def slug_body_def slug_ends_def split: if_splits)
next
  case (3 x y zs)
  have x: "x \<noteq> CHR ''-''"
    using 3(3) by (auto simp: slug_pattern_def)
  then have "slug_char x"
    using 3(3) by (simp add: slug_pattern_def split_char_head del: split_char.simps(2))
  note x = this x
  show ?case
  proof (cases "y = CHR ''-''")
    case True
    with 3(3) x have "slug_pattern zs" by (simp add: slug_pattern_def)
    with 3(1) x True show ?thesis
      by (cases zs) (auto simp: slug_body_def slug_ends_def hyphen_ok_def)
  next
    case False
    with 3(3) x have "slug_pattern (y # zs)"
      using split_char_nonempty [of "CHR ''-''" zs]
      by (cases "split_char (CHR ''-'') zs") (auto simp: slug_pattern_def split_char_head)
    with 3(2) x show ?thesis by (auto simp: slug_body_def slug_ends_def hyphen_ok_def)
  qed
qed

lemma slug_pattern_ascii: "slug_body s \<Longrightarrow> ascii s"
  by (auto simp: slug_body_def ascii_def list_all_iff slug_rune_def)

section \<open>The loop produces slug bodies\<close>

lemma slug_loop_chars: "list_all (\<lambda>c. slug_char c \<or> c = CHR ''-'') (slug_loop rs l)"
  by (induction rs l rule: slug_loop.induct) (auto simp: slug_rune_def)

lemma slug_loop_hd: "slug_loop rs True \<noteq> [] \<Longrightarrow> hd (slug_loop rs True) \<noteq> CHR ''-''"
proof (induction rs)
  case (Cons r rs)
  show ?case
  proof (cases "slug_rune r")
    case True
    then have "slug_char (char_of r)" by (auto simp: slug_rune_def)
    with True show ?thesis using slug_char_not_hyphen by auto
  qed (use Cons in auto)
qed simp

lemma slug_loop_hyphens: "successively hyphen_ok (slug_loop rs l)"
proof (induction rs l rule: slug_loop.induct)
  case (2 r rs l)
  have "char_of r \<noteq> CHR ''-''" if "slug_rune r"
    using that slug_char_not_hyphen [of "char_of r"] by (auto simp: slug_rune_def)
  with 2 slug_loop_hd [of rs] show ?case
    by (auto simp: successively_Cons hyphen_ok_def)
qed simp

lemma slug_loop_body: "slug_body (slug_loop rs l)"
  by (simp add: slug_body_def slug_loop_chars slug_loop_hyphens)

lemma slug_body_sub: "slug_body (xs @ ys @ zs) \<Longrightarrow> slug_body ys"
  by (auto simp: slug_body_def successively_append_iff)

lemma slug_body_trim: "slug_body s \<Longrightarrow> slug_body (trim_char c s)"
  unfolding trim_char_def by (metis slug_body_sub trim_both_split)

lemma slug_body_take: "slug_body s \<Longrightarrow> slug_body (take n s)"
  using slug_body_sub [of "[]" "take n s" "drop n s"] by simp

lemma slug_ends_trim: "trim_char (CHR ''-'') s \<noteq> [] \<Longrightarrow> slug_ends (trim_char (CHR ''-'') s)"
  using trim_both_ends [of "\<lambda>x. x = CHR ''-''" s] by (auto simp: trim_char_def slug_ends_def)

lemma suffixAlphabet_slug: "list_all slug_char suffixAlphabet"
  by (simp add: suffixAlphabet_def slug_rune_def)

lemma randomSuffix_slug: "list_all slug_char (randomSuffix buf)"
proof -
  have "set (radix_encode suffixAlphabet 5 buf) \<subseteq> set suffixAlphabet"
    by (rule radix_encode_set) (simp add: suffixAlphabet_def)
  then show ?thesis
    using suffixAlphabet_slug in_set_takeD [of _ 6 "radix_encode suffixAlphabet 5 buf"]
    by (auto simp: randomSuffix_def list_all_iff)
qed

lemma length_randomSuffix: "length buf = 4 \<Longrightarrow> length (randomSuffix buf) = 6"
  using length_radix_encode [of 5 suffixAlphabet buf] by (auto simp: randomSuffix_def)

lemma randomSuffix_bound: "length (randomSuffix buf) \<le> 6"
  by (simp add: randomSuffix_def)

lemma slug_body_suffix: "list_all slug_char s \<Longrightarrow> slug_body s"
proof (induction s)
  case (Cons c s)
  then show ?case using slug_char_not_hyphen
    by (cases s) (auto simp: slug_body_def hyphen_ok_def)
qed (simp add: slug_body_def)

lemma slug_ends_suffix: "list_all slug_char s \<Longrightarrow> s \<noteq> [] \<Longrightarrow> slug_ends s"
  using slug_char_not_hyphen by (cases s rule: rev_cases) (auto simp: slug_ends_def hd_append split: if_splits,
    metis hd_in_set list_all_iff)

lemma slug_join:
  assumes "slug_body s" and "slug_ends s" and "list_all slug_char t" and "t \<noteq> []"
  shows "slug_body (s @ ''-'' @ t) \<and> slug_ends (s @ ''-'' @ t)"
  using assms slug_body_suffix [OF assms(3)] slug_ends_suffix [OF assms(3,4)]
  by (auto simp: slug_body_def slug_ends_def successively_append_iff successively_Cons hyphen_ok_def)

lemma Slugify_body:
  assumes "length buf = 4"
  shows "slug_body (Slugify ul buf t) \<and> slug_ends (Slugify ul buf t)
    \<and> 3 \<le> length (Slugify ul buf t) \<and> length (Slugify ul buf t) \<le> maxSlugLen"
proof -
  define s0 where "s0 = trim_char (CHR ''-'') (slug_loop (runes (to_lower ul t)) True)"
  define s1 where "s1 = (if length s0 > maxSlugLen then trim_char (CHR ''-'') (take maxSlugLen s0) else s0)"
  have b1: "slug_body s1"
    by (simp add: s1_def s0_def slug_body_trim slug_body_take slug_loop_body)
  have l1: "length s1 \<le> maxSlugLen"
    using trim_both_length [of _ "take maxSlugLen s0"] by (auto simp: s1_def trim_char_def intro: order_trans)
  have e1: "slug_ends s1" if "s1 \<noteq> []"
    using that slug_ends_trim by (auto simp: s1_def s0_def split: if_splits)
  have r: "randomSuffix buf \<noteq> []" using length_randomSuffix [OF assms] by auto
  have p: "slug_body (''post'' @ ''-'' @ randomSuffix buf) \<and> slug_ends (''post'' @ ''-'' @ randomSuffix buf)"
    by (rule slug_join [OF slug_body_suffix slug_ends_suffix randomSuffix_slug r])
       (simp_all add: slug_rune_def)
  have "Slugify ul buf t = (if length s1 < 3 then ''post-'' @ randomSuffix buf else s1)"
    by (simp add: Slugify_def s0_def s1_def Let_def)
  with b1 l1 e1 p length_randomSuffix [OF assms] show ?thesis
    by (cases "length s1 < 3"; cases "s1 = []") (simp_all add: maxSlugLen_def)
qed

text \<open>C40: whatever the title, its slug satisfies the posts_slug_format CHECK of the schema, so an
  INSERT of a generated slug never fails it; the suffixed slug a retry uses satisfies it too.\<close>

theorem Slugify_satisfies_check:
  assumes "length buf = 4" and "length buf' = 4"
  shows "posts_slug_format (Slugify ul buf title)
    \<and> posts_slug_format (WithSuffix buf' (Slugify ul buf title))"
proof -
  let ?s = "Slugify ul buf title" and ?r = "randomSuffix buf'"
  have s: "slug_body ?s" "slug_ends ?s" "3 \<le> length ?s" "length ?s \<le> 200"
    using Slugify_body [OF assms(1)] by (auto simp: maxSlugLen_def)
  have "?r \<noteq> []" using length_randomSuffix [OF assms(2)] by auto
  with s slug_join [of ?s ?r] randomSuffix_slug
  have w: "slug_body (WithSuffix buf' ?s)" "slug_ends (WithSuffix buf' ?s)"
    by (auto simp: WithSuffix_def)
  have "length (WithSuffix buf' ?s) = length ?s + 7"
    using length_randomSuffix [OF assms(2)] by (simp add: WithSuffix_def)
  with s w show ?thesis
    by (auto simp: posts_slug_format_def slug_body_pattern rune_count_ascii slug_pattern_ascii)
qed

theorem Slugify_satisfies_check_witness:
  "posts_slug_format (Slugify id ''abcd'' ''Hello, World!'')
    \<and> posts_slug_format (WithSuffix ''wxyz'' (Slugify id ''abcd'' ''Hello, World!''))"
  by (rule Slugify_satisfies_check) simp_all

section \<open>A slug is its own slug\<close>

lemma encode_slug_char: "slug_char c \<or> c = CHR ''-'' \<Longrightarrow> encode_rune (lower_rune ul (byte c)) = [c]"
proof -
  assume "slug_char c \<or> c = CHR ''-''"
  then have "lower_rune ul (byte c) = byte c" "byte c < 128"
    by (auto simp: slug_rune_def lower_rune_def)
  then show ?thesis by (simp add: encode_rune_def Let_def)
qed

lemma slug_runes_id: "slug_body s \<Longrightarrow> runes (to_lower ul s) = map of_char s"
proof -
  assume s: "slug_body s"
  then have "list_all (\<lambda>c. slug_char c \<or> c = CHR ''-'') s" by (simp add: slug_body_def)
  then have "concat (map (\<lambda>r. encode_rune (lower_rune ul r)) (map of_char s)) = s"
    by (induction s) (simp_all add: encode_slug_char)
  with slug_pattern_ascii [OF s] show ?thesis
    by (simp add: to_lower_def runes_ascii)
qed

lemma slug_loop_id:
  "slug_body s \<Longrightarrow> (l \<longrightarrow> s = [] \<or> hd s \<noteq> CHR ''-'') \<Longrightarrow> slug_loop (map of_char s) l = s"
proof (induction s arbitrary: l)
  case (Cons c s)
  have sb: "slug_body s" using Cons.prems(1) by (auto simp: slug_body_def successively_Cons)
  show ?case
  proof (cases "c = CHR ''-''")
    case True
    with Cons.prems(1) have "s = [] \<or> hd s \<noteq> CHR ''-''"
      by (cases s) (auto simp: slug_body_def hyphen_ok_def)
    with Cons.IH [OF sb, of True] Cons.prems(2) True show ?thesis by (simp add: slug_rune_def)
  next
    case False
    with Cons.prems(1) have "slug_char c" by (auto simp: slug_body_def)
    with Cons.IH [OF sb, of False] show ?thesis by simp
  qed
qed simp

text \<open>A title that is already a well-formed slug of at most 200 characters is its own slug, so
  re-saving an unchanged slug-like title does not move the post.\<close>

theorem Slugify_fixed_point:
  assumes "posts_slug_format s" and "length s \<le> maxSlugLen"
  shows "Slugify ul buf s = s"
proof -
  from assms(1) have s: "slug_body s" "slug_ends s"
    using slug_pattern_body by (auto simp: posts_slug_format_def)
  have "3 \<le> length s" using assms(1) rune_count_le_length [of s] by (simp add: posts_slug_format_def)
  moreover have "slug_loop (runes (to_lower ul s)) True = s"
    using s slug_runes_id slug_loop_id [of s True] by (simp add: slug_ends_def)
  moreover have "trim_char (CHR ''-'') s = s"
    using s by (simp add: trim_char_def slug_ends_def trim_both_id)
  ultimately show ?thesis using assms(2) by (simp add: Slugify_def)
qed

theorem Slugify_fixed_point_witness: "Slugify id ''abcd'' ''hello-world-2'' = ''hello-world-2''"
  by (rule Slugify_fixed_point)
     (simp_all add: posts_slug_format_def slug_pattern_def slug_rune_def rune_count_def maxSlugLen_def)

end
