(* ===== verification/Database.thy ===== *)
theory Database
  imports Logging Slug
begin

text \<open>
  The PostgreSQL side: the schema of \<open>migrations/0001_init.up.sql\<close> as row lists with its
  constraints, and \<open>internal/platform/postgres/postgres.go\<close>. A statement is a function of the
  transaction's \<open>now()\<close> and the tables; it fails with the SQLSTATE and constraint name PostgreSQL
  reports. A round trip to the server may be acknowledged, may never reach it, or may take effect
  and lose its reply (\<open>outcome\<close>); \<open>InTx\<close> begins, runs its body, and commits or rolls back.
  Lemmas: the atomicity of \<open>InTx\<close> under every outcome, and the error classification.
\<close>

section \<open>Rows\<close>

record post_row =
  pr_id :: uuid
  pr_author :: uuid
  pr_title :: string
  pr_slug :: string
  pr_content :: string
  pr_status :: string
  pr_count :: int
  pr_published :: "time option"
  pr_created :: time
  pr_updated :: time
  pr_deleted :: "time option"

record comment_row =
  cr_id :: uuid
  cr_post :: uuid
  cr_author :: uuid
  cr_parent :: "uuid option"
  cr_content :: string
  cr_created :: time
  cr_updated :: time
  cr_deleted :: "time option"

record token_row =
  rt_id :: uuid
  rt_user :: uuid
  rt_hash :: string
  rt_expires :: time
  rt_revoked :: "time option"
  rt_replaced :: "uuid option"
  rt_agent :: "string option"
  rt_created :: time

record database =
  users :: "user list"
  posts :: "post_row list"
  comments :: "comment_row list"
  tokens :: "token_row list"

definition post_live :: "post_row \<Rightarrow> bool" where "post_live r \<longleftrightarrow> pr_deleted r = None"
definition comment_live :: "comment_row \<Rightarrow> bool" where "comment_live r \<longleftrightarrow> cr_deleted r = None"

interpretation user_key: keyed user_id .
interpretation post_key: keyed pr_id .
interpretation comment_key: keyed cr_id .
interpretation token_key: keyed rt_id .

section \<open>SQLSTATE and the driver's error predicates\<close>

definition sqlStateUniqueViolation :: string where "sqlStateUniqueViolation = ''23505''"
definition sqlStateForeignKeyViolation :: string where "sqlStateForeignKeyViolation = ''23503''"
definition sqlStateCheckViolation :: string where "sqlStateCheckViolation = ''23514''"
definition sqlStateSerializationFail :: string where "sqlStateSerializationFail = ''40001''"
definition sqlStateDeadlockDetected :: string where "sqlStateDeadlockDetected = ''40P01''"

lemmas sql_states = sqlStateUniqueViolation_def sqlStateForeignKeyViolation_def
  sqlStateCheckViolation_def sqlStateSerializationFail_def sqlStateDeadlockDetected_def

fun is_pg :: "gerr \<Rightarrow> bool" where
  "is_pg (PgError c n) = True" | "is_pg _ = False"

definition pgErr :: "gerr \<Rightarrow> gerr option" where
  "pgErr e = find is_pg (chain e)"

definition pg_violation :: "string \<Rightarrow> gerr \<Rightarrow> string \<Rightarrow> bool" where
  "pg_violation st e con = (case pgErr e of
     Some (PgError c n) \<Rightarrow> c = st \<and> (con = [] \<or> n = con) | _ \<Rightarrow> False)"

definition IsUniqueViolation :: "gerr \<Rightarrow> string \<Rightarrow> bool" where
  "IsUniqueViolation = pg_violation sqlStateUniqueViolation"
definition IsForeignKeyViolation :: "gerr \<Rightarrow> string \<Rightarrow> bool" where
  "IsForeignKeyViolation = pg_violation sqlStateForeignKeyViolation"
definition IsCheckViolation :: "gerr \<Rightarrow> string \<Rightarrow> bool" where
  "IsCheckViolation = pg_violation sqlStateCheckViolation"

definition IsRetryable :: "gerr \<Rightarrow> bool" where
  "IsRetryable e = (case pgErr e of
     Some (PgError c n) \<Rightarrow> c = sqlStateSerializationFail \<or> c = sqlStateDeadlockDetected | _ \<Rightarrow> False)"

definition IsNoRows :: "gerr \<Rightarrow> bool" where "IsNoRows e \<longleftrightarrow> errors_is e ErrNoRows"

definition NotFoundOr :: "gerr \<Rightarrow> string \<Rightarrow> gerr" where
  "NotFoundOr e resource = (if IsNoRows e then NotFound resource else Internal e)"

lemma pgErr_simps [simp]:
  "pgErr (Sentinel s) = None"
  "pgErr (PgError c n) = Some (PgError c n)"
  "pgErr (JsonError j) = None"
  "pgErr (LibError l) = None"
  "pgErr (Wrapf m []) = None"
  "pgErr (Wrapf m (e # es)) = (case pgErr e of None \<Rightarrow> pgErr (Wrapf m es) | Some y \<Rightarrow> Some y)"
  by (simp_all add: pgErr_def find_append split: option.splits)

lemma violation_simps [simp]:
  "IsUniqueViolation (PgError c n) con \<longleftrightarrow> c = sqlStateUniqueViolation \<and> (con = [] \<or> n = con)"
  "IsForeignKeyViolation (PgError c n) con \<longleftrightarrow> c = sqlStateForeignKeyViolation \<and> (con = [] \<or> n = con)"
  "IsCheckViolation (PgError c n) con \<longleftrightarrow> c = sqlStateCheckViolation \<and> (con = [] \<or> n = con)"
  "\<not> IsUniqueViolation (Sentinel s) con" "\<not> IsForeignKeyViolation (Sentinel s) con"
  "\<not> IsCheckViolation (Sentinel s) con"
  by (simp_all add: IsUniqueViolation_def IsForeignKeyViolation_def IsCheckViolation_def pg_violation_def)

section \<open>Schema constraints\<close>

text \<open>\<open>TEXT\<close> values are valid UTF-8 without NUL; anything else is SQLSTATE 22021.\<close>

definition pg_text :: "string \<Rightarrow> bool" where
  "pg_text s \<longleftrightarrow> valid_utf8 s \<and> CHR 0x00 \<notin> set s"

definition pg_encoding_error :: gerr where "pg_encoding_error = PgError ''22021'' ''''"

definition btrim :: "string \<Rightarrow> string" where "btrim s = trim_char (CHR '' '') s"

abbreviation char_length :: "string \<Rightarrow> nat" where "char_length \<equiv> rune_count"

fun first_violated :: "(string \<times> bool) list \<Rightarrow> gerr option" where
  "first_violated [] = None"
| "first_violated ((n, ok) # cs) =
    (if ok then first_violated cs else Some (PgError sqlStateCheckViolation n))"

lemma first_violated_None: "first_violated cs = None \<longleftrightarrow> (\<forall>(n, ok) \<in> set cs. ok)"
  by (induction cs rule: first_violated.induct) auto

lemma first_violated_Some:
  "first_violated cs = Some e \<Longrightarrow> \<exists>n. e = PgError sqlStateCheckViolation n"
  by (induction cs rule: first_violated.induct) (auto split: if_splits)

definition username_char :: "char \<Rightarrow> bool" where
  "username_char c \<longleftrightarrow> (97 \<le> byte c \<and> byte c \<le> 122) \<or> is_digit c \<or> c = CHR ''_'' \<or> c = CHR ''-''"

definition pg_space :: "char \<Rightarrow> bool" where
  "pg_space c \<longleftrightarrow> (9 \<le> byte c \<and> byte c \<le> 13) \<or> byte c = 32"

text \<open>\<open>^[^@[:space:]]+@[^@[:space:]]+\.[^@[:space:]]+$\<close>\<close>

definition email_pattern :: "string \<Rightarrow> bool" where
  "email_pattern s \<longleftrightarrow> list_all (\<lambda>c. \<not> pg_space c) s \<and>
    (case split_char (CHR ''@'') s of
       [l, d] \<Rightarrow> l \<noteq> [] \<and> CHR ''.'' \<in> set (butlast (tl d))
     | _ \<Rightarrow> False)"

definition users_checks :: "ext \<Rightarrow> user \<Rightarrow> (string \<times> bool) list" where
  "users_checks x u =
    [(''users_display_name_length'', 1 \<le> char_length (btrim (display_name u)) \<and> char_length (btrim (display_name u)) \<le> 80),
     (''users_email_format'', email_pattern (email u)),
     (''users_email_length'', 3 \<le> char_length (email u) \<and> char_length (email u) \<le> 254),
     (''users_email_lowercase'', email u = pg_lower x (email u)),
     (''users_password_hash_present'', 20 \<le> char_length (password_hash u)),
     (''users_role_valid'', role u = ''user'' \<or> role u = ''admin''),
     (''users_username_format'', list_all username_char (username u) \<and> 3 \<le> length (username u) \<and> length (username u) \<le> 30),
     (''users_username_lowercase'', username u = pg_lower x (username u))]"

definition posts_checks :: "post_row \<Rightarrow> (string \<times> bool) list" where
  "posts_checks r =
    [(''posts_comment_count_non_negative'', 0 \<le> pr_count r),
     (''posts_content_length'', 1 \<le> char_length (btrim (pr_content r)) \<and> char_length (btrim (pr_content r)) \<le> 50000),
     (''posts_published_at_consistent'',
        pr_status r = ''published'' \<and> pr_published r \<noteq> None \<or> pr_status r = ''draft'' \<and> pr_published r = None),
     (''posts_slug_format'', posts_slug_format (pr_slug r)),
     (''posts_status_valid'', pr_status r = ''draft'' \<or> pr_status r = ''published''),
     (''posts_title_length'', 3 \<le> char_length (btrim (pr_title r)) \<and> char_length (btrim (pr_title r)) \<le> 200)]"

definition comments_checks :: "comment_row \<Rightarrow> (string \<times> bool) list" where
  "comments_checks r =
    [(''comments_content_length'', 1 \<le> char_length (btrim (cr_content r)) \<and> char_length (btrim (cr_content r)) \<le> 5000),
     (''comments_not_self_parent'', cr_parent r \<noteq> Some (cr_id r))]"

definition tokens_checks :: "token_row \<Rightarrow> (string \<times> bool) list" where
  "tokens_checks r =
    [(''refresh_tokens_expires_after_creation'', rt_created r < rt_expires r),
     (''refresh_tokens_hash_is_sha256'', length (rt_hash r) = 32),
     (''refresh_tokens_user_agent_length'', case rt_agent r of None \<Rightarrow> True | Some a \<Rightarrow> char_length a \<le> 512)]"

definition int4 :: "int \<Rightarrow> bool" where "int4 n \<longleftrightarrow> - (2 ^ 31) \<le> n \<and> n < 2 ^ 31"

section \<open>The world and the driver\<close>

text \<open>
  \<open>Done\<close>: the statement ran and its reply arrived. \<open>Lost f\<close>: it never ran and the driver reports
  the failure \<open>f\<close>. \<open>Unacknowledged f\<close>: it ran, the reply was lost and the driver reports \<open>f\<close>. When the list of
  outcomes is used up every further round trip is \<open>Done\<close>.
\<close>

datatype link_failure =
    NetError string | DeadlinePassed | ContextCanceled
  | SerializationFailure | DeadlockDetected | AdminShutdown

fun link_err :: "link_failure \<Rightarrow> gerr" where
  "link_err (NetError m) = LibError m"
| "link_err DeadlinePassed = Wrapf ''timeout'' [Sentinel DeadlineExceeded]"
| "link_err ContextCanceled = Wrapf ''timeout'' [Sentinel Canceled]"
| "link_err SerializationFailure = PgError sqlStateSerializationFail []"
| "link_err DeadlockDetected = PgError sqlStateDeadlockDetected []"
| "link_err AdminShutdown = PgError ''57P01'' []"

datatype outcome = Done | Lost link_failure | Unacknowledged link_failure

text \<open>A failed round trip is never mistaken for an answer of the database or of the application.\<close>

lemma link_err_simps [simp]:
  "as_api (link_err f) = None"
  "\<not> errors_is (link_err f) ErrNoRows" "\<not> errors_is (link_err f) ErrSessionNotFound"
  "\<not> errors_is (link_err f) ErrSlugTaken" "\<not> errors_is (link_err f) ErrPostNotFound"
  "\<not> IsUniqueViolation (link_err f) con" "\<not> IsForeignKeyViolation (link_err f) con"
  "\<not> IsCheckViolation (link_err f) con"
  by (cases f; simp add: IsUniqueViolation_def IsForeignKeyViolation_def IsCheckViolation_def
      pg_violation_def sql_states)+

text \<open>\<open>None\<close> is the zero time; \<open>Publish\<close> fills it in, and the request id.\<close>

record event =
  ev_name :: string
  ev_actor :: string
  ev_subject :: string
  ev_request :: string
  ev_time :: "time option"
  ev_attrs :: "(string \<times> string) list"

text \<open>
  What a request runs against: tables, round-trip outcomes, the server's and the process's clock,
  the streams behind \<open>uuid.New\<close> and \<open>crypto/rand\<close>, the events handed to the bus, the lines the
  code logs itself, and the number of bcrypt computations (the cost a caller can observe). The tables are a parameter: requests run
  against the blog's (\<open>world\<close>), the migrator against a database with another schema.
\<close>

record 'd machine =
  db :: 'd
  outcomes :: "outcome list"
  db_now :: time
  clock :: time
  uuid_stream :: "nat \<Rightarrow> uuid"
  uuid_next :: nat
  entropy :: "nat \<Rightarrow> char"
  entropy_next :: nat
  bus_log :: "event list"
  app_log :: "log_line list"
  bcrypt_runs :: nat

type_synonym world = "database machine"
type_synonym ('d, 'a) prog_on = "'d machine \<Rightarrow> (gerr + 'a) \<times> 'd machine"
type_synonym ('d, 'a) stmt_on = "time \<Rightarrow> 'd \<Rightarrow> gerr + ('a \<times> 'd)"
type_synonym 'a prog = "(database, 'a) prog_on"
type_synonym 'a stmt = "(database, 'a) stmt_on"

definition round_trip :: "'d machine \<Rightarrow> outcome \<times> 'd machine" where
  "round_trip w = (case outcomes w of [] \<Rightarrow> (Done, w) | q # qs \<Rightarrow> (q, w\<lparr>outcomes := qs\<rparr>))"

definition execute :: "('d, 'a) stmt_on \<Rightarrow> ('d, 'a) prog_on" where
  "execute st w =
    (case round_trip w of (q, w1) \<Rightarrow>
      (case q of
         Lost f \<Rightarrow> (Inl (link_err f), w1)
       | Done \<Rightarrow> (case st (db_now w1) (db w1) of Inl e \<Rightarrow> (Inl e, w1) | Inr (a, d) \<Rightarrow> (Inr a, w1\<lparr>db := d\<rparr>))
       | Unacknowledged f \<Rightarrow>
           (case st (db_now w1) (db w1) of
              Inl e \<Rightarrow> (Inl (link_err f), w1)
            | Inr (a, d) \<Rightarrow> (Inl (link_err f), w1\<lparr>db := d\<rparr>))))"

definition new_uuid :: "world \<Rightarrow> uuid \<times> world" where
  "new_uuid w = (uuid_stream w (uuid_next w), w\<lparr>uuid_next := Suc (uuid_next w)\<rparr>)"

definition rand_read :: "nat \<Rightarrow> world \<Rightarrow> string \<times> world" where
  "rand_read n w = (map (\<lambda>i. entropy w (entropy_next w + i)) [0..<n], w\<lparr>entropy_next := entropy_next w + n\<rparr>)"

definition publish :: "event \<Rightarrow> world \<Rightarrow> world" where
  "publish e w = w\<lparr>bus_log := bus_log w @ [e]\<rparr>"

definition log_app :: "log_line \<Rightarrow> 'd machine \<Rightarrow> 'd machine" where
  "log_app l w = w\<lparr>app_log := app_log w @ [l]\<rparr>"

text \<open>\<open>InTx\<close>: a failed body or commit rolls back; a commit whose reply is lost has taken effect.\<close>

definition begin_tx :: "('d, unit) stmt_on" where "begin_tx t d = Inr ((), d)"

text \<open>The rollback runs on a context of its own, so it reaches the database also when the request's is over;
  its own error is swallowed, and a connection that fails is discarded with its transaction.\<close>

definition rollback :: "'d \<Rightarrow> 'd machine \<Rightarrow> 'd machine" where
  "rollback d w = w\<lparr>db := d\<rparr>"

definition InTx :: "('d, 'a) prog_on \<Rightarrow> ('d, 'a) prog_on" where
  "InTx fn w =
    (case execute begin_tx w of
       (Inl e, w1) \<Rightarrow> (Inl (Internal (Wrapf ''begin transaction'' [e])), w1)
     | (Inr u, w1) \<Rightarrow>
        (case fn w1 of
           (Inl e, w2) \<Rightarrow> (Inl e, rollback (db w1) w2)
         | (Inr a, w2) \<Rightarrow>
            (case round_trip w2 of (q, w3) \<Rightarrow>
              (case q of
                 Done \<Rightarrow> (Inr a, w3)
               | Lost f \<Rightarrow> (Inl (Internal (Wrapf ''commit transaction'' [link_err f])), rollback (db w1) w3)
               | Unacknowledged f \<Rightarrow> (Inl (Internal (Wrapf ''commit transaction'' [link_err f])), w3)))))"

declare rollback_def [simp]

section \<open>Driver lemmas\<close>

definition acknowledged :: "'d machine \<Rightarrow> bool" where
  "acknowledged w \<longleftrightarrow> (\<forall>q \<in> set (outcomes w). \<forall>e. q \<noteq> Unacknowledged e)"

text \<open>Everything outside the tables and the outcomes is untouched by a round trip.\<close>

lemma round_trip_frame:
  "round_trip w = (q, w1) \<Longrightarrow> db w1 = db w \<and> db_now w1 = db_now w \<and> clock w1 = clock w
    \<and> (acknowledged w \<longrightarrow> acknowledged w1 \<and> (\<forall>e. q \<noteq> Unacknowledged e))
    \<and> (outcomes w = [] \<longrightarrow> outcomes w1 = [])
    \<and> bus_log w1 = bus_log w \<and> bcrypt_runs w1 = bcrypt_runs w"
  by (auto simp: round_trip_def acknowledged_def split: list.splits)

lemma execute_cases:
  assumes "execute st w = (r, w')"
  obtains (ok) a where "r = Inr a" "st (db_now w) (db w) = Inr (a, db w')"
  | (refused) e where "r = Inl e" "st (db_now w) (db w) = Inl e" "db w' = db w"
  | (lost) f where "r = Inl (link_err f)" "db w' = db w" "Lost f \<in> set (outcomes w)"
  | (unack) f where "r = Inl (link_err f)" "Unacknowledged f \<in> set (outcomes w)"
      "db w' = db w \<or> (\<exists>a. st (db_now w) (db w) = Inr (a, db w'))"
  using assms
  by (auto simp: execute_def round_trip_def split: list.splits outcome.splits sum.splits prod.splits)

lemma execute_frame:
  "execute st w = (r, w') \<Longrightarrow> db_now w' = db_now w \<and> clock w' = clock w
    \<and> (acknowledged w \<longrightarrow> acknowledged w') \<and> (outcomes w = [] \<longrightarrow> outcomes w' = [])
    \<and> bus_log w' = bus_log w \<and> bcrypt_runs w' = bcrypt_runs w
    \<and> uuid_stream w' = uuid_stream w \<and> uuid_next w' = uuid_next w
    \<and> entropy w' = entropy w \<and> entropy_next w' = entropy_next w"
  by (auto simp: execute_def round_trip_def acknowledged_def
      split: list.splits outcome.splits sum.splits prod.splits)

lemma execute_error_unchanged:
  assumes "execute st w = (Inl e, w')" and "acknowledged w"
  shows "db w' = db w"
  using assms(1) by (rule execute_cases) (use assms(2) in \<open>auto simp: acknowledged_def\<close>)

lemma execute_ok:
  assumes "execute st w = (Inr a, w')"
  shows "st (db_now w) (db w) = Inr (a, db w')"
  using assms by (rule execute_cases) auto

text \<open>A statement that reads leaves the tables alone whatever the outcome.\<close>

lemma execute_read_only:
  assumes "execute st w = (r, w')" and "\<And>a d. st (db_now w) (db w) = Inr (a, d) \<Longrightarrow> d = db w"
  shows "db w' = db w"
  using assms(1) by (rule execute_cases) (use assms(2) in auto)

text \<open>An invariant of the tables that the statement keeps is kept by executing it.\<close>

lemma execute_invariant:
  assumes "execute st w = (r, w')" and "I (db w)"
    and "\<And>a d. st (db_now w) (db w) = Inr (a, d) \<Longrightarrow> I d"
  shows "I (db w')"
  using assms(1) by (rule execute_cases) (use assms(2,3) in auto)

lemma log_app_simps [simp]:
  "db (log_app l w) = db w" "outcomes (log_app l w) = outcomes w" "clock (log_app l w) = clock w"
  "db_now (log_app l w) = db_now w" "bcrypt_runs (log_app l w) = bcrypt_runs w" "bus_log (log_app l w) = bus_log w"
  "app_log (log_app l w) = app_log w @ [l]" "acknowledged (log_app l w) = acknowledged w"
  by (simp_all add: log_app_def acknowledged_def)

lemma round_trip_no_outcomes: "outcomes w = [] \<Longrightarrow> round_trip w = (Done, w)"
  by (simp add: round_trip_def)

lemma execute_quiet:
  "outcomes w = [] \<Longrightarrow> execute st w =
    (case st (db_now w) (db w) of Inl e \<Rightarrow> (Inl e, w) | Inr (a, d) \<Rightarrow> (Inr a, w\<lparr>db := d\<rparr>))"
  by (simp add: execute_def round_trip_no_outcomes)

lemma InTx_quiet:
  assumes "outcomes w = []" and "fn w = (r, w')" and "outcomes w' = []"
  shows "InTx fn w = (case r of Inl e \<Rightarrow> (Inl e, w'\<lparr>db := db w\<rparr>) | Inr a \<Rightarrow> (Inr a, w'))"
  using assms by (auto simp: InTx_def execute_quiet begin_tx_def round_trip_no_outcomes split: sum.splits)

section \<open>Atomicity\<close>

lemma begin_tx_db: "execute begin_tx w = (r, w1) \<Longrightarrow> db w1 = db w"
  by (erule execute_read_only) (simp add: begin_tx_def)

lemma InTx_cases:
  assumes "InTx fn w = (r, w')"
  obtains (committed) a w1 w2 where "r = Inr a" "fn w1 = (Inr a, w2)" "db w1 = db w" "db w' = db w2"
      "db_now w1 = db_now w" "acknowledged w \<longrightarrow> acknowledged w1"
  | (no_begin) f where "r = Inl (Internal (Wrapf ''begin transaction'' [link_err f]))" "db w' = db w"
  | (body) e w1 w2 where "r = Inl e" "fn w1 = (Inl e, w2)" "db w1 = db w" "db w' = db w"
      "db_now w1 = db_now w" "acknowledged w \<longrightarrow> acknowledged w1"
  | (no_commit) f where "r = Inl (Internal (Wrapf ''commit transaction'' [link_err f]))" "db w' = db w"
  | (in_doubt) a f w1 w2 where "r = Inl (Internal (Wrapf ''commit transaction'' [link_err f]))"
      "fn w1 = (Inr a, w2)" "db w1 = db w" "db w' = db w2" "db_now w1 = db_now w"
      "acknowledged w \<longrightarrow> acknowledged w1"
      "Unacknowledged f \<in> set (outcomes w2)"
proof -
  obtain q1 w1 where b: "execute begin_tx w = (q1, w1)" by fastforce
  have w1: "db w1 = db w" "db_now w1 = db_now w" "acknowledged w \<longrightarrow> acknowledged w1"
    using begin_tx_db [OF b] execute_frame [OF b] by auto
  show ?thesis
  proof (cases q1)
    case (Inl e)
    with b obtain f where "q1 = Inl (link_err f)"
      by (cases rule: execute_cases) (auto simp: begin_tx_def)
    with b assms w1 show ?thesis by (intro no_begin [of f]) (auto simp: InTx_def)
  next
    case (Inr u)
    obtain r2 w2 where f: "fn w1 = (r2, w2)" by fastforce
    show ?thesis
    proof (cases r2)
      case (Inl e)
      with b f Inr assms w1 show ?thesis
        by (intro body [of e w1 w2]) (auto simp: InTx_def)
    next
      case i2: (Inr a)
      obtain q w3 where c: "round_trip w2 = (q, w3)" by fastforce
      have w3: "db w3 = db w2" using round_trip_frame [OF c] by simp
      have un: "Unacknowledged e \<in> set (outcomes w2)" if "q = Unacknowledged e" for e
        using c that by (auto simp: round_trip_def split: list.splits)
      show ?thesis
      proof (cases q)
        case Done
        with b f c Inr i2 assms w1 w3 show ?thesis
          by (intro committed [of a w1 w2]) (auto simp: InTx_def)
      next
        case (Lost e)
        with b f c Inr i2 assms w1 show ?thesis by (intro no_commit [of e]) (auto simp: InTx_def)
      next
        case (Unacknowledged e)
        with b f c Inr i2 assms w1 w3 un show ?thesis
          by (intro in_doubt [of e w1 a w2]) (auto simp: InTx_def)
      qed
    qed
  qed
qed

lemma InTx_invariant:
  assumes "InTx fn w = (r, w')" and "I (db w)"
    and "\<And>v a v'. fn v = (Inr a, v') \<Longrightarrow> I (db v) \<Longrightarrow> I (db v')"
  shows "I (db w')"
  using assms(1) by (cases rule: InTx_cases) (use assms(2,3) in auto)

text \<open>What no statement and no transaction touches.\<close>

definition same_process :: "'d machine \<Rightarrow> 'd machine \<Rightarrow> bool" where
  "same_process w w' \<longleftrightarrow> clock w' = clock w \<and> db_now w' = db_now w \<and> bus_log w' = bus_log w
     \<and> bcrypt_runs w' = bcrypt_runs w \<and> (acknowledged w \<longrightarrow> acknowledged w')
     \<and> (outcomes w = [] \<longrightarrow> outcomes w' = [])"

lemma same_process_refl [simp]: "same_process w w"
  by (simp add: same_process_def)

lemma same_process_trans: "same_process w w1 \<Longrightarrow> same_process w1 w2 \<Longrightarrow> same_process w w2"
  by (auto simp: same_process_def)

lemma execute_same_process: "execute st w = (r, w') \<Longrightarrow> same_process w w'"
  using execute_frame [of st w r w'] by (auto simp: same_process_def)

lemma round_trip_same_process: "round_trip w = (q, w') \<Longrightarrow> same_process w w'"
  using round_trip_frame [of w q w'] by (auto simp: same_process_def)

lemma same_process_db [simp]: "same_process w (w'\<lparr>db := d\<rparr>) = same_process w w'"
  by (auto simp: same_process_def acknowledged_def)

lemma same_process_log [simp]: "same_process w (log_app l w') = same_process w w'" "same_process (log_app l w) w' = same_process w w'"
  by (simp_all add: same_process_def)

lemma InTx_same_process:
  assumes "InTx fn w = (r, w')" and "\<And>v s v'. fn v = (s, v') \<Longrightarrow> same_process v v'"
  shows "same_process w w'"
proof -
  obtain q1 w1 where b: "execute begin_tx w = (q1, w1)" by fastforce
  obtain r2 w2 where f: "fn w1 = (r2, w2)" by fastforce
  obtain q w3 where c: "round_trip w2 = (q, w3)" by fastforce
  have 1: "same_process w w1" by (rule execute_same_process [OF b])
  have 2: "same_process w w2" by (rule same_process_trans [OF 1 assms(2) [OF f]])
  have 3: "same_process w w3" by (rule same_process_trans [OF 2 round_trip_same_process [OF c]])
  from assms(1) b f c 1 2 3 show ?thesis
    by (auto simp: InTx_def split: sum.splits outcome.splits)
qed

lemma InTx_refused:
  assumes "InTx fn w = (Inl e, w')" "acknowledged w"
    and "\<And>v s v'. fn v = (s, v') \<Longrightarrow> same_process v v'"
  shows "db w' = db w"
  using assms(1)
proof (cases rule: InTx_cases)
  case (in_doubt a f w1 w2)
  with assms(2) assms(3) [OF in_doubt(2)] have "acknowledged w2" by (simp add: same_process_def)
  with in_doubt show ?thesis by (auto simp: acknowledged_def)
qed auto

text \<open>C20: InTx is all or nothing. Its tables afterwards are those before it or exactly those the body
  produced with success; success means the body's tables; and an error with a body that failed, or
  with every reply acknowledged, means the tables before it.\<close>

theorem InTx_atomic:
  fixes fn :: "('d, 'a) prog_on"
  assumes run: "InTx fn w = (r, w')"
    and frame: "\<And>v s v'. fn v = (s, v') \<Longrightarrow> acknowledged v \<Longrightarrow> acknowledged v'"
  shows "(db w' = db w \<or> (\<exists>w1 w2 a. db w1 = db w \<and> fn w1 = (Inr a, w2) \<and> db w' = db w2))
    \<and> (\<forall>a. r = Inr a \<longrightarrow> (\<exists>w1 w2. db w1 = db w \<and> fn w1 = (Inr a, w2) \<and> db w' = db w2))
    \<and> (\<forall>e. r = Inl e \<longrightarrow> acknowledged w \<longrightarrow> db w' = db w)"
proof -
  have "db w' = db w" if "r = Inl e" and ack: "acknowledged w" for e
    using run
  proof (cases rule: InTx_cases)
    case (in_doubt a e' w1 w2)
    with ack frame have "acknowledged w2" by blast
    with in_doubt show ?thesis by (auto simp: acknowledged_def)
  qed (use that in auto)
  with run show ?thesis by (cases rule: InTx_cases) blast+
qed

text \<open>A body whose first statement empties the comments and whose second one is refused.\<close>

definition half_done :: "unit prog" where
  "half_done w =
    (case execute (\<lambda>t d. Inr ((), d\<lparr>comments := []\<rparr>)) w of
       (Inl e, w1) \<Rightarrow> (Inl e, w1)
     | (Inr u, w1) \<Rightarrow> execute (\<lambda>t d. Inl (PgError sqlStateCheckViolation ''posts_comment_count_check'')) w1)"

definition one_comment :: world where
  "one_comment = \<lparr>db = \<lparr>users = [], posts = [],
       comments = [\<lparr>cr_id = 1, cr_post = 2, cr_author = 3, cr_parent = None, cr_content = ''hi'',
         cr_created = 0, cr_updated = 0, cr_deleted = None\<rparr>], tokens = []\<rparr>,
     outcomes = [Done, Done, Done], db_now = 0, clock = 0, uuid_stream = (\<lambda>n. 0), uuid_next = 0,
     entropy = (\<lambda>n. CHR ''a''), entropy_next = 0, bus_log = [], app_log = [], bcrypt_runs = 0\<rparr>"

lemma half_done_frame: "half_done v = (s, v') \<Longrightarrow> acknowledged v \<Longrightarrow> acknowledged v'"
  by (auto simp: half_done_def split: prod.splits sum.splits dest: execute_frame)

theorem InTx_atomic_witness:
  "\<exists>e w'. InTx half_done one_comment = (Inl e, w') \<and> db w' = db one_comment \<and> comments (db w') \<noteq> []"
proof -
  obtain e w' where r: "InTx half_done one_comment = (Inl e, w')"
    by (simp add: InTx_def half_done_def one_comment_def execute_def round_trip_def begin_tx_def)
  from InTx_atomic [OF r half_done_frame] r have "db w' = db one_comment"
    by (simp add: acknowledged_def one_comment_def)
  with r show ?thesis by (auto simp: one_comment_def)
qed

end
