(* ===== verification/Auth.thy ===== *)
theory Auth
  imports Database
begin

text \<open>
  \<open>internal/auth/password.go\<close> and \<open>internal/auth/token.go\<close>. bcrypt, JWT signing and SHA-256 are
  fields of the externals record; what is modelled is what the package does around them: the
  length guard and the three-way result of \<open>Verify\<close>, the claims an access token carries, the
  checks after parsing one, and the format of refresh tokens. Lemmas: an issued token is accepted
  and names its user, an accepted token was signed with the service's key, and every minted
  refresh token passes the format check.
\<close>

section \<open>Passwords\<close>

definition MaxPasswordBytes :: nat where "MaxPasswordBytes = 72"

record hasher = cost :: int

definition NewHasher :: "int \<Rightarrow> hasher" where
  "NewHasher c = \<lparr>cost = (if c < 4 \<or> 31 < c then 10 else c)\<rparr>"

definition Cost :: "hasher \<Rightarrow> int" where "Cost h = cost h"

definition Hash :: "ext \<Rightarrow> hasher \<Rightarrow> string \<Rightarrow> string prog" where
  "Hash x h plain w =
    (if length plain > MaxPasswordBytes
     then (Inl (LibError ''auth: password exceeds 72 bytes''), w)
     else (case bcrypt_generate x (bcrypt_runs w) (cost h) plain of
             Inl e \<Rightarrow> (Inl (Wrapf ''auth: hash password'' [e]), w\<lparr>bcrypt_runs := Suc (bcrypt_runs w)\<rparr>)
           | Inr digest \<Rightarrow> (Inr digest, w\<lparr>bcrypt_runs := Suc (bcrypt_runs w)\<rparr>)))"

text \<open>\<open>Verify\<close>: \<open>None\<close> is a match.\<close>

definition Verify :: "ext \<Rightarrow> string \<Rightarrow> string \<Rightarrow> world \<Rightarrow> gerr option \<times> world" where
  "Verify x h plain w =
    (case bcrypt_compare x h plain of
       None \<Rightarrow> None
     | Some e \<Rightarrow> if errors_is e ErrMismatchedHashAndPassword then Some (Sentinel ErrInvalidPassword)
                 else Some (Wrapf ''auth: compare password'' [e]),
     w\<lparr>bcrypt_runs := Suc (bcrypt_runs w)\<rparr>)"

definition dummyHash :: string where
  "dummyHash = ''$2a$10$N9qo8uLOickgx2ZMRZoMyeIjZAgcfl7p92ldGxad68LJZdL17lhWy''"

definition BurnComparison :: "ext \<Rightarrow> string \<Rightarrow> world \<Rightarrow> world" where
  "BurnComparison x plain w =
    (let discarded = bcrypt_compare x dummyHash plain in w\<lparr>bcrypt_runs := Suc (bcrypt_runs w)\<rparr>)"

section \<open>Access tokens\<close>

definition signingMethod :: string where "signingMethod = ''HS256''"

record token_service =
  secret :: string
  issuer :: string
  audience :: string
  accessTTL :: duration
  refreshTTL :: duration

definition IssueAccessToken :: "ext \<Rightarrow> token_service \<Rightarrow> uuid \<Rightarrow> string \<Rightarrow> (string \<times> time) prog" where
  "IssueAccessToken x s userID rl w =
    (let now = clock w; expiresAt = now + accessTTL s; (jti, w1) = new_uuid w;
         c = \<lparr>cl_subject = uuid_string x userID, cl_issuer = issuer s, cl_audience = [audience s],
              cl_issued = numeric_date x now, cl_not_before = numeric_date x now,
              cl_expires = numeric_date x expiresAt, cl_id = uuid_string x jti, cl_role = rl\<rparr>
     in (case jwt_sign x signingMethod (secret s) c of
           Inl e \<Rightarrow> (Inl (Wrapf ''auth: sign access token'' [e]), w1)
         | Inr tok \<Rightarrow> (Inr (tok, expiresAt), w1)))"

definition token_key :: "token_service \<Rightarrow> string \<Rightarrow> gerr + string" where
  "token_key s alg = (if alg \<noteq> signingMethod then Inl (LibError (''unexpected signing algorithm '' @ alg))
     else Inr (secret s))"

definition unauthorized :: "gerr \<Rightarrow> gerr + actor" where
  "unauthorized cause = Inl (WithCause (Unauthorized ''invalid or expired access token'') cause)"

definition ParseAccessToken :: "ext \<Rightarrow> token_service \<Rightarrow> time \<Rightarrow> string \<Rightarrow> gerr + actor" where
  "ParseAccessToken x s now raw =
    (case jwt_parse x (token_key s)
            \<lparr>opt_methods = [signingMethod], opt_issuer = issuer s, opt_audience = audience s,
             opt_exp_required = True, opt_now = now\<rparr> raw of
       Inl e \<Rightarrow> unauthorized e
     | Inr c \<Rightarrow>
        (case uuid_parse x (cl_subject c) of
           Inl e \<Rightarrow> unauthorized (Wrapf (''subject '' @ cl_subject c @ '' is not a UUID'') [e])
         | Inr userID \<Rightarrow>
            if \<not> role_Valid (cl_role c) then unauthorized (LibError (''unknown role '' @ cl_role c))
            else Inr \<lparr>actor_id = userID, actor_role = cl_role c\<rparr>))"

section \<open>Refresh tokens\<close>

definition refreshTokenBytes :: nat where "refreshTokenBytes = 32"

definition base64url :: string where
  "base64url = ''ABCDEFGHIJKLMNOPQRSTUVWXYZabcdefghijklmnopqrstuvwxyz0123456789-_''"

definition RawURLEncode :: "string \<Rightarrow> string" where
  "RawURLEncode s = radix_encode base64url 6 s"

text \<open>\<open>DecodeString\<close> skips CR and LF and refuses a single left-over character.\<close>

definition RawURLDecode :: "string \<Rightarrow> string option" where
  "RawURLDecode s =
    (let s' = filter (\<lambda>c. c \<noteq> CHR 0x0A \<and> c \<noteq> CHR 0x0D) s
     in if length s' mod 4 = 1 then None else radix_decode base64url 6 s')"

definition HashRefreshToken :: "ext \<Rightarrow> string \<Rightarrow> string" where
  "HashRefreshToken x plaintext = sha256 x plaintext"

definition NewRefreshToken :: "ext \<Rightarrow> token_service \<Rightarrow> (string \<times> string \<times> time) prog" where
  "NewRefreshToken x s w =
    (let (buf, w1) = rand_read refreshTokenBytes w; plaintext = RawURLEncode buf
     in (Inr (plaintext, HashRefreshToken x plaintext, clock w + refreshTTL s), w1))"

definition ValidateRefreshTokenFormat :: "string \<Rightarrow> gerr option" where
  "ValidateRefreshTokenFormat plaintext =
    (case RawURLDecode plaintext of
       None \<Rightarrow> Some (Sentinel ErrMalformedRefreshToken)
     | Some decoded \<Rightarrow> if length decoded \<noteq> refreshTokenBytes then Some (Sentinel ErrMalformedRefreshToken) else None)"

section \<open>Lemmas\<close>

lemma new_uuid_frame:
  "new_uuid w = (u, w1) \<Longrightarrow> db w1 = db w \<and> outcomes w1 = outcomes w \<and> clock w1 = clock w
    \<and> db_now w1 = db_now w \<and> bus_log w1 = bus_log w \<and> bcrypt_runs w1 = bcrypt_runs w
    \<and> entropy w1 = entropy w \<and> entropy_next w1 = entropy_next w \<and> uuid_stream w1 = uuid_stream w"
  by (auto simp: new_uuid_def)

lemma acknowledged_frame: "outcomes w1 = outcomes w \<Longrightarrow> acknowledged w1 = acknowledged w"
  by (simp add: acknowledged_def)

lemma IssueAccessToken_frame:
  "IssueAccessToken x s u rl w = (r, w1) \<Longrightarrow> db w1 = db w \<and> outcomes w1 = outcomes w \<and> clock w1 = clock w
    \<and> db_now w1 = db_now w \<and> bus_log w1 = bus_log w \<and> bcrypt_runs w1 = bcrypt_runs w"
  by (auto simp: IssueAccessToken_def new_uuid_def Let_def split: sum.splits)

lemma NewRefreshToken_frame:
  "NewRefreshToken x s w = (r, w1) \<Longrightarrow> db w1 = db w \<and> outcomes w1 = outcomes w \<and> clock w1 = clock w
    \<and> db_now w1 = db_now w \<and> bus_log w1 = bus_log w \<and> bcrypt_runs w1 = bcrypt_runs w"
  by (auto simp: NewRefreshToken_def rand_read_def Let_def)

lemma Verify_frame:
  "Verify x h p w = (r, w1) \<Longrightarrow> w1 = w\<lparr>bcrypt_runs := Suc (bcrypt_runs w)\<rparr>"
  by (auto simp: Verify_def)

lemma Hash_frame:
  "Hash x h p w = (r, w1) \<Longrightarrow> db w1 = db w \<and> outcomes w1 = outcomes w \<and> clock w1 = clock w
    \<and> db_now w1 = db_now w \<and> bus_log w1 = bus_log w"
  by (auto simp: Hash_def split: sum.splits if_splits)

lemma base64url_good: "distinct base64url" "length base64url = 2 ^ 6"
  by (simp_all add: base64url_def)

lemma base64url_no_newline: "CHR 0x0A \<notin> set base64url" "CHR 0x0D \<notin> set base64url"
  by (simp_all add: base64url_def)

lemma length_RawURLEncode: "length s = 32 \<Longrightarrow> length (RawURLEncode s) = 43"
  using length_radix_encode [of 6 base64url s] by (auto simp: RawURLEncode_def)

lemma RawURLDecode_encode:
  assumes "length s = refreshTokenBytes"
  shows "RawURLDecode (RawURLEncode s) = Some s"
proof -
  have "set (RawURLEncode s) \<subseteq> set base64url"
    unfolding RawURLEncode_def by (rule radix_encode_set [OF base64url_good(2)])
  then have "filter (\<lambda>c. c \<noteq> CHR 0x0A \<and> c \<noteq> CHR 0x0D) (RawURLEncode s) = RawURLEncode s"
    using base64url_no_newline by (intro filter_True) auto
  moreover have "length (RawURLEncode s) = 43"
    using assms by (simp add: length_RawURLEncode refreshTokenBytes_def)
  ultimately show ?thesis
    using radix_roundtrip [OF base64url_good] by (simp add: RawURLDecode_def Let_def RawURLEncode_def)
qed

text \<open>Every refresh token the service mints is 43 characters long, passes the format check that
  guards refresh and logout, and is stored under the digest those two compute from it.\<close>

theorem minted_refresh_token_is_accepted:
  assumes "NewRefreshToken x s w = (Inr (plaintext, digest, expiresAt), w')"
  shows "ValidateRefreshTokenFormat plaintext = None \<and> length plaintext = 43
    \<and> digest = HashRefreshToken x plaintext \<and> expiresAt = clock w + refreshTTL s"
proof -
  let ?buf = "fst (rand_read refreshTokenBytes w)"
  have l: "length ?buf = refreshTokenBytes" by (simp add: rand_read_def)
  with assms have "plaintext = RawURLEncode ?buf" "digest = HashRefreshToken x plaintext"
      "expiresAt = clock w + refreshTTL s"
    by (auto simp: NewRefreshToken_def Let_def split: prod.splits)
  with l show ?thesis
    by (simp add: ValidateRefreshTokenFormat_def RawURLDecode_encode length_RawURLEncode refreshTokenBytes_def)
qed

section \<open>Access tokens: issue and parse\<close>

lemma issue_then_parse:
  assumes lib: "jwt_complete x" "uuid_documented x" "numeric_date_documented x"
    and role: "role_Valid rl"
    and issue: "IssueAccessToken x s userID rl w = (Inr (tok, expiresAt), w')"
    and time: "clock w \<le> now" "now + second \<le> clock w + accessTTL s"
  shows "ParseAccessToken x s now tok = Inr \<lparr>actor_id = userID, actor_role = rl\<rparr>"
proof -
  let ?opts = "\<lparr>opt_methods = [signingMethod], opt_issuer = issuer s, opt_audience = audience s,
    opt_exp_required = True, opt_now = now\<rparr>"
  from issue obtain c where c: "jwt_sign x signingMethod (secret s) c = Inr tok"
      "cl_subject c = uuid_string x userID" "cl_role c = rl" "cl_issuer c = issuer s"
      "cl_audience c = [audience s]" "cl_not_before c = numeric_date x (clock w)"
      "cl_expires c = numeric_date x (clock w + accessTTL s)"
    by (auto simp: IssueAccessToken_def Let_def split: prod.splits sum.splits)
  have "numeric_date x (clock w) \<le> clock w"
      "clock w + accessTTL s < numeric_date x (clock w + accessTTL s) + second"
    using lib(3) unfolding numeric_date_documented_def by blast+
  with time c have "claims_valid ?opts c" by (simp add: claims_valid_def)
  with lib(1) c(1) have "jwt_parse x (token_key s) ?opts tok = Inr c"
    unfolding jwt_complete_def by (simp add: token_key_def)
  with lib(2) role c(2,3) show ?thesis
    by (simp add: ParseAccessToken_def uuid_documented_def)
qed

text \<open>A token issued for a user with a recognised role is accepted for the whole of its lifetime
  (up to the second the library rounds the expiry to) and yields that user and role.\<close>

theorem issued_token_is_accepted:
  assumes lib: "jwt_complete x" "uuid_documented x" "numeric_date_documented x"
    and role: "role_Valid rl"
    and issue: "IssueAccessToken x s userID rl w = (Inr (tok, expiresAt), w')"
    and time: "clock w \<le> now" "now + second \<le> clock w + accessTTL s"
  shows "ParseAccessToken x s now tok = Inr \<lparr>actor_id = userID, actor_role = rl\<rparr>"
  by (rule issue_then_parse [OF assms])

text \<open>Whatever bytes a caller presents, an actor comes out only if they are an HS256 signature
  under this service's own secret over claims for this issuer and audience that are in their
  validity window and carry a recognised role; the actor is the subject of those claims.\<close>

theorem accepted_token_was_signed:
  assumes lib: "jwt_sound x" and parsed: "ParseAccessToken x s now raw = Inr a"
  shows "\<exists>c. jwt_sign x signingMethod (secret s) c = Inr raw
    \<and> cl_issuer c = issuer s \<and> audience s \<in> set (cl_audience c)
    \<and> cl_not_before c \<le> now \<and> now < cl_expires c
    \<and> uuid_parse x (cl_subject c) = Inr (actor_id a) \<and> actor_role a = cl_role c \<and> role_Valid (cl_role c)"
proof -
  let ?opts = "\<lparr>opt_methods = [signingMethod], opt_issuer = issuer s, opt_audience = audience s,
    opt_exp_required = True, opt_now = now\<rparr>"
  from parsed obtain c where c: "jwt_parse x (token_key s) ?opts raw = Inr c"
      "uuid_parse x (cl_subject c) = Inr (actor_id a)" "role_Valid (cl_role c)" "actor_role a = cl_role c"
    by (auto simp: ParseAccessToken_def unauthorized_def split: sum.splits if_splits)
  from lib c(1) obtain alg key where "alg \<in> set (opt_methods ?opts)" "token_key s alg = Inr key"
      "jwt_sign x alg key c = Inr raw" "claims_valid ?opts c"
    unfolding jwt_sound_def by blast
  with c(2-) show ?thesis
    by (intro exI [of _ c]) (auto simp: token_key_def claims_valid_def)
qed

text \<open>Every rejected access token, expired, forged, for another audience or malformed, produces the
  same client-visible 401, so the response is no oracle for why it was rejected.\<close>

theorem rejected_tokens_are_indistinguishable:
  assumes "ParseAccessToken x s now raw = Inl e"
  shows "client_view e = (CodeUnauthorized, 401, ''invalid or expired access token'', [])"
  using assms
  by (auto simp: ParseAccessToken_def unauthorized_def client_view_def api_constructors
      split: sum.splits if_splits)

section \<open>Witnesses\<close>

definition sample_service :: token_service where
  "sample_service = \<lparr>secret = ''0123456789abcdef0123456789abcdef'', issuer = ''majoo-blog-api'',
     audience = ''majoo-blog-api'', accessTTL = 900 * second, refreshTTL = 2592000 * second\<rparr>"

definition empty_world :: world where
  "empty_world = \<lparr>db = \<lparr>users = [], posts = [], comments = [], tokens = []\<rparr>, outcomes = [],
     db_now = 1000 * second, clock = 1000 * second, uuid_stream = (\<lambda>n. word_of_nat (Suc n)), uuid_next = 0,
     entropy = (\<lambda>n. char_of (n mod 256)), entropy_next = 0, bus_log = [], app_log = [], bcrypt_runs = 0\<rparr>"

definition sample_claims :: claims where
  "sample_claims = \<lparr>cl_subject = bits_string 7, cl_issuer = ''majoo-blog-api'', cl_audience = [''majoo-blog-api''],
     cl_issued = 1000 * second, cl_not_before = 1000 * second, cl_expires = 1900 * second,
     cl_id = bits_string 1, cl_role = RoleUser\<rparr>"

definition sample_jwt :: ext where
  "sample_jwt = sample_ext (secret sample_service) sample_claims"

lemmas sample_defs = sample_service_def empty_world_def sample_claims_def sample_jwt_def sample_ext_def

lemma sample_issue:
  "IssueAccessToken sample_jwt sample_service 7 RoleUser empty_world
   = (Inr (''signed-token'', 1900 * second), empty_world\<lparr>uuid_next := 1\<rparr>)"
  by (simp add: IssueAccessToken_def new_uuid_def Let_def sample_defs signingMethod_def second_def)

theorem minted_refresh_token_is_accepted_witness:
  "\<exists>p d e. NewRefreshToken sample_jwt sample_service empty_world = (Inr (p, d, e), empty_world\<lparr>entropy_next := 32\<rparr>)
    \<and> ValidateRefreshTokenFormat p = None \<and> length p = 43"
proof -
  obtain p d e where h: "NewRefreshToken sample_jwt sample_service empty_world
      = (Inr (p, d, e), empty_world\<lparr>entropy_next := 32\<rparr>)"
    by (simp add: NewRefreshToken_def rand_read_def Let_def empty_world_def refreshTokenBytes_def)
  from minted_refresh_token_is_accepted [OF h] h show ?thesis by blast
qed

theorem issued_token_is_accepted_witness:
  "ParseAccessToken sample_jwt sample_service (1500 * second) ''signed-token''
    = Inr \<lparr>actor_id = 7, actor_role = RoleUser\<rparr>"
  by (rule issued_token_is_accepted [OF _ _ _ _ sample_issue])
     (simp_all add: sample_jwt_def sample_ext_laws, simp_all add: sample_defs second_def)

theorem accepted_token_was_signed_witness:
  "\<exists>c. jwt_sign sample_jwt signingMethod (secret sample_service) c = Inr ''signed-token''
    \<and> cl_issuer c = issuer sample_service \<and> audience sample_service \<in> set (cl_audience c)
    \<and> cl_not_before c \<le> 1500 * second \<and> 1500 * second < cl_expires c
    \<and> uuid_parse sample_jwt (cl_subject c) = Inr 7 \<and> RoleUser = cl_role c \<and> role_Valid (cl_role c)"
proof -
  have "ParseAccessToken sample_jwt sample_service (1500 * second) ''signed-token''
      = Inr \<lparr>actor_id = 7, actor_role = RoleUser\<rparr>"
    by (simp add: ParseAccessToken_def sample_defs token_key_def signingMethod_def claims_valid_def
        second_def bits_roundtrip)
  from accepted_token_was_signed [OF _ this] show ?thesis
    by (simp add: sample_jwt_def sample_ext_laws)
qed

theorem rejected_tokens_are_indistinguishable_witness:
  "\<exists>e. ParseAccessToken sample_jwt sample_service (1900 * second) ''signed-token'' = Inl e
    \<and> client_view e = (CodeUnauthorized, 401, ''invalid or expired access token'', [])"
proof -
  have "\<exists>e. ParseAccessToken sample_jwt sample_service (1900 * second) ''signed-token'' = Inl e"
    by (simp add: ParseAccessToken_def sample_defs token_key_def signingMethod_def claims_valid_def
        second_def unauthorized_def)
  with rejected_tokens_are_indistinguishable show ?thesis by blast
qed

end
