(* ===== verification/User_Store.thy ===== *)
theory User_Store
  imports Auth
begin

text \<open>
  The two interfaces \<open>internal/user/service.go\<close> declares at its point of use, \<open>userStore\<close> and
  \<open>sessionStore\<close>, as records of operations, and the contracts the service relies on as locales.
  A contract speaks of a view of the world (accounts by id and by email, sessions by token
  digest), of an invariant every operation keeps, and of what each operation does to the view.
\<close>

section \<open>Sessions\<close>

record session =
  se_id :: uuid
  se_user :: uuid
  se_hash :: string
  se_expires :: time
  se_revoked :: "time option"
  se_replaced :: "uuid option"
  se_agent :: string
  se_created :: time

definition Active :: "session \<Rightarrow> time \<Rightarrow> bool" where
  "Active s now \<longleftrightarrow> se_revoked s = None \<and> now < se_expires s"

section \<open>The interfaces\<close>

record user_store =
  us_Create :: "user \<Rightarrow> user prog"
  us_ByID :: "uuid \<Rightarrow> user prog"
  us_ByEmail :: "string \<Rightarrow> user prog"
  us_UpdateProfile :: "uuid \<Rightarrow> string \<Rightarrow> user prog"

record session_store =
  ss_Create :: "session \<Rightarrow> session prog"
  ss_ByHash :: "string \<Rightarrow> session prog"
  ss_Rotate :: "string \<Rightarrow> session \<Rightarrow> session prog"
  ss_Revoke :: "string \<Rightarrow> unit prog"
  ss_RevokeAllForUser :: "uuid \<Rightarrow> nat prog"

section \<open>The contracts\<close>

definition revoked_at :: "time \<Rightarrow> session \<Rightarrow> session" where
  "revoked_at t s = (if se_revoked s = None then s\<lparr>se_revoked := Some t\<rparr> else s)"

text \<open>A session never disappears under a client's operations, and once revoked it stays revoked.\<close>

definition outlives :: "session \<Rightarrow> session \<Rightarrow> bool" where
  "outlives s s' \<longleftrightarrow> se_user s' = se_user s \<and> se_expires s' = se_expires s
     \<and> (se_revoked s \<noteq> None \<longrightarrow> se_revoked s' \<noteq> None)"

definition sessions_kept :: "(string \<Rightarrow> session option) \<Rightarrow> (string \<Rightarrow> session option) \<Rightarrow> bool" where
  "sessions_kept l l' \<longleftrightarrow> (\<forall>h. case l h of None \<Rightarrow> True
     | Some s \<Rightarrow> (case l' h of None \<Rightarrow> False | Some s' \<Rightarrow> outlives s s'))"

lemma outlives_refl [simp]: "outlives s s"
  by (simp add: outlives_def)

lemma sessions_kept_refl [simp]: "sessions_kept l l"
  by (simp add: sessions_kept_def split: option.splits)

lemma sessions_kept_Some:
  "sessions_kept l l' \<Longrightarrow> l h = Some s \<Longrightarrow> \<exists>s'. l' h = Some s' \<and> outlives s s'"
  unfolding sessions_kept_def by (drule spec [of _ h]) (simp split: option.splits)

lemma sessions_keptI:
  "(\<And>h s. l h = Some s \<Longrightarrow> \<exists>s'. l' h = Some s' \<and> outlives s s') \<Longrightarrow> sessions_kept l l'"
  by (fastforce simp: sessions_kept_def split: option.splits)

lemma sessions_kept_trans: "sessions_kept l l1 \<Longrightarrow> sessions_kept l1 l2 \<Longrightarrow> sessions_kept l l2"
  by (rule sessions_keptI, drule (1) sessions_kept_Some) (fastforce dest: sessions_kept_Some simp: outlives_def)

locale session_contract =
  fixes st :: session_store
    and lookup :: "world \<Rightarrow> string \<Rightarrow> session option"
    and inv :: "world \<Rightarrow> bool"
  assumes hash_of: "inv w \<Longrightarrow> lookup w h = Some s \<Longrightarrow> se_hash s = h"
    and lookup_same: "db w' = db w \<Longrightarrow> lookup w' = lookup w"
    and inv_same: "db w' = db w \<Longrightarrow> inv w' = inv w"
    and create_frame: "ss_Create st s w = (r, w') \<Longrightarrow> same_process w w'"
    and create_inv: "ss_Create st s w = (r, w') \<Longrightarrow> inv w \<Longrightarrow> inv w'"
    and create_keeps: "ss_Create st s w = (r, w') \<Longrightarrow> inv w \<Longrightarrow> sessions_kept (lookup w) (lookup w')"
    and create_ok: "ss_Create st s w = (Inr s', w') \<Longrightarrow> inv w \<Longrightarrow>
      lookup w (se_hash s) = None \<and> se_user s' = se_user s \<and> se_id s' = se_id s
      \<and> se_hash s' = se_hash s \<and> se_expires s' = se_expires s \<and> se_revoked s' = None
      \<and> lookup w' = (lookup w)(se_hash s \<mapsto> s')"
    and byhash_frame: "ss_ByHash st h w = (r, w') \<Longrightarrow> same_process w w' \<and> db w' = db w"
    and byhash_ok: "ss_ByHash st h w = (Inr s, w') \<Longrightarrow> lookup w h = Some s"
    and byhash_missing: "ss_ByHash st h w = (Inl e, w') \<Longrightarrow> errors_is e ErrSessionNotFound \<Longrightarrow> lookup w h = None"
    and byhash_quiet: "outcomes w = [] \<Longrightarrow> lookup w h = Some s \<Longrightarrow> ss_ByHash st h w = (Inr s, w)"
    and rotate_frame: "ss_Rotate st h n w = (r, w') \<Longrightarrow> same_process w w'"
    and rotate_inv: "ss_Rotate st h n w = (r, w') \<Longrightarrow> inv w \<Longrightarrow> inv w'"
    and rotate_keeps: "ss_Rotate st h n w = (r, w') \<Longrightarrow> inv w \<Longrightarrow> sessions_kept (lookup w) (lookup w')"
    and rotate_ok: "ss_Rotate st h n w = (Inr n', w') \<Longrightarrow> inv w \<Longrightarrow> lookup w h = Some s \<Longrightarrow>
      Active s (db_now w) \<and> lookup w (se_hash n) = None
        \<and> se_user n' = se_user n \<and> se_id n' = se_id n \<and> se_hash n' = se_hash n
        \<and> se_expires n' = se_expires n \<and> se_revoked n' = None
        \<and> lookup w' = (lookup w)(se_hash n \<mapsto> n',
            h \<mapsto> s\<lparr>se_revoked := Some (db_now w), se_replaced := Some (se_id n)\<rparr>)"
    and rotate_refused: "ss_Rotate st h n w = (Inl e, w') \<Longrightarrow> inv w \<Longrightarrow> acknowledged w \<Longrightarrow> lookup w' = lookup w"
    and revoke_frame: "ss_Revoke st h w = (r', w') \<Longrightarrow> same_process w w'"
    and revoke_inv: "ss_Revoke st h w = (r', w') \<Longrightarrow> inv w \<Longrightarrow> inv w'"
    and revoke_keeps: "ss_Revoke st h w = (r', w') \<Longrightarrow> inv w \<Longrightarrow> sessions_kept (lookup w) (lookup w')"
    and revoke_ok: "ss_Revoke st h w = (Inr un, w') \<Longrightarrow> inv w \<Longrightarrow>
      lookup w' = (lookup w)(h := map_option (revoked_at (db_now w)) (lookup w h))"
    and revoke_all_frame: "ss_RevokeAllForUser st u w = (r'', w') \<Longrightarrow> same_process w w'"
    and revoke_all_inv: "ss_RevokeAllForUser st u w = (r'', w') \<Longrightarrow> inv w \<Longrightarrow> inv w'"
    and revoke_all_keeps: "ss_RevokeAllForUser st u w = (r'', w') \<Longrightarrow> inv w \<Longrightarrow> sessions_kept (lookup w) (lookup w')"
    and revoke_all_quiet: "outcomes w = [] \<Longrightarrow> \<exists>k v. ss_RevokeAllForUser st u w = (Inr k, v) \<and> outcomes v = []"
    and revoke_all_ok: "ss_RevokeAllForUser st u w = (Inr k, w') \<Longrightarrow> inv w \<Longrightarrow>
      lookup w' = (\<lambda>h. map_option (\<lambda>s. if se_user s = u then revoked_at (db_now w) s else s) (lookup w h))"

text \<open>
  Accounts. \<open>account\<close> finds an account by id, \<open>by_email\<close> by stored address.
\<close>

locale user_contract =
  fixes st :: user_store
    and account :: "world \<Rightarrow> uuid \<Rightarrow> user option"
    and by_email :: "world \<Rightarrow> string \<Rightarrow> user option"
    and inv :: "world \<Rightarrow> bool"
    and storable :: "string \<Rightarrow> bool"
  assumes account_id: "account w i = Some u \<Longrightarrow> user_id u = i"
    and email_of: "by_email w e = Some u \<Longrightarrow> email u = e"
    and view_same: "db w' = db w \<Longrightarrow> account w' = account w \<and> by_email w' = by_email w"
    and inv_same: "db w' = db w \<Longrightarrow> inv w' = inv w"
    and create_frame: "us_Create st u w = (r, w') \<Longrightarrow> same_process w w'"
    and create_inv: "us_Create st u w = (r, w') \<Longrightarrow> inv w \<Longrightarrow> inv w'"
    and create_ok: "us_Create st u w = (Inr u', w') \<Longrightarrow> inv w \<Longrightarrow>
      account w (user_id u) = None \<and> by_email w (email u) = None
      \<and> u' = u\<lparr>user_created := db_now w, user_updated := db_now w\<rparr>
      \<and> account w' = (account w)(user_id u \<mapsto> u') \<and> by_email w' = (by_email w)(email u \<mapsto> u')"
    and create_error: "us_Create st u w = (Inl er, w') \<Longrightarrow> acknowledged w \<Longrightarrow> db w' = db w"
    and byid_frame: "us_ByID st i w = (r, w') \<Longrightarrow> same_process w w' \<and> db w' = db w"
    and byid_ok: "us_ByID st i w = (Inr u, w') \<Longrightarrow> account w i = Some u"
    and byemail_frame: "us_ByEmail st e w = (r, w') \<Longrightarrow> same_process w w' \<and> db w' = db w"
    and byemail_ok: "us_ByEmail st e w = (Inr u, w') \<Longrightarrow> by_email w e = Some u"
    and byemail_missing: "us_ByEmail st e w = (Inl er, w') \<Longrightarrow> IsCode er CodeNotFound \<Longrightarrow> by_email w e = None"
    and byemail_quiet: "outcomes w = [] \<Longrightarrow> storable e \<Longrightarrow>
      (case by_email w e of Some u \<Rightarrow> us_ByEmail st e w = (Inr u, w)
       | None \<Rightarrow> (\<exists>er. us_ByEmail st e w = (Inl er, w) \<and> IsCode er CodeNotFound))"
    and update_frame: "us_UpdateProfile st i n w = (r, w') \<Longrightarrow> same_process w w'"
    and update_inv: "us_UpdateProfile st i n w = (r, w') \<Longrightarrow> inv w \<Longrightarrow> inv w'"
    and update_ok: "us_UpdateProfile st i n w = (Inr u', w') \<Longrightarrow> inv w \<Longrightarrow>
      (\<exists>u. account w i = Some u \<and> u' = u\<lparr>display_name := n, user_updated := db_now w\<rparr>
        \<and> account w' = (account w)(i \<mapsto> u'))"

end
