(* ===== verification/User_Repo.thy ===== *)
theory User_Repo
  imports User_Store
begin

text \<open>
  \<open>internal/user/repository.go\<close>: the SQL statements on \<open>users\<close> and \<open>refresh_tokens\<close> and the
  methods around them. Each statement refuses what the schema's constraints refuse, in the order
  PostgreSQL checks them: text encoding, CHECK, unique indexes, foreign keys. The two contracts of
  the user service are discharged here for these methods.
\<close>

definition constraintUserEmailUnique :: string where
  "constraintUserEmailUnique = ''users_email_unique''"
definition constraintUserUsernameUnique :: string where
  "constraintUserUsernameUnique = ''users_username_unique''"

lemmas user_constraints = constraintUserEmailUnique_def constraintUserUsernameUnique_def

section \<open>Accounts\<close>

definition insert_user :: "ext \<Rightarrow> user \<Rightarrow> user stmt" where
  "insert_user x u t d =
    (let r = u\<lparr>user_created := t, user_updated := t\<rparr> in
     if \<not> list_all pg_text [email u, username u, display_name u, password_hash u, role u]
     then Inl pg_encoding_error
     else (case first_violated (users_checks x r) of
        Some e \<Rightarrow> Inl e
      | None \<Rightarrow>
          if user_id u \<in> user_id ` set (users d) then Inl (PgError sqlStateUniqueViolation ''users_pkey'')
          else if email u \<in> email ` set (users d)
          then Inl (PgError sqlStateUniqueViolation constraintUserEmailUnique)
          else if username u \<in> username ` set (users d)
          then Inl (PgError sqlStateUniqueViolation constraintUserUsernameUnique)
          else Inr (r, d\<lparr>users := users d @ [r]\<rparr>)))"

definition user_Create :: "ext \<Rightarrow> user \<Rightarrow> user prog" where
  "user_Create x u w =
    (case execute (insert_user x u) w of
       (Inr r, w1) \<Rightarrow> (Inr r, w1)
     | (Inl e, w1) \<Rightarrow>
        (Inl (if IsUniqueViolation e constraintUserEmailUnique
              then WithCause (Conflict ''an account with this email address already exists'') e
              else if IsUniqueViolation e constraintUserUsernameUnique
              then WithCause (Conflict ''this username is already taken'') e
              else if IsCheckViolation e ''''
              then Internal (Wrapf ''user row rejected by a database constraint'' [e])
              else Internal (Wrapf ''insert user'' [e])), w1))"

definition select_user :: "(user \<Rightarrow> bool) \<Rightarrow> user stmt" where
  "select_user P t d = (case first_row P (users d) of None \<Rightarrow> Inl (Sentinel ErrNoRows) | Some u \<Rightarrow> Inr (u, d))"

definition user_one :: "user stmt \<Rightarrow> user prog" where
  "user_one q w =
    (case execute q w of
       (Inl e, w1) \<Rightarrow> (Inl (NotFoundOr (Wrapf ''select user'' [e]) ''user''), w1)
     | (Inr u, w1) \<Rightarrow> (Inr u, w1))"

definition user_ByID :: "uuid \<Rightarrow> user prog" where
  "user_ByID i = user_one (select_user (\<lambda>u. user_id u = i))"

definition user_ByEmail :: "string \<Rightarrow> user prog" where
  "user_ByEmail e = user_one (\<lambda>t d. if \<not> pg_text e then Inl pg_encoding_error
     else select_user (\<lambda>u. email u = e) t d)"

definition update_display_name :: "ext \<Rightarrow> uuid \<Rightarrow> string \<Rightarrow> user stmt" where
  "update_display_name x i name t d =
    (if \<not> pg_text name then Inl pg_encoding_error
     else (case first_row (\<lambda>u. user_id u = i) (users d) of
        None \<Rightarrow> Inl (Sentinel ErrNoRows)
      | Some u \<Rightarrow>
         (case first_violated (users_checks x (u\<lparr>display_name := name, user_updated := t\<rparr>)) of
            Some e \<Rightarrow> Inl e
          | None \<Rightarrow> Inr (u\<lparr>display_name := name, user_updated := t\<rparr>,
              d\<lparr>users := update_where (\<lambda>v. user_id v = i)
                 (\<lambda>v. v\<lparr>display_name := name, user_updated := t\<rparr>) (users d)\<rparr>))))"

definition user_UpdateProfile :: "ext \<Rightarrow> uuid \<Rightarrow> string \<Rightarrow> user prog" where
  "user_UpdateProfile x i name w =
    (case execute (update_display_name x i name) w of
       (Inl e, w1) \<Rightarrow> (Inl (NotFoundOr (Wrapf ''update user profile'' [e]) ''user''), w1)
     | (Inr u, w1) \<Rightarrow> (Inr u, w1))"

definition user_repository :: "ext \<Rightarrow> user_store" where
  "user_repository x = \<lparr>us_Create = user_Create x, us_ByID = user_ByID,
     us_ByEmail = user_ByEmail, us_UpdateProfile = user_UpdateProfile x\<rparr>"

section \<open>Sessions\<close>

text \<open>\<open>scanSession\<close> over \<open>sessionColumns\<close>: a NULL user agent reads as the empty string.\<close>

definition scanSession :: "token_row \<Rightarrow> session" where
  "scanSession r = \<lparr>se_id = rt_id r, se_user = rt_user r, se_hash = rt_hash r, se_expires = rt_expires r,
     se_revoked = rt_revoked r, se_replaced = rt_replaced r,
     se_agent = (case rt_agent r of None \<Rightarrow> [] | Some a \<Rightarrow> a), se_created = rt_created r\<rparr>"

definition token_of :: "session \<Rightarrow> time \<Rightarrow> token_row" where
  "token_of s t = \<lparr>rt_id = se_id s, rt_user = se_user s, rt_hash = se_hash s, rt_expires = se_expires s,
     rt_revoked = None, rt_replaced = None, rt_agent = (if se_agent s = [] then None else Some (se_agent s)),
     rt_created = t\<rparr>"

definition insert_token :: "session \<Rightarrow> session stmt" where
  "insert_token s t d =
    (let r = token_of s t in
     if \<not> pg_text (se_agent s) then Inl pg_encoding_error
     else (case first_violated (tokens_checks r) of
        Some e \<Rightarrow> Inl e
      | None \<Rightarrow>
          if rt_id r \<in> rt_id ` set (tokens d) then Inl (PgError sqlStateUniqueViolation ''refresh_tokens_pkey'')
          else if rt_hash r \<in> rt_hash ` set (tokens d)
          then Inl (PgError sqlStateUniqueViolation ''refresh_tokens_hash_unique'')
          else if rt_user r \<notin> user_id ` set (users d)
          then Inl (PgError sqlStateForeignKeyViolation ''refresh_tokens_user_id_fkey'')
          else Inr (scanSession r, d\<lparr>tokens := tokens d @ [r]\<rparr>)))"

definition session_Create :: "session \<Rightarrow> session prog" where
  "session_Create s w =
    (case execute (insert_token s) w of
       (Inl e, w1) \<Rightarrow> (Inl (Internal (Wrapf ''insert refresh token'' [e])), w1)
     | (Inr r, w1) \<Rightarrow> (Inr r, w1))"

definition select_token :: "string \<Rightarrow> session stmt" where
  "select_token h t d =
    (case first_row (\<lambda>r. rt_hash r = h) (tokens d) of
       None \<Rightarrow> Inl (Sentinel ErrNoRows) | Some r \<Rightarrow> Inr (scanSession r, d))"

definition session_ByHash :: "string \<Rightarrow> session prog" where
  "session_ByHash h w =
    (case execute (select_token h) w of
       (Inl e, w1) \<Rightarrow>
         (Inl (if IsNoRows e then Sentinel ErrSessionNotFound
               else Internal (Wrapf ''select refresh token'' [e])), w1)
     | (Inr s, w1) \<Rightarrow> (Inr s, w1))"

definition rotatable :: "string \<Rightarrow> time \<Rightarrow> token_row \<Rightarrow> bool" where
  "rotatable h t r \<longleftrightarrow> rt_hash r = h \<and> rt_revoked r = None \<and> t < rt_expires r"

definition revoke_replaced :: "string \<Rightarrow> uuid \<Rightarrow> nat stmt" where
  "revoke_replaced h i t d =
     Inr (count_where (rotatable h t) (tokens d),
          d\<lparr>tokens := update_where (rotatable h t)
              (\<lambda>r. r\<lparr>rt_revoked := Some t, rt_replaced := Some i\<rparr>) (tokens d)\<rparr>)"

definition session_Rotate :: "string \<Rightarrow> session \<Rightarrow> session prog" where
  "session_Rotate presentedHash next =
    InTx (\<lambda>w.
      case execute (insert_token next) w of
        (Inl e, w1) \<Rightarrow> (Inl (Internal (Wrapf ''insert rotated refresh token'' [e])), w1)
      | (Inr n, w1) \<Rightarrow>
         (case execute (revoke_replaced presentedHash (se_id next)) w1 of
            (Inl e, w2) \<Rightarrow> (Inl (Internal (Wrapf ''revoke refresh token'' [e])), w2)
          | (Inr k, w2) \<Rightarrow> if k = 0 then (Inl (Sentinel ErrSessionNotFound), w2) else (Inr n, w2)))"

definition revoke_where :: "(token_row \<Rightarrow> bool) \<Rightarrow> nat stmt" where
  "revoke_where P t d =
     Inr (count_where (\<lambda>r. P r \<and> rt_revoked r = None) (tokens d),
          d\<lparr>tokens := update_where (\<lambda>r. P r \<and> rt_revoked r = None) (\<lambda>r. r\<lparr>rt_revoked := Some t\<rparr>) (tokens d)\<rparr>)"

definition session_Revoke :: "string \<Rightarrow> unit prog" where
  "session_Revoke h w =
    (case execute (revoke_where (\<lambda>r. rt_hash r = h)) w of
       (Inl e, w1) \<Rightarrow> (Inl (Internal (Wrapf ''revoke refresh token'' [e])), w1)
     | (Inr k, w1) \<Rightarrow> (Inr (), w1))"

definition session_RevokeAllForUser :: "uuid \<Rightarrow> nat prog" where
  "session_RevokeAllForUser u w =
    (case execute (revoke_where (\<lambda>r. rt_user r = u)) w of
       (Inl e, w1) \<Rightarrow> (Inl (Internal (Wrapf ''revoke all refresh tokens'' [e])), w1)
     | (Inr k, w1) \<Rightarrow> (Inr k, w1))"

text \<open>\<open>DeleteExpired\<close>; \<open>replaced_by\<close> is ON DELETE SET NULL.\<close>

definition delete_expired :: "time \<Rightarrow> nat stmt" where
  "delete_expired cutoff t d =
    (let gone = rt_id ` set (select_where (\<lambda>r. rt_expires r < cutoff) (tokens d)) in
     Inr (count_where (\<lambda>r. rt_expires r < cutoff) (tokens d),
          d\<lparr>tokens := update_where (\<lambda>r. \<exists>i \<in> gone. rt_replaced r = Some i) (\<lambda>r. r\<lparr>rt_replaced := None\<rparr>)
              (delete_where (\<lambda>r. rt_expires r < cutoff) (tokens d))\<rparr>))"

definition session_DeleteExpired :: "time \<Rightarrow> nat prog" where
  "session_DeleteExpired cutoff w =
    (case execute (delete_expired cutoff) w of
       (Inl e, w1) \<Rightarrow> (Inl (Internal (Wrapf ''delete expired refresh tokens'' [e])), w1)
     | (Inr k, w1) \<Rightarrow> (Inr k, w1))"

definition session_repository :: session_store where
  "session_repository = \<lparr>ss_Create = session_Create, ss_ByHash = session_ByHash,
     ss_Rotate = session_Rotate, ss_Revoke = session_Revoke,
     ss_RevokeAllForUser = session_RevokeAllForUser\<rparr>"

section \<open>Well-formed tables\<close>

definition tokens_wf :: "token_row list \<Rightarrow> bool" where
  "tokens_wf ts \<longleftrightarrow> distinct (map rt_id ts) \<and> distinct (map rt_hash ts)"

definition users_wf :: "user list \<Rightarrow> bool" where
  "users_wf us \<longleftrightarrow> distinct (map user_id us) \<and> distinct (map email us) \<and> distinct (map username us)"

definition lookup_session :: "world \<Rightarrow> string \<Rightarrow> session option" where
  "lookup_session w h = map_option scanSession (first_row (\<lambda>r. rt_hash r = h) (tokens (db w)))"

definition lookup_account :: "world \<Rightarrow> uuid \<Rightarrow> user option" where
  "lookup_account w i = first_row (\<lambda>u. user_id u = i) (users (db w))"

definition lookup_email :: "world \<Rightarrow> string \<Rightarrow> user option" where
  "lookup_email w e = first_row (\<lambda>u. email u = e) (users (db w))"

lemma token_of_simps [simp]:
  "rt_id (token_of s t) = se_id s" "rt_user (token_of s t) = se_user s"
  "rt_hash (token_of s t) = se_hash s" "rt_expires (token_of s t) = se_expires s"
  "rt_revoked (token_of s t) = None" "rt_created (token_of s t) = t"
  by (simp_all add: token_of_def)

lemma scanSession_simps [simp]:
  "se_id (scanSession r) = rt_id r" "se_user (scanSession r) = rt_user r"
  "se_hash (scanSession r) = rt_hash r" "se_expires (scanSession r) = rt_expires r"
  "se_revoked (scanSession r) = rt_revoked r" "se_replaced (scanSession r) = rt_replaced r"
  by (simp_all add: scanSession_def)

lemma insert_token_Inr:
  assumes "insert_token s t d = Inr (r, d')"
  shows "r = scanSession (token_of s t)" and "d' = d\<lparr>tokens := tokens d @ [token_of s t]\<rparr>"
    and "se_id s \<notin> rt_id ` set (tokens d)" and "se_hash s \<notin> rt_hash ` set (tokens d)"
    and "se_user s \<in> user_id ` set (users d)" and "t < se_expires s" and "length (se_hash s) = 32"
proof -
  have c: "first_violated (tokens_checks (token_of s t)) = None"
    using assms by (simp add: insert_token_def Let_def split: if_splits option.splits)
  with assms show "r = scanSession (token_of s t)" "d' = d\<lparr>tokens := tokens d @ [token_of s t]\<rparr>"
      "se_id s \<notin> rt_id ` set (tokens d)" "se_hash s \<notin> rt_hash ` set (tokens d)"
      "se_user s \<in> user_id ` set (users d)"
    by (simp_all add: insert_token_def Let_def split: if_splits)
  from c show "t < se_expires s" "length (se_hash s) = 32"
    by (simp_all add: tokens_checks_def split: if_splits)
qed

lemma insert_token_wf: "insert_token s t d = Inr (r, d') \<Longrightarrow> tokens_wf (tokens d) \<Longrightarrow> tokens_wf (tokens d')"
  using insert_token_Inr [of s t d r d'] by (simp add: tokens_wf_def)

lemma revoke_replaced_wf: "revoke_replaced h i t d = Inr (k, d') \<Longrightarrow> tokens_wf (tokens d') = tokens_wf (tokens d)"
  by (auto simp: revoke_replaced_def tokens_wf_def map_update_where)

lemma revoke_where_wf: "revoke_where P t d = Inr (k, d') \<Longrightarrow> tokens_wf (tokens d') = tokens_wf (tokens d)"
  by (auto simp: revoke_where_def tokens_wf_def map_update_where)

section \<open>The session contract holds\<close>

lemma session_repository_simps [simp]:
  "ss_Create session_repository = session_Create" "ss_ByHash session_repository = session_ByHash"
  "ss_Rotate session_repository = session_Rotate" "ss_Revoke session_repository = session_Revoke"
  "ss_RevokeAllForUser session_repository = session_RevokeAllForUser"
  by (simp_all add: session_repository_def)

lemma scanSession_update:
  "scanSession (r\<lparr>rt_revoked := a, rt_replaced := b\<rparr>) = (scanSession r)\<lparr>se_revoked := a, se_replaced := b\<rparr>"
  "scanSession (r\<lparr>rt_revoked := a\<rparr>) = (scanSession r)\<lparr>se_revoked := a\<rparr>"
  by (simp_all add: scanSession_def)

lemma lookup_session_insert:
  assumes "tokens (db w') = tokens (db w) @ [r]" and "rt_hash r \<notin> rt_hash ` set (tokens (db w))"
  shows "lookup_session w (rt_hash r) = None"
    and "lookup_session w' = (lookup_session w)(rt_hash r \<mapsto> scanSession r)"
proof -
  have "first_row (\<lambda>q. rt_hash q = rt_hash r) (tokens (db w)) = None"
    using assms(2) unfolding first_row_None by (metis image_eqI)
  then show "lookup_session w (rt_hash r) = None" by (simp add: lookup_session_def)
  show "lookup_session w' = (lookup_session w)(rt_hash r \<mapsto> scanSession r)"
    using assms by (auto simp: lookup_session_def first_row_fresh fun_eq_iff)
qed

lemma session_Create_Inr:
  assumes "session_Create s w = (Inr s', w')"
  shows "insert_token s (db_now w) (db w) = Inr (s', db w')"
  using assms by (auto simp: session_Create_def dest: execute_ok split: sum.splits prod.splits)

lemma session_Create_spec:
  assumes "session_Create s w = (Inr s', w')"
  shows "lookup_session w (se_hash s) = None" and "s' = scanSession (token_of s (db_now w))"
    and "lookup_session w' = (lookup_session w)(se_hash s \<mapsto> s')"
  using insert_token_Inr [OF session_Create_Inr [OF assms]] lookup_session_insert [of w' w "token_of s (db_now w)"]
  by simp_all

lemma session_Create_wf:
  assumes "session_Create s w = (r, w')" and "tokens_wf (tokens (db w))"
  shows "tokens_wf (tokens (db w'))"
proof -
  obtain r1 where "execute (insert_token s) w = (r1, w')"
    using assms(1) by (auto simp: session_Create_def split: sum.splits prod.splits)
  then show ?thesis
    by (rule execute_invariant [where I = "\<lambda>d. tokens_wf (tokens d)"]) (use assms(2) insert_token_wf in auto)
qed

definition rotate_body :: "string \<Rightarrow> session \<Rightarrow> session prog" where
  "rotate_body h next w =
    (case execute (insert_token next) w of
        (Inl e, w1) \<Rightarrow> (Inl (Internal (Wrapf ''insert rotated refresh token'' [e])), w1)
      | (Inr n, w1) \<Rightarrow>
         (case execute (revoke_replaced h (se_id next)) w1 of
            (Inl e, w2) \<Rightarrow> (Inl (Internal (Wrapf ''revoke refresh token'' [e])), w2)
          | (Inr k, w2) \<Rightarrow> if k = 0 then (Inl (Sentinel ErrSessionNotFound), w2) else (Inr n, w2)))"

lemma session_Rotate_body: "session_Rotate h next = InTx (rotate_body h next)"
  by (simp add: session_Rotate_def rotate_body_def [abs_def])

lemma rotate_body_same_process: "rotate_body h n w = (r, w') \<Longrightarrow> same_process w w'"
  by (auto simp: rotate_body_def split: sum.splits prod.splits if_splits
      dest: execute_same_process intro: same_process_trans)

lemma rotate_body_wf:
  assumes "rotate_body h n w = (Inr n', w')" and "tokens_wf (tokens (db w))"
  shows "tokens_wf (tokens (db w'))"
  using assms
  by (auto simp: rotate_body_def split: sum.splits prod.splits if_splits
      dest!: execute_ok revoke_replaced_wf dest: insert_token_wf)

lemma rotate_body_Inr:
  assumes "rotate_body h n w = (Inr n', w')" and "tokens_wf (tokens (db w))"
    and "lookup_session w h = Some s"
  shows "Active s (db_now w)" and "lookup_session w (se_hash n) = None"
    and "n' = scanSession (token_of n (db_now w))"
    and "lookup_session w' = (lookup_session w)(se_hash n \<mapsto> n',
          h \<mapsto> s\<lparr>se_revoked := Some (db_now w), se_replaced := Some (se_id n)\<rparr>)"
proof -
  let ?t = "db_now w" and ?ts = "tokens (db w)"
  let ?r = "token_of n ?t" and ?f = "\<lambda>r. r\<lparr>rt_revoked := Some ?t, rt_replaced := Some (se_id n)\<rparr>"
  from assms(1) obtain w1 k where
      i: "execute (insert_token n) w = (Inr n', w1)"
    and u: "execute (revoke_replaced h (se_id n)) w1 = (Inr k, w')" and k: "0 < k"
    by (auto simp: rotate_body_def split: sum.splits prod.splits if_splits)
  have t1: "db_now w1 = ?t" using execute_frame [OF i] by simp
  note ins = insert_token_Inr [OF execute_ok [OF i]]
  show n': "n' = scanSession ?r" by (rule ins(1))
  have ts1: "tokens (db w1) = ?ts @ [?r]" using ins(2) by simp
  have fresh: "rt_hash ?r \<notin> rt_hash ` set ?ts" using ins(4) by simp
  have "lookup_session w (rt_hash ?r) = None" and l1: "lookup_session w1 = (lookup_session w)(rt_hash ?r \<mapsto> scanSession ?r)"
    using lookup_session_insert [OF ts1 fresh] .
  then show "lookup_session w (se_hash n) = None" by simp
  with assms(3) have hn: "h \<noteq> se_hash n" by auto
  from execute_ok [OF u, symmetric] t1 have k_count: "k = count_where (rotatable h ?t) (tokens (db w1))"
      and w'_ts: "tokens (db w') = update_where (rotatable h ?t) ?f (tokens (db w1))"
    by (simp_all add: revoke_replaced_def)
  from k k_count obtain r where r: "r \<in> set (tokens (db w1))" "rotatable h ?t r"
    by (auto simp: count_where_pos_iff)
  with ts1 hn have rts: "r \<in> set ?ts" by (auto simp: rotatable_def)
  have row: "first_row (\<lambda>q. rt_hash q = h) ?ts = Some r"
    using assms(2) rts r(2) by (intro first_row_key_exists) (auto simp: tokens_wf_def rotatable_def)
  with assms(3) have s: "s = scanSession r" by (simp add: lookup_session_def)
  with r(2) show "Active s ?t" by (simp add: Active_def rotatable_def)
  have "lookup_session w' g = map_option scanSession
      (map_option (\<lambda>r. if rotatable h ?t r then ?f r else r) (first_row (\<lambda>q. rt_hash q = g) (?ts @ [?r])))" for g
    unfolding lookup_session_def w'_ts ts1 by (subst first_row_update) simp_all
  note look = this
  show "lookup_session w' = (lookup_session w)(se_hash n \<mapsto> n',
          h \<mapsto> s\<lparr>se_revoked := Some ?t, se_replaced := Some (se_id n)\<rparr>)"
  proof
    fix g
    consider "g = h" | "g = se_hash n" "g \<noteq> h" | "g \<noteq> se_hash n" "g \<noteq> h" by blast
    then show "lookup_session w' g = ((lookup_session w)(se_hash n \<mapsto> n',
          h \<mapsto> s\<lparr>se_revoked := Some ?t, se_replaced := Some (se_id n)\<rparr>)) g"
    proof cases
      case 1
      with hn row fresh r(2) s show ?thesis by (simp add: look first_row_fresh scanSession_update)
    next
      case 2
      then have "\<not> rotatable h ?t ?r" by (simp add: rotatable_def)
      with 2 fresh n' show ?thesis by (simp add: look first_row_fresh)
    next
      case 3
      have "\<not> rotatable h ?t q" if "first_row (\<lambda>q. rt_hash q = g) ?ts = Some q" for q
        using first_row_Some [OF that] 3 by (auto simp: rotatable_def)
      with 3 fresh show ?thesis
        unfolding look by (cases "first_row (\<lambda>q. rt_hash q = g) ?ts")
          (simp_all add: first_row_fresh lookup_session_def)
    qed
  qed
qed

lemma revoke_where_spec:
  assumes "execute (revoke_where P) w = (Inr k, w')"
  shows "tokens (db w') = update_where (\<lambda>r. P r \<and> rt_revoked r = None) (\<lambda>r. r\<lparr>rt_revoked := Some (db_now w)\<rparr>) (tokens (db w))"
    and "k = count_where (\<lambda>r. P r \<and> rt_revoked r = None) (tokens (db w))"
    and "users (db w') = users (db w)" "posts (db w') = posts (db w)" "comments (db w') = comments (db w)"
  using execute_ok [OF assms, symmetric] by (simp_all add: revoke_where_def)

lemma revoke_where_lookup:
  assumes "execute (revoke_where P) w = (Inr k, w')"
  shows "lookup_session w' h = map_option (\<lambda>r. if P r then revoked_at (db_now w) (scanSession r) else scanSession r)
    (first_row (\<lambda>q. rt_hash q = h) (tokens (db w)))"
  by (auto simp: lookup_session_def revoke_where_spec(1) [OF assms] first_row_update option.map_comp
      revoked_at_def scanSession_update comp_def intro!: option.map_cong)

lemma session_Revoke_execute:
  "session_Revoke h w = (r, w') \<Longrightarrow> \<exists>r1. execute (revoke_where (\<lambda>r. rt_hash r = h)) w = (r1, w')
     \<and> (\<forall>u. r = Inr u \<longrightarrow> (\<exists>k. r1 = Inr k))"
  by (auto simp: session_Revoke_def split: sum.splits prod.splits)

lemma session_RevokeAll_execute:
  "session_RevokeAllForUser u w = (r, w') \<Longrightarrow> \<exists>r1. execute (revoke_where (\<lambda>r. rt_user r = u)) w = (r1, w')
     \<and> (\<forall>k. r = Inr k \<longrightarrow> r1 = Inr k)"
  by (auto simp: session_RevokeAllForUser_def split: sum.splits prod.splits)

lemma session_ByHash_db: "session_ByHash h w = (r, w') \<Longrightarrow> db w' = db w"
proof -
  assume "session_ByHash h w = (r, w')"
  then obtain r1 where "execute (select_token h) w = (r1, w')"
    by (auto simp: session_ByHash_def split: sum.splits prod.splits)
  then show "db w' = db w"
    by (rule execute_read_only) (auto simp: select_token_def split: option.splits)
qed

lemma tokens_kept_append:
  "sessions_kept (\<lambda>h. map_option scanSession (first_row (\<lambda>r. rt_hash r = h) ts))
     (\<lambda>h. map_option scanSession (first_row (\<lambda>r. rt_hash r = h) (ts @ us)))"
  by (rule sessions_keptI) (auto simp: first_row_append)

lemma tokens_kept_revoked:
  "sessions_kept (\<lambda>h. map_option scanSession (first_row (\<lambda>r. rt_hash r = h) ts))
     (\<lambda>h. map_option scanSession (first_row (\<lambda>r. rt_hash r = h) (update_where P (\<lambda>r. r\<lparr>rt_revoked := Some t\<rparr>) ts)))"
  "sessions_kept (\<lambda>h. map_option scanSession (first_row (\<lambda>r. rt_hash r = h) ts))
     (\<lambda>h. map_option scanSession (first_row (\<lambda>r. rt_hash r = h)
        (update_where P (\<lambda>r. r\<lparr>rt_revoked := Some t, rt_replaced := i\<rparr>) ts)))"
  by (rule sessions_keptI; clarsimp simp: first_row_update; rename_tac r; case_tac "P r";
      fastforce simp: outlives_def)+

definition kept_from :: "database \<Rightarrow> database \<Rightarrow> bool" where
  "kept_from d d' \<longleftrightarrow> sessions_kept (\<lambda>h. map_option scanSession (first_row (\<lambda>r. rt_hash r = h) (tokens d)))
     (\<lambda>h. map_option scanSession (first_row (\<lambda>r. rt_hash r = h) (tokens d')))"

lemma kept_from_lookup: "kept_from (db w) (db w') = sessions_kept (lookup_session w) (lookup_session w')"
  by (simp add: kept_from_def lookup_session_def [abs_def])

lemma kept_from_refl [simp]: "kept_from d d"
  by (simp add: kept_from_def)

lemma kept_from_trans: "kept_from d d1 \<Longrightarrow> kept_from d1 d2 \<Longrightarrow> kept_from d d2"
  unfolding kept_from_def by (rule sessions_kept_trans)

lemma insert_token_kept: "insert_token s t d = Inr (r, d') \<Longrightarrow> kept_from d d'"
  by (auto dest!: insert_token_Inr(2) simp: kept_from_def tokens_kept_append)

lemma revoke_kept:
  "revoke_where P t d = Inr (k, d') \<Longrightarrow> kept_from d d'"
  "revoke_replaced h i t d = Inr (k, d') \<Longrightarrow> kept_from d d'"
  by (auto simp: revoke_where_def revoke_replaced_def kept_from_def tokens_kept_revoked)

lemma execute_kept:
  "execute st w = (r, w') \<Longrightarrow> (\<And>a d. st (db_now w) (db w) = Inr (a, d) \<Longrightarrow> kept_from (db w) d)
    \<Longrightarrow> kept_from (db w) (db w')"
  by (erule execute_invariant) simp_all

lemma rotate_body_kept: "rotate_body h n w = (Inr n', w') \<Longrightarrow> kept_from (db w) (db w')"
  by (auto simp: rotate_body_def split: sum.splits prod.splits if_splits
      dest!: execute_ok dest: insert_token_kept revoke_kept intro: kept_from_trans)

lemma session_Rotate_kept:
  assumes "session_Rotate h n w = (r, w')"
  shows "kept_from (db w) (db w')"
  using assms unfolding session_Rotate_body
  by (rule InTx_invariant [where I = "kept_from (db w)"]) (auto dest: rotate_body_kept intro: kept_from_trans)

interpretation sessions: session_contract session_repository lookup_session "\<lambda>w. tokens_wf (tokens (db w))"
proof (unfold_locales, unfold session_repository_simps, goal_cases)
  case (1 w h s)
  then show ?case by (auto simp: lookup_session_def dest: first_row_Some)
next
  case (2 w' w)
  then show ?case by (simp add: lookup_session_def fun_eq_iff)
next
  case (3 w' w)
  then show ?case by simp
next
  case (4 s w r w')
  then show ?case
    by (auto simp: session_Create_def split: sum.splits prod.splits dest: execute_same_process)
next
  case (5 s w r w')
  then show ?case by (rule session_Create_wf)
next
  case (6 s w r w')
  then obtain r1 where "execute (insert_token s) w = (r1, w')"
    by (auto simp: session_Create_def split: sum.splits prod.splits)
  then show ?case
    unfolding kept_from_lookup [symmetric] by (rule execute_kept) (rule insert_token_kept)
next
  case (7 s w s' w')
  then show ?case using session_Create_spec [of s w s' w'] by simp
next
  case (8 h w r w')
  then show ?case
    by (auto simp: session_ByHash_db) (auto simp: session_ByHash_def split: sum.splits prod.splits dest: execute_same_process)
next
  case (9 h w s w')
  then have "select_token h (db_now w) (db w) = Inr (s, db w')"
    by (auto simp: session_ByHash_def split: sum.splits prod.splits if_splits dest: execute_ok)
  then show ?case by (auto simp: select_token_def lookup_session_def split: option.splits)
next
  case (10 h w e w')
  then obtain e1 where "execute (select_token h) w = (Inl e1, w')" "errors_is e1 ErrNoRows \<or> errors_is e1 ErrSessionNotFound"
    by (auto simp: session_ByHash_def IsNoRows_def split: sum.splits prod.splits if_splits)
  then show ?case
    by (cases rule: execute_cases) (auto simp: select_token_def lookup_session_def split: option.splits)
next
  case (11 w h s)
  then show ?case
    by (auto simp: session_ByHash_def execute_quiet select_token_def lookup_session_def)
next
  case (12 h n w r w')
  then show ?case unfolding session_Rotate_body
    by (rule InTx_same_process) (rule rotate_body_same_process)
next
  case (13 h n w r w')
  then show ?case unfolding session_Rotate_body
    by (rule InTx_invariant [where I = "\<lambda>d. tokens_wf (tokens d)"]) (rule rotate_body_wf)
next
  case (14 h n w r w')
  then show ?case by (simp add: kept_from_lookup [symmetric] session_Rotate_kept)
next
  case (15 h n w n' w' s)
  from 15(1) obtain w1 w2 where t: "rotate_body h n w1 = (Inr n', w2)" "db w1 = db w" "db w' = db w2"
      "db_now w1 = db_now w"
    unfolding session_Rotate_body by (cases rule: InTx_cases) auto
  have l: "lookup_session w1 = lookup_session w" "lookup_session w' = lookup_session w2"
    using t by (simp_all add: lookup_session_def fun_eq_iff)
  with 15 t rotate_body_Inr [OF t(1), of s] show ?case by simp
next
  case (16 h n w e w')
  from 16(1) have "db w' = db w" unfolding session_Rotate_body
  proof (cases rule: InTx_cases)
    case (in_doubt a e' w1 w2)
    with 16(3) rotate_body_same_process [OF in_doubt(2)] have "acknowledged w2"
      by (simp add: same_process_def)
    with in_doubt show ?thesis by (auto simp: acknowledged_def)
  qed auto
  then show ?case by (simp add: lookup_session_def fun_eq_iff)
next
  case (17 h w r w')
  then show ?case by (auto dest!: session_Revoke_execute execute_same_process)
next
  case (18 h w r w')
  then obtain r1 where "execute (revoke_where (\<lambda>r. rt_hash r = h)) w = (r1, w')"
    by (auto dest: session_Revoke_execute)
  then show ?case
    by (rule execute_invariant [where I = "\<lambda>d. tokens_wf (tokens d)"]) (use 18 revoke_where_wf in auto)
next
  case (19 h w r w')
  then obtain r1 where "execute (revoke_where (\<lambda>r. rt_hash r = h)) w = (r1, w')"
    by (auto dest: session_Revoke_execute)
  then show ?case
    unfolding kept_from_lookup [symmetric] by (rule execute_kept) (rule revoke_kept)
next
  case (20 h w un w')
  obtain k where e: "execute (revoke_where (\<lambda>r. rt_hash r = h)) w = (Inr k, w')"
    using session_Revoke_execute [OF 20(1)] by auto
  show ?case
  proof
    fix g
    show "lookup_session w' g = ((lookup_session w)(h := map_option (revoked_at (db_now w)) (lookup_session w h))) g"
      unfolding revoke_where_lookup [OF e]
      by (cases "first_row (\<lambda>q. rt_hash q = g) (tokens (db w))")
         (auto simp: lookup_session_def dest: first_row_Some)
  qed
next
  case (21 u w r w')
  then show ?case by (auto dest!: session_RevokeAll_execute execute_same_process)
next
  case (22 u w r w')
  then obtain r1 where "execute (revoke_where (\<lambda>r. rt_user r = u)) w = (r1, w')"
    by (auto dest: session_RevokeAll_execute)
  then show ?case
    by (rule execute_invariant [where I = "\<lambda>d. tokens_wf (tokens d)"]) (use 22 revoke_where_wf in auto)
next
  case (23 u w r w')
  then obtain r1 where "execute (revoke_where (\<lambda>r. rt_user r = u)) w = (r1, w')"
    by (auto dest: session_RevokeAll_execute)
  then show ?case
    unfolding kept_from_lookup [symmetric] by (rule execute_kept) (rule revoke_kept)
next
  case (24 w u)
  then show ?case by (simp add: session_RevokeAllForUser_def execute_quiet revoke_where_def)
next
  case (25 u w k w')
  then have e: "execute (revoke_where (\<lambda>r. rt_user r = u)) w = (Inr k, w')"
    by (auto dest: session_RevokeAll_execute)
  show ?case
    by (rule ext, unfold revoke_where_lookup [OF e])
       (auto simp: lookup_session_def option.map_comp comp_def intro!: option.map_cong)
qed

section \<open>The account contract holds\<close>

lemma user_repository_simps [simp]:
  "us_Create (user_repository x) = user_Create x" "us_ByID (user_repository x) = user_ByID"
  "us_ByEmail (user_repository x) = user_ByEmail"
  "us_UpdateProfile (user_repository x) = user_UpdateProfile x"
  by (simp_all add: user_repository_def)

lemma insert_user_Inr:
  assumes "insert_user x u t d = Inr (r, d')"
  shows "r = u\<lparr>user_created := t, user_updated := t\<rparr>" and "d' = d\<lparr>users := users d @ [r]\<rparr>"
    and "user_id u \<notin> user_id ` set (users d)" and "email u \<notin> email ` set (users d)"
    and "username u \<notin> username ` set (users d)"
  using assms by (auto simp: insert_user_def Let_def split: if_splits option.splits)

lemma user_Create_execute:
  "user_Create x u w = (r, w') \<Longrightarrow> \<exists>r1. execute (insert_user x u) w = (r1, w')
    \<and> (\<forall>v. r = Inr v \<longrightarrow> r1 = Inr v) \<and> (\<forall>e. r = Inl e \<longrightarrow> (\<exists>e1. r1 = Inl e1))"
  by (cases "execute (insert_user x u) w") (auto simp: user_Create_def split: sum.splits)

lemma user_one_execute:
  "user_one q w = (r, w') \<Longrightarrow> \<exists>r1. execute q w = (r1, w')
    \<and> (\<forall>v. r = Inr v \<longrightarrow> r1 = Inr v)
    \<and> (\<forall>e. r = Inl e \<longrightarrow> (\<exists>e1. r1 = Inl e1 \<and> e = NotFoundOr (Wrapf ''select user'' [e1]) ''user''))"
  by (cases "execute q w") (auto simp: user_one_def split: sum.splits)

definition email_query :: "string \<Rightarrow> user stmt" where
  "email_query e t d = (if \<not> pg_text e then Inl pg_encoding_error else select_user (\<lambda>u. email u = e) t d)"

lemma user_ByEmail_query: "user_ByEmail e = user_one (email_query e)"
  by (simp add: user_ByEmail_def email_query_def [abs_def])

lemma select_user_read_only: "select_user P t d = Inr (u, d') \<Longrightarrow> d' = d \<and> first_row P (users d) = Some u"
  by (auto simp: select_user_def split: option.splits)

lemma email_query_read_only: "email_query e t d = Inr (u, d') \<Longrightarrow> d' = d \<and> first_row (\<lambda>u. email u = e) (users d) = Some u"
  by (auto simp: email_query_def dest: select_user_read_only split: if_splits)

lemma NotFoundOr_missing:
  assumes "execute q w = (Inl e, w')" and "IsCode (NotFoundOr (Wrapf m [e]) r) CodeNotFound"
  shows "\<exists>e1. q (db_now w) (db w) = Inl e1 \<and> errors_is e1 ErrNoRows"
proof -
  from assms(2) have n: "errors_is e ErrNoRows"
    by (auto simp: NotFoundOr_def IsNoRows_def split: if_splits)
  from assms(1) show ?thesis by (cases rule: execute_cases) (use n in auto)
qed

lemma users_wf_insert:
  "insert_user x u t d = Inr (r, d') \<Longrightarrow> users_wf (users d) \<Longrightarrow> users_wf (users d')"
  using insert_user_Inr [of x u t d r d'] by (simp add: users_wf_def)

lemma user_UpdateProfile_execute:
  "user_UpdateProfile x i n w = (r, w') \<Longrightarrow> \<exists>r1. execute (update_display_name x i n) w = (r1, w')
    \<and> (\<forall>v. r = Inr v \<longrightarrow> r1 = Inr v)"
  by (cases "execute (update_display_name x i n) w") (auto simp: user_UpdateProfile_def split: sum.splits)

lemma update_display_name_Inr:
  assumes "update_display_name x i n t d = Inr (u', d')"
  obtains u where "first_row (\<lambda>u. user_id u = i) (users d) = Some u"
    "u' = u\<lparr>display_name := n, user_updated := t\<rparr>"
    "users d' = update_where (\<lambda>v. user_id v = i) (\<lambda>v. v\<lparr>display_name := n, user_updated := t\<rparr>) (users d)"
    "tokens d' = tokens d"
  using assms by (auto simp: update_display_name_def split: if_splits option.splits)

lemma users_wf_update:
  "update_display_name x i n t d = Inr (u', d') \<Longrightarrow> users_wf (users d') = users_wf (users d)"
  by (erule update_display_name_Inr) (simp add: users_wf_def map_update_where)

interpretation accounts: user_contract "user_repository x" lookup_account lookup_email "\<lambda>w. users_wf (users (db w))" pg_text
  for x
proof (unfold_locales, unfold user_repository_simps, goal_cases)
  case (1 w i u)
  then show ?case by (auto simp: lookup_account_def dest: first_row_Some)
next
  case (2 w e u)
  then show ?case by (auto simp: lookup_email_def dest: first_row_Some)
next
  case (3 w' w)
  then show ?case by (simp add: lookup_account_def lookup_email_def fun_eq_iff)
next
  case (4 w' w)
  then show ?case by simp
next
  case (5 u w r w')
  then show ?case by (auto dest!: user_Create_execute execute_same_process)
next
  case (6 u w r w')
  then obtain r1 where "execute (insert_user x u) w = (r1, w')" by (auto dest: user_Create_execute)
  then show ?case
    by (rule execute_invariant [where I = "\<lambda>d. users_wf (users d)"]) (use 6 users_wf_insert in auto)
next
  case (7 u w u' w')
  then have i: "insert_user x u (db_now w) (db w) = Inr (u', db w')"
    by (auto dest!: user_Create_execute execute_ok)
  note ins = insert_user_Inr [OF i]
  have u': "user_id u' = user_id u" "email u' = email u" using ins(1) by simp_all
  have "users (db w') = users (db w) @ [u']" using ins(2) by simp
  moreover have "lookup_account w (user_id u) = None" "lookup_email w (email u) = None"
    using ins(3,4) unfolding lookup_account_def lookup_email_def first_row_None by (metis image_eqI)+
  ultimately show ?case
    using ins(1,3,4) u' by (auto simp: lookup_account_def lookup_email_def first_row_fresh fun_eq_iff)
next
  case (8 u w er w')
  obtain e1 where "execute (insert_user x u) w = (Inl e1, w')"
    using user_Create_execute [OF 8(1)] by auto
  then show ?case using 8(2) by (rule execute_error_unchanged)
next
  case (9 i w r w')
  then obtain r1 where r1: "execute (select_user (\<lambda>u. user_id u = i)) w = (r1, w')"
    unfolding user_ByID_def by (auto dest: user_one_execute)
  have "db w' = db w" by (rule execute_read_only [OF r1]) (auto dest: select_user_read_only)
  with r1 show ?case by (auto dest: execute_same_process)
next
  case (10 i w u w')
  then show ?case unfolding user_ByID_def lookup_account_def
    by (auto dest!: user_one_execute execute_ok dest: select_user_read_only)
next
  case (11 e w r w')
  then obtain r1 where r1: "execute (email_query e) w = (r1, w')"
    unfolding user_ByEmail_query by (auto dest: user_one_execute)
  have "db w' = db w" by (rule execute_read_only [OF r1]) (auto dest: email_query_read_only)
  with r1 show ?case by (auto dest: execute_same_process)
next
  case (12 e w u w')
  then show ?case unfolding user_ByEmail_query lookup_email_def
    by (auto dest!: user_one_execute execute_ok dest: email_query_read_only)
next
  case (13 e w er w')
  from user_one_execute [OF 13(1) [unfolded user_ByEmail_query]] obtain e1 where
      x: "execute (email_query e) w = (Inl e1, w')" "er = NotFoundOr (Wrapf ''select user'' [e1]) ''user''"
    by auto
  from NotFoundOr_missing [OF x(1), of "''select user''" "''user''"] 13(2) x(2)
  show ?case by (auto simp: email_query_def select_user_def lookup_email_def pg_encoding_error_def
      split: if_splits option.splits)
next
  case (14 w e)
  then show ?case
    by (auto simp: user_ByEmail_query user_one_def execute_quiet email_query_def select_user_def
        lookup_email_def NotFoundOr_def IsNoRows_def split: option.splits)
next
  case (15 i n w r w')
  then show ?case by (auto dest!: user_UpdateProfile_execute execute_same_process)
next
  case (16 i n w r w')
  then obtain r1 where "execute (update_display_name x i n) w = (r1, w')"
    by (auto dest: user_UpdateProfile_execute)
  then show ?case
    by (rule execute_invariant [where I = "\<lambda>d. users_wf (users d)"]) (use 16 users_wf_update in auto)
next
  case (17 i n w u' w')
  then have "update_display_name x i n (db_now w) (db w) = Inr (u', db w')"
    by (auto dest!: user_UpdateProfile_execute execute_ok)
  from this show ?case
    by (rule update_display_name_Inr)
      (auto simp: lookup_account_def first_row_update fun_eq_iff dest: first_row_Some
        intro!: option.map_ident_strong)
qed

end
