(* ===== verification/User_Service.thy ===== *)
theory User_Service
  imports User_Repo
begin

text \<open>
  \<open>internal/user/service.go\<close>: registration, login, refresh-token rotation with reuse detection,
  logout. The service is a record of its stores and settings, as in the code; published
  events are appended to the world's bus log, log lines to its \<open>app_log\<close>. The client lemmas are proved
  from the two store contracts alone (locale \<open>account_service\<close>) and then hold for the repositories.
\<close>

section \<open>The service\<close>

record user_svc =
  sv_users :: user_store
  sv_sessions :: session_store
  sv_hasher :: hasher
  sv_tokens :: token_service

definition user_NewService :: "user_store \<Rightarrow> session_store \<Rightarrow> hasher \<Rightarrow> token_service \<Rightarrow> user_svc" where
  "user_NewService us ss h ts = \<lparr>sv_users = us, sv_sessions = ss, sv_hasher = h, sv_tokens = ts\<rparr>"

record token_pair =
  tp_access :: string
  tp_refresh :: string
  tp_expires_at :: time
  tp_expires_in :: int
  tp_user :: user

record register_input =
  ri_email :: string
  ri_username :: string
  ri_display_name :: string
  ri_password :: string

definition NormalizeEmail :: "ext \<Rightarrow> string \<Rightarrow> string" where
  "NormalizeEmail x s = to_lower (unicode_lower x) (trim_space s)"

definition NormalizeUsername :: "ext \<Rightarrow> string \<Rightarrow> string" where
  "NormalizeUsername x s = to_lower (unicode_lower x) (trim_space s)"

definition maxUserAgentLen :: nat where "maxUserAgentLen = 512"

text \<open>The cut is at a byte, as in the code.\<close>

definition truncateUserAgent :: "string \<Rightarrow> string" where
  "truncateUserAgent ua = (if length ua \<le> maxUserAgentLen then ua else take maxUserAgentLen ua)"

text \<open>\<open>int64(d.Seconds())\<close> cuts towards zero.\<close>

definition whole_seconds :: "duration \<Rightarrow> int" where
  "whole_seconds d = (if d < 0 then - (- d div second) else d div second)"

definition user_event :: "ext \<Rightarrow> string \<Rightarrow> uuid \<Rightarrow> uuid \<Rightarrow> event" where
  "user_event x n a s = \<lparr>ev_name = n, ev_actor = uuid_string x a, ev_subject = uuid_string x s,
     ev_request = [], ev_time = None, ev_attrs = []\<rparr>"

definition Register :: "ext \<Rightarrow> user_svc \<Rightarrow> register_input \<Rightarrow> user prog" where
  "Register x sv i w =
    (case Hash x (sv_hasher sv) (ri_password i) w of
       (Inl e, w1) \<Rightarrow> (Inl (Internal (Wrapf ''hash password during registration'' [e])), w1)
     | (Inr h, w1) \<Rightarrow>
        (case new_uuid w1 of (uid, w2) \<Rightarrow>
          (let u = \<lparr>user_id = uid, email = NormalizeEmail x (ri_email i),
                    username = NormalizeUsername x (ri_username i),
                    display_name = trim_space (ri_display_name i), password_hash = h,
                    role = RoleUser, user_created = 0, user_updated = 0\<rparr> in
           (case us_Create (sv_users sv) u w2 of
              (Inl e, w3) \<Rightarrow> (Inl e, w3)
            | (Inr u', w3) \<Rightarrow> (Inr u', publish (user_event x ''user.registered'' (user_id u') (user_id u')) w3)))))"

definition errInvalidCredentials :: gerr where
  "errInvalidCredentials = Unauthorized ''invalid email or password''"

text \<open>The record \<open>issue\<close> and \<open>Refresh\<close> store for a freshly minted refresh token.\<close>

definition new_session :: "uuid \<Rightarrow> uuid \<Rightarrow> string \<Rightarrow> time \<Rightarrow> string \<Rightarrow> session" where
  "new_session sid uid digest expires ua =
    \<lparr>se_id = sid, se_user = uid, se_hash = digest, se_expires = expires, se_revoked = None,
     se_replaced = None, se_agent = truncateUserAgent ua, se_created = 0\<rparr>"

definition issue :: "ext \<Rightarrow> user_svc \<Rightarrow> user \<Rightarrow> string \<Rightarrow> token_pair prog" where
  "issue x sv u ua w =
    (case IssueAccessToken x (sv_tokens sv) (user_id u) (role u) w of
       (Inl e, w1) \<Rightarrow> (Inl (Internal e), w1)
     | (Inr (access, accessExp), w1) \<Rightarrow>
        (case NewRefreshToken x (sv_tokens sv) w1 of
           (Inl e, w2) \<Rightarrow> (Inl (Internal e), w2)
         | (Inr (plaintext, digest, refreshExp), w2) \<Rightarrow>
            (case new_uuid w2 of (sid, w3) \<Rightarrow>
              (case ss_Create (sv_sessions sv) (new_session sid (user_id u) digest refreshExp ua) w3 of
                 (Inl e, w4) \<Rightarrow> (Inl e, w4)
               | (Inr s, w4) \<Rightarrow>
                  (Inr \<lparr>tp_access = access, tp_refresh = plaintext, tp_expires_at = accessExp,
                        tp_expires_in = whole_seconds (accessTTL (sv_tokens sv)), tp_user = u\<rparr>, w4)))))"

definition Login :: "ext \<Rightarrow> user_svc \<Rightarrow> string \<Rightarrow> string \<Rightarrow> string \<Rightarrow> token_pair prog" where
  "Login x sv mail password ua w =
    (case us_ByEmail (sv_users sv) (NormalizeEmail x mail) w of
       (Inl e, w1) \<Rightarrow>
         (if IsCode e CodeNotFound
          then (Inl (WithCause errInvalidCredentials e), BurnComparison x password w1)
          else (Inl e, w1))
     | (Inr u, w1) \<Rightarrow>
        (case Verify x (password_hash u) password w1 of
           (Some e, w2) \<Rightarrow>
             (if errors_is e ErrInvalidPassword then (Inl (WithCause errInvalidCredentials e), w2)
              else (Inl (Internal (Wrapf (''verify password for user '' @ uuid_string x (user_id u)) [e])), w2))
         | (None, w2) \<Rightarrow>
            (case issue x sv u ua w2 of
               (Inl e, w3) \<Rightarrow> (Inl e, w3)
             | (Inr pair, w3) \<Rightarrow>
                (Inr pair, publish (user_event x ''user.logged_in'' (user_id u) (user_id u)) w3))))"

definition errInvalidRefresh :: gerr where
  "errInvalidRefresh = Unauthorized ''invalid or expired refresh token''"

definition reuse_line :: "ext \<Rightarrow> session \<Rightarrow> log_line" where
  "reuse_line x s = warn_line ''refresh token reuse detected; revoking all sessions''
     [Attr ''user_id'' (uuid_string x (se_user s)), Attr ''session_id'' (uuid_string x (se_id s))]"

definition revoke_failed_line :: "ext \<Rightarrow> session \<Rightarrow> gerr \<Rightarrow> log_line" where
  "revoke_failed_line x s e = error_line ''failed to revoke sessions after token reuse''
     [Attr ''user_id'' (uuid_string x (se_user s)), Attr ''error'' (error_text e)]"

definition Refresh :: "ext \<Rightarrow> user_svc \<Rightarrow> string \<Rightarrow> string \<Rightarrow> token_pair prog" where
  "Refresh x sv refreshToken ua w =
    (case ValidateRefreshTokenFormat refreshToken of
       Some e \<Rightarrow> (Inl (WithCause errInvalidRefresh e), w)
     | None \<Rightarrow>
      (let presented = HashRefreshToken x refreshToken in
       case ss_ByHash (sv_sessions sv) presented w of
         (Inl e, w1) \<Rightarrow>
           (if errors_is e ErrSessionNotFound then (Inl (WithCause errInvalidRefresh e), w1) else (Inl e, w1))
       | (Inr s, w1) \<Rightarrow>
          if \<not> Active s (clock w1)
          then (if se_revoked s \<noteq> None
                then (case ss_RevokeAllForUser (sv_sessions sv) (se_user s) (log_app (reuse_line x s) w1) of (r, w2) \<Rightarrow>
                  (Inl errInvalidRefresh,
                   publish (user_event x ''auth.refresh_token_reused'' (se_user s) (se_id s))
                     (case r of Inl e \<Rightarrow> log_app (revoke_failed_line x s e) w2 | Inr n \<Rightarrow> w2)))
                else (Inl errInvalidRefresh, w1))
          else
          (case us_ByID (sv_users sv) (se_user s) w1 of
             (Inl e, w2) \<Rightarrow>
               (if IsCode e CodeNotFound then (Inl (WithCause errInvalidRefresh e), w2) else (Inl e, w2))
           | (Inr u, w2) \<Rightarrow>
              (case NewRefreshToken x (sv_tokens sv) w2 of
                 (Inl e, w3) \<Rightarrow> (Inl (Internal e), w3)
               | (Inr (plaintext, digest, expiresAt), w3) \<Rightarrow>
                  (case new_uuid w3 of (sid, w4) \<Rightarrow>
                    (case ss_Rotate (sv_sessions sv) presented (new_session sid (user_id u) digest expiresAt ua) w4 of
                       (Inl e, w5) \<Rightarrow>
                         (if errors_is e ErrSessionNotFound then (Inl (WithCause errInvalidRefresh e), w5)
                          else (Inl e, w5))
                     | (Inr n, w5) \<Rightarrow>
                        (case IssueAccessToken x (sv_tokens sv) (user_id u) (role u) w5 of
                           (Inl e, w6) \<Rightarrow> (Inl (Internal e), w6)
                         | (Inr (access, accessExp), w6) \<Rightarrow>
                            (Inr \<lparr>tp_access = access, tp_refresh = plaintext, tp_expires_at = accessExp,
                                  tp_expires_in = whole_seconds (accessTTL (sv_tokens sv)), tp_user = u\<rparr>, w6))))))))"

definition Logout :: "ext \<Rightarrow> user_svc \<Rightarrow> string \<Rightarrow> unit prog" where
  "Logout x sv refreshToken w =
    (case ValidateRefreshTokenFormat refreshToken of
       Some e \<Rightarrow> (Inr (), w)
     | None \<Rightarrow> ss_Revoke (sv_sessions sv) (HashRefreshToken x refreshToken) w)"

definition LogoutAll :: "ext \<Rightarrow> user_svc \<Rightarrow> actor \<Rightarrow> nat prog" where
  "LogoutAll x sv a w =
    (case ss_RevokeAllForUser (sv_sessions sv) (actor_id a) w of
       (Inl e, w1) \<Rightarrow> (Inl e, w1)
     | (Inr n, w1) \<Rightarrow>
        (Inr n, publish ((user_event x ''user.logged_out_everywhere'' (actor_id a) (actor_id a))
                 \<lparr>ev_attrs := [(''sessions_revoked'', itoa (int n))]\<rparr>) w1))"

definition user_svc_ByID :: "user_svc \<Rightarrow> uuid \<Rightarrow> user prog" where
  "user_svc_ByID sv i = us_ByID (sv_users sv) i"

definition user_svc_UpdateProfile :: "user_svc \<Rightarrow> actor \<Rightarrow> string \<Rightarrow> user prog" where
  "user_svc_UpdateProfile sv a name = us_UpdateProfile (sv_users sv) (actor_id a) (trim_space name)"

section \<open>Histories\<close>

text \<open>
  Any sequence of account requests against one service, in any order, with any round-trip outcomes,
  the world free to move on between requests (clocks, entropy, network) as long as the tables stay.
\<close>

inductive account_step :: "ext \<Rightarrow> user_svc \<Rightarrow> world \<Rightarrow> world \<Rightarrow> bool" for x sv where
  register: "Register x sv i w = (r1, w') \<Longrightarrow> account_step x sv w w'"
| login: "Login x sv mail password ua w = (r2, w') \<Longrightarrow> account_step x sv w w'"
| refresh: "Refresh x sv tok ua w = (r2, w') \<Longrightarrow> account_step x sv w w'"
| logout: "Logout x sv tok w = (r3, w') \<Longrightarrow> account_step x sv w w'"
| logout_all: "LogoutAll x sv a w = (r4, w') \<Longrightarrow> account_step x sv w w'"
| profile: "user_svc_UpdateProfile sv a name w = (r1, w') \<Longrightarrow> account_step x sv w w'"
| idle: "db w' = db w \<Longrightarrow> account_step x sv w w'"

inductive_cases account_stepE: "account_step x sv w w'"

definition account_history :: "ext \<Rightarrow> user_svc \<Rightarrow> world \<Rightarrow> world \<Rightarrow> bool" where
  "account_history x sv = (account_step x sv)\<^sup>*\<^sup>*"

section \<open>Client lemmas\<close>

lemma publish_simps [simp]:
  "db (publish e w) = db w" "outcomes (publish e w) = outcomes w" "clock (publish e w) = clock w"
  "db_now (publish e w) = db_now w" "bcrypt_runs (publish e w) = bcrypt_runs w"
  "bus_log (publish e w) = bus_log w @ [e]"
  by (simp_all add: publish_def)

lemma BurnComparison_simps [simp]:
  "db (BurnComparison x p w) = db w" "outcomes (BurnComparison x p w) = outcomes w"
  "bcrypt_runs (BurnComparison x p w) = Suc (bcrypt_runs w)"
  by (simp_all add: BurnComparison_def Let_def)

lemma new_session_simps [simp]:
  "se_id (new_session i u d e a) = i" "se_user (new_session i u d e a) = u"
  "se_hash (new_session i u d e a) = d" "se_expires (new_session i u d e a) = e"
  "se_revoked (new_session i u d e a) = None"
  by (simp_all add: new_session_def)

lemma errInvalid_views [simp]:
  "client_view errInvalidRefresh = (CodeUnauthorized, 401, ''invalid or expired refresh token'', [])"
  "client_view (WithCause errInvalidRefresh e) = (CodeUnauthorized, 401, ''invalid or expired refresh token'', [])"
  "client_view (WithCause errInvalidCredentials e) = (CodeUnauthorized, 401, ''invalid email or password'', [])"
  by (simp_all add: errInvalidRefresh_def errInvalidCredentials_def client_view_def api_constructors)

lemma revoked_at_revoked [simp]: "se_revoked (revoked_at t s) \<noteq> None" "\<exists>y. se_revoked (revoked_at t s) = Some y"
  by (auto simp: revoked_at_def)

lemma revoked_at_user [simp]: "se_user (revoked_at t s) = se_user s"
  by (simp add: revoked_at_def)

lemma not_Active_revoked: "se_revoked s \<noteq> None \<Longrightarrow> \<not> Active s t"
  by (simp add: Active_def)

lemma NewRefreshToken_digest:
  "NewRefreshToken x s w = (Inr (plaintext, digest, expiresAt), w')
    \<Longrightarrow> digest = HashRefreshToken x plaintext \<and> expiresAt = clock w + refreshTTL s"
  by (auto simp: NewRefreshToken_def Let_def split: prod.splits)

locale account_service =
  S: session_contract "sv_sessions sv" lookup sinv +
  U: user_contract "sv_users sv" account by_email uinv storable
  for sv :: user_svc and lookup :: "world \<Rightarrow> string \<Rightarrow> session option" and sinv :: "world \<Rightarrow> bool"
    and account :: "world \<Rightarrow> uuid \<Rightarrow> user option" and by_email :: "world \<Rightarrow> string \<Rightarrow> user option"
    and uinv :: "world \<Rightarrow> bool" and storable :: "string \<Rightarrow> bool" +
  assumes create_keeps_sessions: "us_Create (sv_users sv) u w = (r, w') \<Longrightarrow> lookup w' = lookup w \<and> sinv w' = sinv w"
    and profile_keeps_sessions: "us_UpdateProfile (sv_users sv) i n w = (r, w') \<Longrightarrow> lookup w' = lookup w \<and> sinv w' = sinv w"
begin

text \<open>One predicate for what every operation does to the sessions.\<close>

definition keeps :: "world \<Rightarrow> world \<Rightarrow> bool" where
  "keeps w w' \<longleftrightarrow> (sinv w \<longrightarrow> sinv w' \<and> sessions_kept (lookup w) (lookup w'))"

lemma keeps_trans: "keeps w w1 \<Longrightarrow> keeps w1 w2 \<Longrightarrow> keeps w w2"
  by (auto simp: keeps_def intro: sessions_kept_trans)

lemma keeps_db: "db w' = db w \<Longrightarrow> keeps w w'"
  by (simp add: keeps_def S.lookup_same [of w' w] S.inv_same [of w' w])

lemma keeps_publish [simp]: "keeps w (publish e w') = keeps w w'"
  by (simp add: keeps_def S.lookup_same [of "publish e w'" w'] S.inv_same [of "publish e w'" w'])

lemma keeps_log [simp]: "keeps w (log_app l w') = keeps w w'" "keeps (log_app l w) w' = keeps w w'"
  by (simp_all add: keeps_def S.lookup_same [of "log_app l w'" w'] S.inv_same [of "log_app l w'" w']
    S.lookup_same [of "log_app l w" w] S.inv_same [of "log_app l w" w])

lemma reads_keep:
  "IssueAccessToken x ts u rl w = (r1, w1) \<Longrightarrow> keeps w w1"
  "NewRefreshToken x ts w = (r2, w1) \<Longrightarrow> keeps w w1"
  "new_uuid w = (i, w1) \<Longrightarrow> keeps w w1"
  "Hash x h p w = (r3, w1) \<Longrightarrow> keeps w w1"
  "Verify x d p w = (r4, w1) \<Longrightarrow> keeps w w1"
  "us_ByID (sv_users sv) u w = (r5, w1) \<Longrightarrow> keeps w w1"
  "us_ByEmail (sv_users sv) e w = (r5, w1) \<Longrightarrow> keeps w w1"
  "ss_ByHash (sv_sessions sv) hh w = (r6, w1) \<Longrightarrow> keeps w w1"
  by (auto intro!: keeps_db dest!: IssueAccessToken_frame NewRefreshToken_frame new_uuid_frame Hash_frame
        Verify_frame dest: U.byid_frame U.byemail_frame S.byhash_frame)

lemma writes_keep:
  "us_Create (sv_users sv) a w = (r5, w1) \<Longrightarrow> keeps w w1"
  "us_UpdateProfile (sv_users sv) u n w = (r5, w1) \<Longrightarrow> keeps w w1"
  "ss_Create (sv_sessions sv) s w = (r6, w1) \<Longrightarrow> keeps w w1"
  "ss_Rotate (sv_sessions sv) hh s w = (r6, w1) \<Longrightarrow> keeps w w1"
  "ss_Revoke (sv_sessions sv) hh w = (r7, w1) \<Longrightarrow> keeps w w1"
  "ss_RevokeAllForUser (sv_sessions sv) u w = (r8, w1) \<Longrightarrow> keeps w w1"
  by (auto simp: keeps_def dest: create_keeps_sessions profile_keeps_sessions S.create_keeps S.create_inv
        S.rotate_keeps S.rotate_inv S.revoke_keeps S.revoke_inv S.revoke_all_keeps S.revoke_all_inv)

lemmas calls_keep = reads_keep writes_keep

lemma Burn_keeps: "keeps w (BurnComparison x p w') = keeps w w'"
  by (simp add: keeps_def S.lookup_same [of "BurnComparison x p w'" w'] S.inv_same [of "BurnComparison x p w'" w'])

lemma keeps_refl [simp]: "keeps w w"
  by (rule keeps_db) simp

lemma issue_keeps: "issue x sv u ua w = (r, w') \<Longrightarrow> keeps w w'"
  by (auto simp: issue_def split: sum.splits prod.splits dest!: calls_keep intro: keeps_trans)

lemma operations_keep:
  "Register x sv i w = (r1, w') \<Longrightarrow> keeps w w'"
  "Login x sv mail password ua w = (r2, w') \<Longrightarrow> keeps w w'"
  "Refresh x sv tok ua w = (r2, w') \<Longrightarrow> keeps w w'"
  "Logout x sv tok w = (r3, w') \<Longrightarrow> keeps w w'"
  "LogoutAll x sv a w = (r4, w') \<Longrightarrow> keeps w w'"
  "user_svc_UpdateProfile sv a name w = (r1, w') \<Longrightarrow> keeps w w'"
  by (auto simp: Register_def Login_def Refresh_def Logout_def LogoutAll_def user_svc_UpdateProfile_def Let_def
        Burn_keeps split: sum.splits prod.splits option.splits if_splits
      dest!: calls_keep issue_keeps) (meson keeps_trans)+

lemma step_keeps: "account_step x sv w w' \<Longrightarrow> keeps w w'"
  by (erule account_stepE) (auto dest: operations_keep intro: keeps_db)

lemma history_keeps: "account_history x sv w w' \<Longrightarrow> keeps w w'"
  unfolding account_history_def by (induction rule: rtranclp_induct) (auto dest: step_keeps intro: keeps_trans)

lemma dead_forever:
  assumes "sinv w" "lookup w h = Some s" "se_revoked s \<noteq> None" "account_history x sv w w'"
  shows "\<exists>s'. lookup w' h = Some s' \<and> se_user s' = se_user s \<and> se_revoked s' \<noteq> None"
  using history_keeps [OF assms(4)] assms(1-3)
  by (auto simp: keeps_def outlives_def dest: sessions_kept_Some)

lemma Refresh_dead:
  assumes "lookup w (HashRefreshToken x tok) = Some s" "se_revoked s \<noteq> None"
    and "Refresh x sv tok ua w = (r, w')"
  shows "\<exists>e. r = Inl e"
  using assms
  by (auto simp: Refresh_def Let_def not_Active_revoked split: sum.splits prod.splits option.splits if_splits
      dest!: S.byhash_ok)

lemma Refresh_Inr:
  assumes "Refresh x sv tok ua w = (Inr p, w')"
  obtains s w1 u w2 dg expires w3 sid w4 n w5 where
    "ValidateRefreshTokenFormat tok = None"
    "ss_ByHash (sv_sessions sv) (HashRefreshToken x tok) w = (Inr s, w1)" "Active s (clock w1)"
    "us_ByID (sv_users sv) (se_user s) w1 = (Inr u, w2)"
    "NewRefreshToken x (sv_tokens sv) w2 = (Inr (tp_refresh p, dg, expires), w3)"
    "new_uuid w3 = (sid, w4)"
    "ss_Rotate (sv_sessions sv) (HashRefreshToken x tok)
        (new_session sid (user_id u) dg expires ua) w4 = (Inr n, w5)"
    "IssueAccessToken x (sv_tokens sv) (user_id u) (role u) w5 = (Inr (tp_access p, tp_expires_at p), w')"
    "tp_user p = u"
  using assms unfolding Refresh_def Let_def
  by (auto split: sum.splits prod.splits option.splits if_splits)
lemma Refresh_rotates:
  assumes "sinv w" and r: "Refresh x sv tok ua w = (Inr p, w')"
  shows "\<exists>s u n. lookup w (HashRefreshToken x tok) = Some s \<and> Active s (clock w) \<and> Active s (db_now w)
    \<and> account w (se_user s) = Some u \<and> tp_user p = u
    \<and> lookup w (HashRefreshToken x (tp_refresh p)) = None
    \<and> se_user n = se_user s \<and> se_revoked n = None \<and> se_expires n = clock w + refreshTTL (sv_tokens sv)
    \<and> lookup w' = (lookup w)(HashRefreshToken x (tp_refresh p) \<mapsto> n,
        HashRefreshToken x tok \<mapsto> s\<lparr>se_revoked := Some (db_now w), se_replaced := Some (se_id n)\<rparr>)
    \<and> sinv w'"
proof -
  from r obtain s w1 u w2 dg expires w3 sid w4 n w5 where
      bh: "ss_ByHash (sv_sessions sv) (HashRefreshToken x tok) w = (Inr s, w1)" and act: "Active s (clock w1)"
    and bi: "us_ByID (sv_users sv) (se_user s) w1 = (Inr u, w2)"
    and nr: "NewRefreshToken x (sv_tokens sv) w2 = (Inr (tp_refresh p, dg, expires), w3)"
    and nu: "new_uuid w3 = (sid, w4)"
    and ro: "ss_Rotate (sv_sessions sv) (HashRefreshToken x tok)
        (new_session sid (user_id u) dg expires ua) w4 = (Inr n, w5)"
    and ia: "IssueAccessToken x (sv_tokens sv) (user_id u) (role u) w5 = (Inr (tp_access p, tp_expires_at p), w')"
    and tu: "tp_user p = u"
    by (rule Refresh_Inr)
  note dg = NewRefreshToken_digest [OF nr]
  note frames = S.byhash_frame [OF bh] U.byid_frame [OF bi] NewRefreshToken_frame [OF nr]
    new_uuid_frame [OF nu] IssueAccessToken_frame [OF ia]
  then have same: "db w1 = db w" "db w4 = db w" "db_now w4 = db_now w" "clock w1 = clock w" "clock w2 = clock w"
    by (simp_all add: same_process_def)
  have l: "lookup w4 = lookup w" "account w1 = account w" "sinv w4 = sinv w" "lookup w' = lookup w5" "sinv w' = sinv w5"
    using same frames by (auto simp: S.lookup_same [of w4 w] U.view_same [of w1 w] S.inv_same [of w4 w]
        S.lookup_same [of w' w5] S.inv_same [of w' w5])
  have s: "lookup w (HashRefreshToken x tok) = Some s" by (rule S.byhash_ok [OF bh])
  have u: "account w (se_user s) = Some u" using U.byid_ok [OF bi] l by simp
  then have uid: "user_id u = se_user s" by (rule U.account_id)
  have ex: "expires = clock w + refreshTTL (sv_tokens sv)"
    using dg same by simp
  from S.rotate_ok [OF ro, of s] S.rotate_inv [OF ro] assms(1) l s same uid ex act tu u dg
  show ?thesis by (intro exI [of _ s] exI [of _ u] exI [of _ n]) simp
qed

lemma Refresh_reuse:
  assumes "sinv w" "outcomes w = []" "ValidateRefreshTokenFormat tok = None"
    and s: "lookup w (HashRefreshToken x tok) = Some s" "se_revoked s \<noteq> None"
    and r: "Refresh x sv tok ua w = (r, w')"
  shows "r = Inl errInvalidRefresh
    \<and> bus_log w' = bus_log w @ [user_event x ''auth.refresh_token_reused'' (se_user s) (se_id s)]
    \<and> lookup w' = (\<lambda>h. map_option (\<lambda>q. if se_user q = se_user s then revoked_at (db_now w) q else q) (lookup w h))"
proof -
  have bh: "ss_ByHash (sv_sessions sv) (HashRefreshToken x tok) w = (Inr s, w)"
    by (rule S.byhash_quiet [OF assms(2) s(1)])
  let ?w = "log_app (reuse_line x s) w"
  have "outcomes ?w = []" "sinv ?w" "lookup ?w = lookup w" using assms(1,2) S.inv_same [of ?w w] S.lookup_same [of ?w w] by simp_all
  moreover from this(1) obtain k v where k: "ss_RevokeAllForUser (sv_sessions sv) (se_user s) ?w = (Inr k, v)"
    using S.revoke_all_quiet [of ?w "se_user s"] by blast
  moreover have "r = Inl errInvalidRefresh"
      "w' = publish (user_event x ''auth.refresh_token_reused'' (se_user s) (se_id s)) v"
    using r s(2) by (auto simp: Refresh_def Let_def assms(3) bh k not_Active_revoked)
  ultimately show ?thesis using S.revoke_all_ok [OF k] S.revoke_all_frame [OF k]
    by (simp add: same_process_def S.lookup_same [of "publish e v" v for e] cong: if_cong)
qed

lemma Logout_ends:
  assumes "sinv w" "Logout x sv tok w = (Inr un, w')" "ValidateRefreshTokenFormat tok = None"
  shows "lookup w' = (lookup w)(HashRefreshToken x tok :=
     map_option (revoked_at (db_now w)) (lookup w (HashRefreshToken x tok)))"
  using assms by (auto simp: Logout_def dest: S.revoke_ok)

lemma LogoutAll_ends:
  assumes "sinv w" "LogoutAll x sv a w = (Inr k, w')"
  shows "lookup w' = (\<lambda>h. map_option (\<lambda>s. if se_user s = actor_id a then revoked_at (db_now w) s else s) (lookup w h))"
proof -
  from assms(2) obtain v e where v: "ss_RevokeAllForUser (sv_sessions sv) (actor_id a) w = (Inr k, v)" "w' = publish e v"
    by (auto simp: LogoutAll_def split: sum.splits prod.splits)
  with S.revoke_all_ok [OF v(1) assms(1)] show ?thesis
    by (simp add: S.lookup_same [of "publish e v" v])
qed

lemma Login_Inr:
  assumes "Login x sv mail password ua w = (Inr p, w')"
  obtains w1 w2 w3 dg expires w4 sid w5 s w6 u w7 where
    "us_ByEmail (sv_users sv) (NormalizeEmail x mail) w = (Inr u, w1)"
    "Verify x (password_hash u) password w1 = (None, w2)"
    "IssueAccessToken x (sv_tokens sv) (user_id u) (role u) w2 = (Inr (tp_access p, tp_expires_at p), w3)"
    "NewRefreshToken x (sv_tokens sv) w3 = (Inr (tp_refresh p, dg, expires), w4)"
    "new_uuid w4 = (sid, w5)"
    "ss_Create (sv_sessions sv) (new_session sid (user_id u) dg expires ua) w5 = (Inr s, w6)"
    "tp_user p = u" "w' = publish (user_event x ''user.logged_in'' (user_id u) (user_id u)) w6"
  using assms unfolding Login_def issue_def
  by (auto split: sum.splits prod.splits option.splits if_splits)
lemma Login_opens_one_session:
  assumes "sinv w" and r: "Login x sv mail password ua w = (Inr p, w')"
  shows "\<exists>u s. by_email w (NormalizeEmail x mail) = Some u \<and> tp_user p = u
    \<and> bcrypt_compare x (password_hash u) password = None
    \<and> lookup w (HashRefreshToken x (tp_refresh p)) = None
    \<and> se_user s = user_id u \<and> se_revoked s = None \<and> se_expires s = clock w + refreshTTL (sv_tokens sv)
    \<and> lookup w' = (lookup w)(HashRefreshToken x (tp_refresh p) \<mapsto> s)"
proof -
  from r obtain w1 w2 w3 dg expires w4 sid w5 s w6 u where
      be: "us_ByEmail (sv_users sv) (NormalizeEmail x mail) w = (Inr u, w1)"
    and ve: "Verify x (password_hash u) password w1 = (None, w2)"
    and ia: "IssueAccessToken x (sv_tokens sv) (user_id u) (role u) w2 = (Inr (tp_access p, tp_expires_at p), w3)"
    and nr: "NewRefreshToken x (sv_tokens sv) w3 = (Inr (tp_refresh p, dg, expires), w4)"
    and nu: "new_uuid w4 = (sid, w5)"
    and sc: "ss_Create (sv_sessions sv) (new_session sid (user_id u) dg expires ua) w5 = (Inr s, w6)"
    and tu: "tp_user p = u" and w': "w' = publish (user_event x ''user.logged_in'' (user_id u) (user_id u)) w6"
    by (rule Login_Inr)
  note dg = NewRefreshToken_digest [OF nr]
  note frames = U.byemail_frame [OF be] Verify_frame [OF ve] IssueAccessToken_frame [OF ia]
    NewRefreshToken_frame [OF nr] new_uuid_frame [OF nu]
  then have same: "db w5 = db w" "clock w3 = clock w" by (simp_all add: same_process_def)
  have l: "lookup w5 = lookup w" "sinv w5 = sinv w" "lookup w' = lookup w6"
    using same by (simp_all add: S.lookup_same [of w5 w] S.inv_same [of w5 w] w' S.lookup_same [of "publish e w6" w6 for e])
  have ok: "bcrypt_compare x (password_hash u) password = None"
    using ve by (auto simp: Verify_def split: option.splits if_splits)
  from S.create_ok [OF sc] assms(1) l U.byemail_ok [OF be] ok tu dg same
  show ?thesis by (intro exI [of _ u] exI [of _ s]) simp
qed

lemma Login_refused_quietly:
  assumes "outcomes w = []" "storable (NormalizeEmail x mail)"
    and why: "case by_email w (NormalizeEmail x mail) of None \<Rightarrow> True
      | Some u \<Rightarrow> bcrypt_compare x (password_hash u) password = Some (Sentinel ErrMismatchedHashAndPassword)"
    and r: "Login x sv mail password ua w = (r, w')"
  shows "\<exists>e. r = Inl e \<and> client_view e = (CodeUnauthorized, 401, ''invalid email or password'', [])
    \<and> db w' = db w \<and> bus_log w' = bus_log w \<and> bcrypt_runs w' = Suc (bcrypt_runs w)"
proof (cases "by_email w (NormalizeEmail x mail)")
  case None
  with U.byemail_quiet [OF assms(1,2)] obtain er where
      "us_ByEmail (sv_users sv) (NormalizeEmail x mail) w = (Inl er, w)" "IsCode er CodeNotFound" by auto
  with r show ?thesis by (auto simp: Login_def BurnComparison_def Let_def)
next
  case (Some u)
  with U.byemail_quiet [OF assms(1,2)] have
      "us_ByEmail (sv_users sv) (NormalizeEmail x mail) w = (Inr u, w)" by simp
  with r Some why show ?thesis by (auto simp: Login_def Verify_def)
qed

lemma Register_Inr:
  assumes "uinv w" and r: "Register x sv i w = (Inr u, w')"
  shows "role u = RoleUser \<and> email u = NormalizeEmail x (ri_email i)
    \<and> username u = NormalizeUsername x (ri_username i) \<and> display_name u = trim_space (ri_display_name i)
    \<and> (\<exists>n. bcrypt_generate x n (cost (sv_hasher sv)) (ri_password i) = Inr (password_hash u))
    \<and> account w (user_id u) = None \<and> by_email w (email u) = None
    \<and> account w' = (account w)(user_id u \<mapsto> u) \<and> by_email w' = (by_email w)(email u \<mapsto> u)"
proof -
  from r obtain h w1 uid w2 v w3 e where
      h: "Hash x (sv_hasher sv) (ri_password i) w = (Inr h, w1)" and nu: "new_uuid w1 = (uid, w2)"
    and v: "v = \<lparr>user_id = uid, email = NormalizeEmail x (ri_email i),
                    username = NormalizeUsername x (ri_username i),
                    display_name = trim_space (ri_display_name i), password_hash = h,
                    role = RoleUser, user_created = 0, user_updated = 0\<rparr>"
    and uc: "us_Create (sv_users sv) v w2 = (Inr u, w3)" and w': "w' = publish e w3"
    by (auto simp: Register_def Let_def split: sum.splits prod.splits)
  have g: "\<exists>n. bcrypt_generate x n (cost (sv_hasher sv)) (ri_password i) = Inr h"
    using h by (auto simp: Hash_def split: if_splits sum.splits)
  have same: "db w2 = db w" using Hash_frame [OF h] new_uuid_frame [OF nu] by simp
  then have view: "account w2 = account w" "by_email w2 = by_email w" "account w' = account w3" "by_email w' = by_email w3"
    using U.view_same [of w2 w] U.view_same [of w' w3] w' by simp_all
  have "uinv w2" using assms(1) same U.inv_same [of w2 w] by simp
  from U.create_ok [OF uc this] g view v show ?thesis by simp
qed

end

section \<open>The service over the repositories\<close>

definition blog_accounts :: "ext \<Rightarrow> hasher \<Rightarrow> token_service \<Rightarrow> user_svc" where
  "blog_accounts x h ts = user_NewService (user_repository x) session_repository h ts"

lemma blog_accounts_simps [simp]:
  "sv_users (blog_accounts x h ts) = user_repository x" "sv_sessions (blog_accounts x h ts) = session_repository"
  "sv_hasher (blog_accounts x h ts) = h" "sv_tokens (blog_accounts x h ts) = ts"
  by (simp_all add: blog_accounts_def user_NewService_def)

lemma account_writes_keep_tokens:
  "user_Create x u w = (r, w') \<Longrightarrow> tokens (db w') = tokens (db w)"
  "user_UpdateProfile x i n w = (r, w') \<Longrightarrow> tokens (db w') = tokens (db w)"
  by (auto dest!: user_Create_execute user_UpdateProfile_execute
      elim!: execute_cases update_display_name_Inr dest!: insert_user_Inr(2))

interpretation account_svc: account_service "blog_accounts x h ts" lookup_session
  "\<lambda>w. tokens_wf (tokens (db w))" lookup_account lookup_email "\<lambda>w. users_wf (users (db w))" pg_text
  for x h ts
proof (intro account_service.intro account_service_axioms.intro, unfold blog_accounts_simps user_repository_simps)
  show "session_contract session_repository lookup_session (\<lambda>w. tokens_wf (tokens (db w)))"
    by (rule sessions.session_contract_axioms)
  show "user_contract (user_repository x) lookup_account lookup_email (\<lambda>w. users_wf (users (db w))) pg_text"
    by (rule accounts.user_contract_axioms)
qed (auto simp: lookup_session_def fun_eq_iff dest: account_writes_keep_tokens)

section \<open>Properties\<close>

text \<open>C4: a refresh token is good for one exchange. Once it has been exchanged, no sequence of account
  requests by anybody, with any network outcomes in between, makes it work again.\<close>

theorem refresh_token_is_single_use:
  assumes "tokens_wf (tokens (db w))"
    and "Refresh x (blog_accounts x h ts) tok ua w = (Inr p, w1)"
    and "account_history x (blog_accounts x h ts) w1 w2"
    and "Refresh x (blog_accounts x h ts) tok ua' w2 = (r, w3)"
  shows "\<exists>e. r = Inl e"
proof -
  from account_svc.Refresh_rotates [OF assms(1,2)] obtain s where
      "lookup_session w1 (HashRefreshToken x tok) = Some s" "se_revoked s \<noteq> None" "tokens_wf (tokens (db w1))"
    by auto
  with account_svc.dead_forever [OF _ _ _ assms(3)] account_svc.Refresh_dead [OF _ _ assms(4)]
  show ?thesis by blast
qed

text \<open>C26: a successful refresh acts on one live session: its owner is the account the new pair is for,
  it is revoked and points at its replacement, which is live, has the same owner and is found under
  the digest of the new refresh token; every other session is untouched.\<close>

theorem refresh_rotates_one_session:
  assumes "tokens_wf (tokens (db w))"
    and "Refresh x (blog_accounts x h ts) tok ua w = (Inr p, w')"
  shows "\<exists>s u n. lookup_session w (HashRefreshToken x tok) = Some s \<and> Active s (clock w) \<and> Active s (db_now w)
    \<and> lookup_account w (se_user s) = Some u \<and> tp_user p = u
    \<and> lookup_session w (HashRefreshToken x (tp_refresh p)) = None
    \<and> se_user n = se_user s \<and> se_revoked n = None \<and> se_expires n = clock w + refreshTTL ts
    \<and> lookup_session w' = (lookup_session w)(HashRefreshToken x (tp_refresh p) \<mapsto> n,
        HashRefreshToken x tok \<mapsto> s\<lparr>se_revoked := Some (db_now w), se_replaced := Some (se_id n)\<rparr>)"
  using account_svc.Refresh_rotates [OF assms] by auto

text \<open>C6: presenting a refresh token that was already exchanged or revoked is answered like any other
  invalid token, is announced on the bus, and ends every session of the account it belonged to, and
  no session of anyone else.\<close>

theorem token_reuse_ends_all_sessions:
  assumes "tokens_wf (tokens (db w))" "outcomes w = []" "ValidateRefreshTokenFormat tok = None"
    and "lookup_session w (HashRefreshToken x tok) = Some s" "se_revoked s \<noteq> None"
    and "Refresh x (blog_accounts x h ts) tok ua w = (r, w')"
  shows "(\<exists>e. r = Inl e \<and> client_view e = (CodeUnauthorized, 401, ''invalid or expired refresh token'', []))
    \<and> map ev_name (bus_log w') = map ev_name (bus_log w) @ [''auth.refresh_token_reused'']
    \<and> (\<forall>g q. lookup_session w' g = Some q \<longrightarrow> se_user q = se_user s \<longrightarrow> (\<forall>t. \<not> Active q t))
    \<and> (\<forall>g q. lookup_session w g = Some q \<longrightarrow> se_user q \<noteq> se_user s \<longrightarrow> lookup_session w' g = Some q)"
  using account_svc.Refresh_reuse [OF assms]
  by (auto simp: user_event_def not_Active_revoked) (metis not_Active_revoked revoked_at_revoked(1))

text \<open>A login that succeeds has checked the password against the hash stored for the normalised
  address, and has opened exactly one session, for that account, under the digest of the refresh
  token it returns.\<close>

theorem login_opens_one_session:
  assumes "tokens_wf (tokens (db w))"
    and "Login x (blog_accounts x h ts) mail password ua w = (Inr p, w')"
  shows "\<exists>u s. lookup_email w (NormalizeEmail x mail) = Some u \<and> tp_user p = u
    \<and> bcrypt_compare x (password_hash u) password = None
    \<and> lookup_session w (HashRefreshToken x (tp_refresh p)) = None
    \<and> se_user s = user_id u \<and> se_revoked s = None \<and> se_expires s = clock w + refreshTTL ts
    \<and> lookup_session w' = (lookup_session w)(HashRefreshToken x (tp_refresh p) \<mapsto> s)"
  using account_svc.Login_opens_one_session [OF assms] by simp


text \<open>Registration creates one account, always with the ordinary role and with the normalised
  address and name, that nobody had before; its stored hash accepts the chosen password and no
  other, and every other account is untouched.\<close>

theorem registration_creates_ordinary_account:
  assumes "users_wf (users (db w))" "bcrypt_documented x"
    and "Register x (blog_accounts x h ts) i w = (Inr u, w')"
  shows "role u = RoleUser \<and> email u = NormalizeEmail x (ri_email i)
    \<and> username u = NormalizeUsername x (ri_username i)
    \<and> lookup_account w (user_id u) = None \<and> lookup_email w (email u) = None
    \<and> lookup_account w' = (lookup_account w)(user_id u \<mapsto> u)
    \<and> lookup_email w' = (lookup_email w)(email u \<mapsto> u)
    \<and> (\<forall>q. bcrypt_compare x (password_hash u) q = None \<longleftrightarrow> q = ri_password i)"
proof -
  note reg = account_svc.Register_Inr [OF assms(1,3)]
  then obtain n where "bcrypt_generate x n (cost h) (ri_password i) = Inr (password_hash u)" by auto
  with assms(2) have "bcrypt_compare x (password_hash u) q =
      (if ri_password i = q then None else Some (Sentinel ErrMismatchedHashAndPassword))" for q
    unfolding bcrypt_documented_def by blast
  with reg show ?thesis by auto
qed

text \<open>C27: after a logout the token it named, and after a logout everywhere every token of the account,
  can never again be exchanged, whatever happens later.\<close>

theorem logout_is_final:
  assumes "tokens_wf (tokens (db w))" "lookup_session w (HashRefreshToken x tok) = Some s"
    and "Logout x (blog_accounts x h ts) tok w = (Inr (), w1) \<and> ValidateRefreshTokenFormat tok = None
      \<or> LogoutAll x (blog_accounts x h ts) a w = (Inr k, w1) \<and> actor_id a = se_user s"
    and "account_history x (blog_accounts x h ts) w1 w2"
    and "Refresh x (blog_accounts x h ts) tok ua w2 = (r, w3)"
  shows "\<exists>e. r = Inl e"
proof -
  have "lookup_session w1 (HashRefreshToken x tok) = Some (revoked_at (db_now w) s)"
    using assms(2,3) account_svc.Logout_ends [OF assms(1)] account_svc.LogoutAll_ends [OF assms(1)] by auto
  moreover have "tokens_wf (tokens (db w1))"
    using assms(1,3) by (auto dest!: account_svc.operations_keep(4,5) simp: account_svc.keeps_def)
  ultimately show ?thesis
    using account_svc.dead_forever [OF _ _ _ assms(4)] account_svc.Refresh_dead [OF _ _ assms(5)]
    by (metis revoked_at_revoked(1))
qed

section \<open>Witnesses\<close>

definition ann :: user where
  "ann = \<lparr>user_id = 7, email = ''ann@x.io'', username = ''ann'', display_name = ''Ann'',
     password_hash = hash_tag @ ''correct horse'', role = RoleUser, user_created = 0, user_updated = 0\<rparr>"

definition anns_token :: string where
  "anns_token = ''a2tra2tra2tra2tra2tra2tra2tra2tra2tra2tra2s''"

definition anns_session :: token_row where
  "anns_session = \<lparr>rt_id = 5, rt_user = 7, rt_hash = pad_to 32 anns_token, rt_expires = 9000 * second,
     rt_revoked = None, rt_replaced = None, rt_agent = None, rt_created = 0\<rparr>"

definition ann_world :: world where
  "ann_world = empty_world\<lparr>db := \<lparr>users = [ann], posts = [], comments = [], tokens = [anns_session]\<rparr>,
     uuid_stream := (\<lambda>n. 1), entropy := (\<lambda>n. CHR ''z'')\<rparr>"

definition spent_world :: world where
  "spent_world = ann_world\<lparr>db := (db ann_world)\<lparr>tokens :=
     [anns_session\<lparr>rt_revoked := Some (500 * second)\<rparr>, anns_session\<lparr>rt_id := 6, rt_hash := ''other''\<rparr>]\<rparr>\<rparr>"

abbreviation sample_accounts :: user_svc where
  "sample_accounts \<equiv> blog_accounts sample_jwt (NewHasher 12) sample_service"

lemma ann_world_wf: "tokens_wf (tokens (db ann_world))" "users_wf (users (db ann_world))"
    "tokens_wf (tokens (db spent_world))"
  by (simp_all add: tokens_wf_def users_wf_def ann_world_def spent_world_def anns_session_def anns_token_def pad_to_def)

lemma sample_encodings: "RawURLEncode (replicate 32 (CHR ''k'')) = anns_token"
  "RawURLEncode (replicate 32 (CHR ''z'')) = ''enp6enp6enp6enp6enp6enp6enp6enp6enp6enp6eno''"
  by code_simp+
lemma anns_token_ok: "ValidateRefreshTokenFormat anns_token = None" 
  by (simp add: sample_encodings [symmetric] ValidateRefreshTokenFormat_def RawURLDecode_encode refreshTokenBytes_def)

lemmas sample_runs = ann_world_def spent_world_def ann_def anns_session_def 
  session_ByHash_def user_ByID_def user_one_def execute_quiet select_token_def select_user_def
  scanSession_def Active_def HashRefreshToken_def NewRefreshToken_def rand_read_def
  refreshTokenBytes_def new_uuid_def pad_to_def 

lemma ann_mints: "NewRefreshToken sample_jwt sample_service ann_world
   = (Inr (''enp6enp6enp6enp6enp6enp6enp6enp6enp6enp6eno'', ''enp6enp6enp6enp6enp6enp6enp6enp6'', 2593000 * second),
      ann_world\<lparr>entropy_next := 32\<rparr>)"
  by (simp add: sample_runs Let_def map_replicate_const sample_encodings sample_defs second_def)

lemma ann_found: "session_ByHash (HashRefreshToken sample_jwt anns_token) ann_world = (Inr (scanSession anns_session), ann_world)"
  "user_ByID 7 ann_world = (Inr ann, ann_world)"
  by (simp_all add: sample_runs anns_token_def sample_defs)

lemma curl_text: "valid_utf8 ''curl''" "rune_count ''curl'' = 4"
  by (simp_all add: valid_utf8_def rune_count_def rune_error_def)

lemma ann_rotates: "\<exists>n d. session_Rotate (HashRefreshToken sample_jwt anns_token)
    (new_session 1 7 ''enp6enp6enp6enp6enp6enp6enp6enp6'' (2593000 * second) ''curl'')
    (ann_world\<lparr>entropy_next := 32, uuid_next := Suc 0\<rparr>)
   = (Inr n, ann_world\<lparr>entropy_next := 32, uuid_next := Suc 0, db := d\<rparr>)"
  by (simp add: session_Rotate_def InTx_def begin_tx_def round_trip_no_outcomes sample_runs anns_token_def
      sample_defs insert_token_def Let_def token_of_def tokens_checks_def new_session_def revoke_replaced_def
      rotatable_def second_def truncateUserAgent_def maxUserAgentLen_def pg_text_def curl_text)

lemma ann_gets_access: "IssueAccessToken sample_jwt sample_service 7 RoleUser
    (ann_world\<lparr>entropy_next := 32, uuid_next := Suc 0, db := d\<rparr>)
   = (Inr (''signed-token'', 1900 * second), ann_world\<lparr>entropy_next := 32, uuid_next := Suc (Suc 0), db := d\<rparr>)"
  by (simp add: IssueAccessToken_def new_uuid_def Let_def sample_defs ann_world_def signingMethod_def second_def)

lemma ann_facts [simp]: "user_id ann = 7" "role ann = RoleUser" "rt_user anns_session = 7"
  "Active (scanSession anns_session) (clock ann_world)"
  by (simp_all add: ann_def anns_session_def Active_def ann_world_def empty_world_def second_def)

lemma ann_refreshes: "\<exists>p w. Refresh sample_jwt sample_accounts anns_token ''curl'' ann_world = (Inr p, w)
    \<and> tp_user p = ann"
proof -
  obtain n d where r: "session_Rotate (HashRefreshToken sample_jwt anns_token)
      (new_session 1 7 ''enp6enp6enp6enp6enp6enp6enp6enp6'' (2593000 * second) ''curl'')
      (ann_world\<lparr>entropy_next := 32, uuid_next := Suc 0\<rparr>)
     = (Inr n, ann_world\<lparr>entropy_next := 32, uuid_next := Suc 0, db := d\<rparr>)"
    using ann_rotates by blast
  have u: "new_uuid (ann_world\<lparr>entropy_next := 32\<rparr>) = (1, ann_world\<lparr>entropy_next := 32, uuid_next := Suc 0\<rparr>)"
    by (simp add: new_uuid_def ann_world_def empty_world_def)
  show ?thesis
    by (simp add: Refresh_def anns_token_ok ann_found ann_mints u r ann_gets_access)
qed

theorem refresh_token_is_single_use_witness:
  "\<exists>p w e w'. Refresh sample_jwt sample_accounts anns_token ''curl'' ann_world = (Inr p, w)
    \<and> Refresh sample_jwt sample_accounts anns_token ''curl'' w = (Inl e, w')"
proof -
  obtain p w where r: "Refresh sample_jwt sample_accounts anns_token ''curl'' ann_world = (Inr p, w)"
    using ann_refreshes by blast
  obtain r' w' where r': "Refresh sample_jwt sample_accounts anns_token ''curl'' w = (r', w')" by fastforce
  have "account_history sample_jwt sample_accounts w w" by (simp add: account_history_def)
  from refresh_token_is_single_use [OF ann_world_wf(1) r this r'] r r' show ?thesis by blast
qed

theorem refresh_rotates_one_session_witness:
  "\<exists>p w n. Refresh sample_jwt sample_accounts anns_token ''curl'' ann_world = (Inr p, w)
    \<and> lookup_session w (HashRefreshToken sample_jwt (tp_refresh p)) = Some n \<and> se_revoked n = None"
proof -
  obtain p w where r: "Refresh sample_jwt sample_accounts anns_token ''curl'' ann_world = (Inr p, w)"
    using ann_refreshes by blast
  from refresh_rotates_one_session [OF ann_world_wf(1) r] r show ?thesis by fastforce
qed

theorem token_reuse_ends_all_sessions_witness:
  "\<exists>r w. Refresh sample_jwt sample_accounts anns_token ''curl'' spent_world = (r, w)
    \<and> lookup_session spent_world ''other'' \<noteq> None
    \<and> (\<forall>q t. lookup_session w ''other'' = Some q \<longrightarrow> se_user q = 7 \<longrightarrow> \<not> Active q t)"
proof -
  obtain r w where r: "Refresh sample_jwt sample_accounts anns_token ''curl'' spent_world = (r, w)" by fastforce
  have s: "lookup_session spent_world (HashRefreshToken sample_jwt anns_token)
      = Some (scanSession (anns_session\<lparr>rt_revoked := Some (500 * second)\<rparr>))"
    by (simp add: lookup_session_def sample_runs anns_token_def sample_defs)
  have o': "outcomes spent_world = []" by (simp add: sample_runs empty_world_def)
  have "lookup_session spent_world ''other'' \<noteq> None"
    by (simp add: lookup_session_def sample_runs anns_token_def)
  with token_reuse_ends_all_sessions [OF ann_world_wf(3) o' anns_token_ok s _ r] r show ?thesis
    by (auto simp: anns_session_def)
qed

lemma ann_looked_up: "lookup_email ann_world ''ann@x.io'' = Some ann" "outcomes ann_world = []"
  by (simp add: lookup_email_def ann_world_def ann_def, simp add: sample_runs empty_world_def)

lemma ascii_chars: "char_of (97::nat) = CHR ''a''" "char_of (110::nat) = CHR ''n''" "char_of (64::nat) = CHR ''@''"
    "char_of (120::nat) = CHR ''x''" "char_of (46::nat) = CHR ''.''" "char_of (105::nat) = CHR ''i''"
    "char_of (111::nat) = CHR ''o''"
  by (simp_all add: char_of_def bit_iff_odd)

lemma anns_email: "NormalizeEmail sample_jwt '' Ann@x.io'' = ''ann@x.io''" "pg_text ''ann@x.io''"
    "NormalizeUsername sample_jwt ''Ann'' = ''ann''" "trim_space ''Ann '' = ''Ann''"
  by (simp_all add: NormalizeEmail_def NormalizeUsername_def trim_space_def trim_both_def is_space_def to_lower_def
      runes_def lower_rune_def encode_rune_def Let_def pg_text_def valid_utf8_def rune_error_def ascii_chars)

lemma ann_session_created: "\<exists>n d. session_Create
    (new_session 1 7 ''enp6enp6enp6enp6enp6enp6enp6enp6'' (2593000 * second) ''curl'')
    (ann_world\<lparr>bcrypt_runs := Suc 0, uuid_next := Suc (Suc 0), entropy_next := 32\<rparr>)
   = (Inr n, ann_world\<lparr>bcrypt_runs := Suc 0, entropy_next := 32, uuid_next := Suc (Suc 0), db := d\<rparr>)"
  by (simp add: session_Create_def sample_runs anns_token_def
      sample_defs insert_token_def Let_def token_of_def tokens_checks_def new_session_def second_def
      truncateUserAgent_def maxUserAgentLen_def pg_text_def curl_text)

lemma ann_by_email: "user_ByEmail ''ann@x.io'' ann_world = (Inr ann, ann_world)"
  by (simp add: user_ByEmail_def anns_email sample_runs empty_world_def)

lemma ann_logs_in: "\<exists>p w. Login sample_jwt sample_accounts '' Ann@x.io'' ''correct horse'' ''curl'' ann_world = (Inr p, w)
    \<and> tp_user p = ann \<and> tp_access p = ''signed-token''"
proof -
  obtain n d where c: "session_Create
    (new_session 1 7 ''enp6enp6enp6enp6enp6enp6enp6enp6'' (2593000 * second) ''curl'')
    (ann_world\<lparr>bcrypt_runs := Suc 0, uuid_next := Suc (Suc 0), entropy_next := 32\<rparr>)
   = (Inr n, ann_world\<lparr>bcrypt_runs := Suc 0, entropy_next := 32, uuid_next := Suc (Suc 0), db := d\<rparr>)"
    using ann_session_created by blast
  have v: "Verify sample_jwt (password_hash ann) ''correct horse'' ann_world = (None, ann_world\<lparr>bcrypt_runs := Suc 0\<rparr>)"
    by (simp add: Verify_def sample_jwt_def sample_ext_def ann_def ann_world_def empty_world_def)
  have i: "IssueAccessToken sample_jwt sample_service 7 RoleUser (ann_world\<lparr>bcrypt_runs := Suc 0\<rparr>)
      = (Inr (''signed-token'', 1900 * second), ann_world\<lparr>bcrypt_runs := Suc 0, uuid_next := Suc 0\<rparr>)"
    by (simp add: IssueAccessToken_def new_uuid_def Let_def sample_defs ann_world_def signingMethod_def second_def)
  have m: "NewRefreshToken sample_jwt sample_service (ann_world\<lparr>bcrypt_runs := Suc 0, uuid_next := Suc 0\<rparr>)
      = (Inr (''enp6enp6enp6enp6enp6enp6enp6enp6enp6enp6eno'', ''enp6enp6enp6enp6enp6enp6enp6enp6'', 2593000 * second),
         ann_world\<lparr>bcrypt_runs := Suc 0, uuid_next := Suc 0, entropy_next := 32\<rparr>)"
    by (simp add: sample_runs Let_def map_replicate_const sample_encodings sample_defs second_def)
  have u: "new_uuid (ann_world\<lparr>bcrypt_runs := Suc 0, uuid_next := Suc 0, entropy_next := 32\<rparr>)
      = (1, ann_world\<lparr>bcrypt_runs := Suc 0, uuid_next := Suc (Suc 0), entropy_next := 32\<rparr>)"
    by (simp add: new_uuid_def ann_world_def empty_world_def)
  show ?thesis by (simp add: Login_def issue_def anns_email ann_by_email v i m u c)
qed

theorem login_opens_one_session_witness:
  "\<exists>p w. Login sample_jwt sample_accounts '' Ann@x.io'' ''correct horse'' ''curl'' ann_world = (Inr p, w)
    \<and> tp_user p = ann \<and> lookup_session w (HashRefreshToken sample_jwt (tp_refresh p)) \<noteq> None"
proof -
  obtain p w where r: "Login sample_jwt sample_accounts '' Ann@x.io'' ''correct horse'' ''curl'' ann_world = (Inr p, w)"
    using ann_logs_in by blast
  from login_opens_one_session [OF ann_world_wf(1) r] r show ?thesis by (auto simp: anns_email ann_looked_up)
qed


definition anns_registration :: register_input where
  "anns_registration = \<lparr>ri_email = '' Ann@x.io'', ri_username = ''Ann'', ri_display_name = ''Ann '', ri_password = ''correct horse''\<rparr>"

lemma ann_text: "valid_utf8 ''ann@x.io''" "valid_utf8 ''ann''" "valid_utf8 ''Ann''" "valid_utf8 RoleUser"
    "valid_utf8 (hash_tag @ ''correct horse'')" "rune_count ''ann@x.io'' = 8" "rune_count ''Ann'' = 3"
    "rune_count (hash_tag @ ''correct horse'') = 34" "email_pattern ''ann@x.io''"
  by (simp_all add: valid_utf8_def rune_count_def rune_error_def RoleUser_def hash_tag_def email_pattern_def pg_space_def)

lemma ann_passes_checks: "first_violated (users_checks sample_jwt (ann\<lparr>user_id := i, user_created := t, user_updated := t\<rparr>)) = None"
  by (simp add: users_checks_def ann_def ann_text btrim_def trim_char_def trim_both_def username_char_def
      is_digit_def sample_jwt_def sample_ext_def RoleUser_def)

lemma ann_registers: "\<exists>u w. Register sample_jwt sample_accounts anns_registration empty_world = (Inr u, w)"
proof -
  let ?w = "empty_world\<lparr>bcrypt_runs := Suc 0\<rparr>" and ?w2 = "empty_world\<lparr>bcrypt_runs := Suc 0, uuid_next := Suc 0\<rparr>"
  have h: "Hash sample_jwt (NewHasher 12) ''correct horse'' empty_world = (Inr (hash_tag @ ''correct horse''), ?w)"
    by (simp add: Hash_def MaxPasswordBytes_def sample_jwt_def sample_ext_def empty_world_def)
  have u: "new_uuid ?w = (1, ?w2)" by (simp add: new_uuid_def empty_world_def)
  have a: "\<lparr>user_id = 1, email = ''ann@x.io'', username = ''ann'', display_name = ''Ann'',
     password_hash = hash_tag @ ''correct horse'', role = RoleUser, user_created = 0, user_updated = 0\<rparr> = ann\<lparr>user_id := 1\<rparr>"
    by (simp add: ann_def)
  have t: "list_all pg_text [email ann, username ann, display_name ann, password_hash ann, role ann]"
    by (simp add: ann_def pg_text_def ann_text) (simp add: hash_tag_def RoleUser_def)
  have "\<exists>v w. user_Create sample_jwt (ann\<lparr>user_id := 1\<rparr>) ?w2 = (Inr v, w)"
    using t by (simp add: user_Create_def execute_quiet insert_user_def ann_passes_checks Let_def empty_world_def)
  then show ?thesis
    by (auto simp: Register_def anns_registration_def h u anns_email a)
qed

theorem registration_creates_ordinary_account_witness:
  "\<exists>u w. Register sample_jwt sample_accounts anns_registration empty_world = (Inr u, w)
    \<and> role u = RoleUser \<and> lookup_email w ''ann@x.io'' = Some u
    \<and> bcrypt_compare sample_jwt (password_hash u) ''correct horse'' = None"
proof -
  obtain u w where r: "Register sample_jwt sample_accounts anns_registration empty_world = (Inr u, w)"
    using ann_registers by blast
  have "users_wf (users (db empty_world))" by (simp add: users_wf_def empty_world_def)
  from registration_creates_ordinary_account [OF this _ r] r show ?thesis
    by (auto simp: sample_jwt_def sample_ext_laws anns_registration_def anns_email [unfolded sample_jwt_def])
qed

theorem logout_is_final_witness:
  "\<exists>w e w'. Logout sample_jwt sample_accounts anns_token ann_world = (Inr (), w)
    \<and> Refresh sample_jwt sample_accounts anns_token ''curl'' w = (Inl e, w')"
proof -
  obtain w where l: "Logout sample_jwt sample_accounts anns_token ann_world = (Inr (), w)"
    by (simp add: Logout_def anns_token_ok session_Revoke_def execute_quiet revoke_where_def ann_looked_up(2))
  obtain r w' where r: "Refresh sample_jwt sample_accounts anns_token ''curl'' w = (r, w')" by fastforce
  have s: "lookup_session ann_world (HashRefreshToken sample_jwt anns_token) = Some (scanSession anns_session)"
    by (simp add: lookup_session_def sample_runs anns_token_def sample_defs)
  have h: "account_history sample_jwt sample_accounts w w" by (simp add: account_history_def)
  have "Logout sample_jwt sample_accounts anns_token ann_world = (Inr (), w) \<and> ValidateRefreshTokenFormat anns_token = None
      \<or> LogoutAll sample_jwt sample_accounts \<lparr>actor_id = 7, actor_role = RoleUser\<rparr> ann_world = (Inr 0, w)
        \<and> actor_id \<lparr>actor_id = 7, actor_role = RoleUser\<rparr> = se_user (scanSession anns_session)"
    using l anns_token_ok by simp
  from logout_is_final [OF ann_world_wf(1) s this h r] l r show ?thesis by blast
qed

end
