(* ===== verification/Paging.thy ===== *)
theory Paging
  imports Apierr
begin

text \<open>
  \<open>internal/platform/httpx/pagination.go\<close>. Go's \<open>int\<close> has 64 bits on the platforms the program is
  built for; \<open>Offset\<close> multiplies in that width (\<open>wrap64\<close>). A query string is the list of its
  decoded pairs. Lemmas: the range of a parsed request, exactness of the offset, and that the
  pages announced by the metadata partition a result.
\<close>

definition wrap64 :: "int \<Rightarrow> int" where
  "wrap64 z = (z + 2 ^ 63) mod 2 ^ 64 - 2 ^ 63"

lemma wrap64_id: "min_int64 \<le> z \<Longrightarrow> z \<le> max_int64 \<Longrightarrow> wrap64 z = z"
  by (simp add: wrap64_def min_int64_def max_int64_def)

lemma wrap64_range: "min_int64 \<le> wrap64 z \<and> wrap64 z \<le> max_int64"
  using pos_mod_bound [of "2 ^ 64" "z + 2 ^ 63"] pos_mod_sign [of "2 ^ 64" "z + 2 ^ 63"]
  by (simp add: wrap64_def min_int64_def max_int64_def)

definition DefaultPageSize :: int where "DefaultPageSize = 20"
definition MaxPageSize :: int where "MaxPageSize = 100"

record page_request =
  pg_page :: int
  pg_limit :: int

definition Offset :: "page_request \<Rightarrow> int" where
  "Offset p = wrap64 (wrap64 (pg_page p - 1) * pg_limit p)"

record pagination =
  pn_page :: int
  pn_limit :: int
  pn_total_items :: int
  pn_total_pages :: int
  pn_has_next :: bool
  pn_has_prev :: bool

text \<open>Go's integer division cuts towards zero.\<close>

definition quot :: "int \<Rightarrow> int \<Rightarrow> int" where
  "quot a b = (if (a < 0) = (b < 0) then \<bar>a\<bar> div \<bar>b\<bar> else - (\<bar>a\<bar> div \<bar>b\<bar>))"

definition NewPagination :: "page_request \<Rightarrow> int \<Rightarrow> pagination" where
  "NewPagination req n =
    (let totalPages = (if n > 0 then quot (wrap64 (n + pg_limit req - 1)) (pg_limit req) else 0) in
     \<lparr>pn_page = pg_page req, pn_limit = pg_limit req, pn_total_items = n, pn_total_pages = totalPages,
      pn_has_next = (pg_page req < totalPages), pn_has_prev = (pg_page req > 1 \<and> n > 0)\<rparr>)"

type_synonym query = "(string \<times> string) list"

text \<open>\<open>url.Values.Get\<close>: the first value, or the empty string.\<close>

definition query_get :: "query \<Rightarrow> string \<Rightarrow> string" where
  "query_get q k = (case map_of q k of None \<Rightarrow> [] | Some v \<Rightarrow> v)"

text \<open>One parameter: its value (or the default when absent) and the errors it adds.\<close>

definition parse_page :: "string \<Rightarrow> int \<times> field_error list" where
  "parse_page raw =
    (if raw = [] then (1, [])
     else (case atoi raw of
        None \<Rightarrow> (1, [\<lparr>fe_field = ''page'', fe_message = ''must be an integer''\<rparr>])
      | Some v \<Rightarrow> if v < 1 then (1, [\<lparr>fe_field = ''page'', fe_message = ''must be greater than or equal to 1''\<rparr>])
                  else (v, [])))"

definition parse_limit :: "string \<Rightarrow> int \<times> field_error list" where
  "parse_limit raw =
    (if raw = [] then (DefaultPageSize, [])
     else (case atoi raw of
        None \<Rightarrow> (DefaultPageSize, [\<lparr>fe_field = ''limit'', fe_message = ''must be an integer''\<rparr>])
      | Some v \<Rightarrow>
          if v < 1 then (DefaultPageSize, [\<lparr>fe_field = ''limit'', fe_message = ''must be greater than or equal to 1''\<rparr>])
          else if v > MaxPageSize
          then (DefaultPageSize, [\<lparr>fe_field = ''limit'',
                  fe_message = ''must be less than or equal to '' @ itoa MaxPageSize\<rparr>])
          else (v, [])))"

definition ParsePageRequest :: "query \<Rightarrow> gerr + page_request" where
  "ParsePageRequest q =
    (let (pg, e1) = parse_page (query_get q ''page''); (lim, e2) = parse_limit (query_get q ''limit'') in
     if e1 @ e2 \<noteq> [] then Inl (Validation (e1 @ e2)) else Inr \<lparr>pg_page = pg, pg_limit = lim\<rparr>)"

section \<open>Lemmas\<close>

lemma parse_page_ok: "parse_page raw = (v, []) \<Longrightarrow> 1 \<le> v \<and> v \<le> max_int64"
  by (auto simp: parse_page_def max_int64_def split: if_splits option.splits dest: atoi_range)

lemma parse_limit_ok: "parse_limit raw = (v, []) \<Longrightarrow> 1 \<le> v \<and> v \<le> MaxPageSize"
  by (auto simp: parse_limit_def DefaultPageSize_def MaxPageSize_def split: if_splits option.splits)

lemma ParsePageRequest_ok:
  "ParsePageRequest q = Inr r \<Longrightarrow>
    1 \<le> pg_page r \<and> pg_page r \<le> max_int64 \<and> 1 \<le> pg_limit r \<and> pg_limit r \<le> MaxPageSize"
  by (auto simp: ParsePageRequest_def Let_def split: prod.splits if_splits
      dest: parse_page_ok parse_limit_ok)

lemma Offset_exact:
  assumes "1 \<le> pg_page r" "pg_page r \<le> max_int64" "1 \<le> pg_limit r"
    and "(pg_page r - 1) * pg_limit r \<le> max_int64"
  shows "Offset r = (pg_page r - 1) * pg_limit r"
proof -
  have "wrap64 (pg_page r - 1) = pg_page r - 1"
    using assms(1,2) by (intro wrap64_id) (auto simp: min_int64_def max_int64_def)
  moreover have "0 \<le> (pg_page r - 1) * pg_limit r" using assms(1,3) by simp
  then have "wrap64 ((pg_page r - 1) * pg_limit r) = (pg_page r - 1) * pg_limit r"
    using assms(4) by (intro wrap64_id) (auto simp: min_int64_def)
  ultimately show ?thesis by (simp add: Offset_def)
qed

lemma Offset_small:
  assumes "1 \<le> pg_page r" "pg_page r \<le> 2 ^ 56" "1 \<le> pg_limit r" "pg_limit r \<le> MaxPageSize"
  shows "Offset r = (pg_page r - 1) * pg_limit r"
proof (rule Offset_exact)
  have "(pg_page r - 1) * pg_limit r \<le> 2 ^ 56 * 100"
    using assms by (intro mult_mono) (auto simp: MaxPageSize_def)
  then show "(pg_page r - 1) * pg_limit r \<le> max_int64" by (simp add: max_int64_def)
qed (use assms in \<open>auto simp: max_int64_def\<close>)

text \<open>The rows \<open>LIMIT\<close> and \<open>OFFSET\<close> select.\<close>

definition slice :: "page_request \<Rightarrow> 'r list \<Rightarrow> 'r list" where
  "slice r rows = take (nat (pg_limit r)) (drop (nat (Offset r)) rows)"

lemma slice_set: "set (slice r rows) \<subseteq> set rows"
  unfolding slice_def by (meson order_trans set_drop_subset set_take_subset)

lemma length_slice: "length (slice r rows) \<le> nat (pg_limit r)"
  by (simp add: slice_def)

lemma slices_append:
  assumes "0 < l"
  shows "concat (map (\<lambda>p. take l (drop (p * l) rows)) [0..<n]) = take (n * l) rows"
proof (induction n)
  case 0
  show ?case by simp
next
  case (Suc n)
  then show ?case by (simp add: take_add [symmetric] add.commute)
qed

lemma ceil_div: "0 < l \<Longrightarrow> 0 < (t :: nat) \<Longrightarrow> t \<le> ((t + l - 1) div l) * l"
  using div_mult_mod_eq [of "t + l - 1" l] mod_less_divisor [of l "t + l - 1"] by linarith

lemma total_pages:
  assumes "1 \<le> pg_limit r" "pg_limit r \<le> MaxPageSize" "int t \<le> 2 ^ 56"
  shows "pn_total_pages (NewPagination r (int t)) = int ((t + nat (pg_limit r) - 1) div nat (pg_limit r))"
proof (cases "t = 0")
  case False
  define l where "l = nat (pg_limit r)"
  have l: "pg_limit r = int l" "1 \<le> l" "l \<le> 100" using assms(1,2) by (auto simp: l_def MaxPageSize_def)
  have "wrap64 (int t + int l - 1) = int t + int l - 1"
    using assms(3) l False by (intro wrap64_id) (auto simp: min_int64_def max_int64_def)
  also have "\<dots> = int (t + l - 1)" using False by (simp add: of_nat_diff)
  finally show ?thesis
    using False l by (simp add: NewPagination_def Let_def quot_def zdiv_int l_def [symmetric])
qed (use assms in \<open>simp add: NewPagination_def\<close>)

section \<open>Properties\<close>

text \<open>Whatever the query string, a page request that is accepted has a page and a limit within the
  bounds, and every value outside them is refused as a validation error rather than corrected.\<close>

theorem page_request_is_bounded:
  "(\<forall>r. ParsePageRequest q = Inr r \<longrightarrow> 1 \<le> pg_page r \<and> 1 \<le> pg_limit r \<and> pg_limit r \<le> MaxPageSize
      \<and> (query_get q ''limit'' = [] \<longrightarrow> pg_limit r = DefaultPageSize)
      \<and> (query_get q ''limit'' \<noteq> [] \<longrightarrow> atoi (query_get q ''limit'') = Some (pg_limit r))
      \<and> (query_get q ''page'' \<noteq> [] \<longrightarrow> atoi (query_get q ''page'') = Some (pg_page r)))
   \<and> (\<forall>e. ParsePageRequest q = Inl e \<longrightarrow> err_code e = CodeValidation \<and> err_fields e \<noteq> [])"
proof (intro conjI allI impI)
  fix r assume r: "ParsePageRequest q = Inr r"
  show "1 \<le> pg_page r" "1 \<le> pg_limit r" "pg_limit r \<le> MaxPageSize"
    using ParsePageRequest_ok [OF r] by simp_all
  show "query_get q ''limit'' = [] \<Longrightarrow> pg_limit r = DefaultPageSize"
    "query_get q ''limit'' \<noteq> [] \<Longrightarrow> atoi (query_get q ''limit'') = Some (pg_limit r)"
    "query_get q ''page'' \<noteq> [] \<Longrightarrow> atoi (query_get q ''page'') = Some (pg_page r)"
    using r by (auto simp: ParsePageRequest_def Let_def parse_page_def parse_limit_def
        split: prod.splits if_splits option.splits)
next
  fix e assume "ParsePageRequest q = Inl e"
  then show "err_code e = CodeValidation" "err_fields e \<noteq> []"
    by (auto simp: ParsePageRequest_def Let_def Validation_def split: prod.splits if_splits)
qed

lemma concat_pages:
  assumes "1 \<le> l" "l \<le> MaxPageSize" "n \<le> 2 ^ 56"
  shows "concat (map (\<lambda>p. slice \<lparr>pg_page = p, pg_limit = l\<rparr> rows) [1..int n]) = take (n * nat l) rows"
proof -
  have "slice \<lparr>pg_page = int p + 1, pg_limit = l\<rparr> rows = take (nat l) (drop (p * nat l) rows)" if "p < n" for p
    using Offset_small [of "\<lparr>pg_page = int p + 1, pg_limit = l\<rparr>"] assms that
    by (simp add: slice_def nat_mult_distrib)
  then have m: "map (\<lambda>p. slice \<lparr>pg_page = int p + 1, pg_limit = l\<rparr> rows) [0..<n]
      = map (\<lambda>p. take (nat l) (drop (p * nat l) rows)) [0..<n]" by simp
  moreover have "[1..int n] = map (\<lambda>p. int p + 1) [0..<n]"
    by (rule nth_equalityI) auto
  ultimately show ?thesis using slices_append [of "nat l" rows n] assms(1) m by (simp only: map_map comp_def)
qed

text \<open>C39: for a result of up to 2^50 rows, walking the pages the metadata announces, 1 to total_pages,
  yields every row exactly once and in order, and has_next says of each page whether the next one
  has a row.\<close>

theorem pages_partition_the_result:
  assumes "1 \<le> l" "l \<le> MaxPageSize" "length rows \<le> 2 ^ 50"
  shows "concat (map (\<lambda>p. slice \<lparr>pg_page = p, pg_limit = l\<rparr> rows)
      [1..pn_total_pages (NewPagination \<lparr>pg_page = 1, pg_limit = l\<rparr> (int (length rows)))]) = rows
    \<and> (\<forall>p \<in> {1..2 ^ 50}. pn_has_next (NewPagination \<lparr>pg_page = p, pg_limit = l\<rparr> (int (length rows)))
         \<longleftrightarrow> slice \<lparr>pg_page = p + 1, pg_limit = l\<rparr> rows \<noteq> [])"
proof -
  let ?L = "nat l"
  define n where "n = (length rows + ?L - 1) div ?L"
  have L: "1 \<le> ?L" "l = int ?L" using assms(1) by auto
  have t: "pn_total_pages (NewPagination \<lparr>pg_page = p, pg_limit = l\<rparr> (int (length rows))) = int n" for p
    using total_pages [of "\<lparr>pg_page = p, pg_limit = l\<rparr>" "length rows"] assms by (simp add: n_def)
  have n_le: "n \<le> 2 ^ 56"
  proof -
    have "n \<le> length rows + ?L - 1" unfolding n_def by (rule div_le_dividend)
    with assms show ?thesis by (auto simp: MaxPageSize_def)
  qed
  have cover: "length rows \<le> n * ?L"
    using ceil_div [of ?L "length rows"] L by (cases "length rows = 0") (auto simp: n_def)
  have "(p < int n) = (slice \<lparr>pg_page = p + 1, pg_limit = l\<rparr> rows \<noteq> [])" if p: "1 \<le> p" "p \<le> 2 ^ 50" for p
  proof -
    have "slice \<lparr>pg_page = p + 1, pg_limit = l\<rparr> rows = take ?L (drop (nat p * ?L) rows)"
      using Offset_small [of "\<lparr>pg_page = p + 1, pg_limit = l\<rparr>"] assms p
      by (simp add: slice_def nat_mult_distrib)
    then have "(slice \<lparr>pg_page = p + 1, pg_limit = l\<rparr> rows \<noteq> []) = (nat p * ?L < length rows)"
      using L by auto
    also have "\<dots> = (nat p < n)"
      using L less_eq_div_iff_mult_less_eq [of ?L "Suc (nat p)" "length rows + ?L - 1"]
      unfolding n_def Suc_le_eq by auto
    finally show ?thesis using p by auto
  qed
  moreover have "pn_has_next (NewPagination \<lparr>pg_page = p, pg_limit = l\<rparr> (int (length rows))) = (p < int n)" for p
    using t [of p] by (simp add: NewPagination_def Let_def)
  ultimately show ?thesis using t concat_pages [OF assms(1,2) n_le, of rows] cover by simp
qed

theorem pages_partition_the_result_witness:
  "concat (map (\<lambda>p. slice \<lparr>pg_page = p, pg_limit = 2\<rparr> ''abcde'')
     [1..pn_total_pages (NewPagination \<lparr>pg_page = 1, pg_limit = 2\<rparr> 5)]) = ''abcde''"
  using pages_partition_the_result [of 2 "''abcde''"] by (simp add: MaxPageSize_def)

lemma atoi_samples: "atoi ''3'' = Some 3" "atoi ''50'' = Some 50"
  by (simp_all add: atoi_def is_digit_def digits_value_def digit_value_def min_int64_def max_int64_def)

lemma sample_page: "ParsePageRequest [(''page'', ''3''), (''limit'', ''50'')] = Inr \<lparr>pg_page = 3, pg_limit = 50\<rparr>"
  by (simp add: ParsePageRequest_def parse_page_def parse_limit_def query_get_def atoi_samples MaxPageSize_def)

theorem page_request_is_bounded_witness:
  "\<exists>r. ParsePageRequest [(''page'', ''3''), (''limit'', ''50'')] = Inr r
     \<and> pg_limit r \<le> MaxPageSize \<and> atoi ''50'' = Some (pg_limit r)"
  using page_request_is_bounded [of "[(''page'', ''3''), (''limit'', ''50'')]"] sample_page
  by (auto simp: query_get_def)

text \<open>
  The bound on the page matters: the largest pages the parser accepts overflow the offset, which
  can come out negative, or small again, so that page 2^62 + 1 shows the first rows.
\<close>

lemma Offset_overflows:
  "Offset \<lparr>pg_page = 461168601842738792, pg_limit = 20\<rparr> < 0"
  "Offset \<lparr>pg_page = 2 ^ 62 + 1, pg_limit = 20\<rparr> = 0"
  by (simp_all add: Offset_def wrap64_def)

end
