(* ===== verification/Blog.thy ===== *)
theory Blog
  imports Database Paging "HOL-Library.Product_Lexorder"
begin

text \<open>
  What the post and the comment component share: how a stored row is read as a domain value, the
  orders of the two listings, and the well-formedness of the blog's tables, with the statement that
  the denormalised \<open>comment_count\<close> of every live post is the number of its live comments.
\<close>

section \<open>Rows as domain values\<close>

definition author_row :: "database \<Rightarrow> uuid \<Rightarrow> user option" where
  "author_row d i = first_row (\<lambda>u. user_id u = i) (users d)"

definition plain_post :: "post_row \<Rightarrow> post" where
  "plain_post r = \<lparr>post_id = pr_id r, post_author = pr_author r, title = pr_title r, slug = pr_slug r,
     post_content = pr_content r, status = pr_status r, comment_count = pr_count r,
     published_at = pr_published r, post_created = pr_created r, post_updated = pr_updated r,
     author_summary = None\<rparr>"

definition scanPost :: "post_row \<Rightarrow> user \<Rightarrow> post" where
  "scanPost r u = (plain_post r)\<lparr>author_summary := Some (Summary u)\<rparr>"

definition plain_comment :: "comment_row \<Rightarrow> cmt" where
  "plain_comment r = \<lparr>cmt_id = cr_id r, cmt_post = cr_post r, cmt_author = cr_author r, parent_id = cr_parent r,
     cmt_content = cr_content r, cmt_created = cr_created r, cmt_updated = cr_updated r,
     cmt_author_summary = None\<rparr>"

definition scanComment :: "comment_row \<Rightarrow> user \<Rightarrow> cmt" where
  "scanComment r u = (plain_comment r)\<lparr>cmt_author_summary := Some (Summary u)\<rparr>"

text \<open>\<open>JOIN users u ON u.id = author_id\<close>.\<close>

definition join_author :: "('r \<Rightarrow> user \<Rightarrow> 'v) \<Rightarrow> ('r \<Rightarrow> uuid) \<Rightarrow> database \<Rightarrow> 'r \<Rightarrow> 'v option" where
  "join_author scan author d r = map_option (scan r) (author_row d (author r))"

definition live_row :: "database \<Rightarrow> uuid \<Rightarrow> post_row option" where
  "live_row d i = first_row (\<lambda>r. pr_id r = i \<and> post_live r) (posts d)"

definition live_comment_row :: "database \<Rightarrow> uuid \<Rightarrow> comment_row option" where
  "live_comment_row d i = first_row (\<lambda>r. cr_id r = i \<and> comment_live r) (comments d)"

definition live_post :: "world \<Rightarrow> uuid \<Rightarrow> post option" where
  "live_post w i = map_option plain_post (live_row (db w) i)"

definition live_comment :: "world \<Rightarrow> uuid \<Rightarrow> cmt option" where
  "live_comment w i = map_option plain_comment (live_comment_row (db w) i)"

lemma plain_post_simps [simp]:
  "post_id (plain_post r) = pr_id r" "post_author (plain_post r) = pr_author r" "slug (plain_post r) = pr_slug r"
  "title (plain_post r) = pr_title r" "post_content (plain_post r) = pr_content r"
  "status (plain_post r) = pr_status r" "comment_count (plain_post r) = pr_count r"
  "published_at (plain_post r) = pr_published r" "post_created (plain_post r) = pr_created r"
  "post_updated (plain_post r) = pr_updated r" "author_summary (plain_post r) = None"
  by (simp_all add: plain_post_def)

lemma plain_comment_simps [simp]:
  "cmt_id (plain_comment c) = cr_id c" "cmt_post (plain_comment c) = cr_post c"
  "cmt_author (plain_comment c) = cr_author c" "parent_id (plain_comment c) = cr_parent c"
  "cmt_content (plain_comment c) = cr_content c" "cmt_created (plain_comment c) = cr_created c"
  "cmt_updated (plain_comment c) = cr_updated c" "cmt_author_summary (plain_comment c) = None"
  by (simp_all add: plain_comment_def)

lemma scan_plain [simp]:
  "(scanPost r u)\<lparr>author_summary := None\<rparr> = plain_post r"
  "(scanComment c u)\<lparr>cmt_author_summary := None\<rparr> = plain_comment c"
  by (simp_all add: scanPost_def scanComment_def plain_post_def plain_comment_def)

section \<open>Well-formed tables\<close>

definition live_comments_of :: "uuid \<Rightarrow> comment_row \<Rightarrow> bool" where
  "live_comments_of i c \<longleftrightarrow> cr_post c = i \<and> comment_live c"

definition counts_agree :: "database \<Rightarrow> bool" where
  "counts_agree d \<longleftrightarrow> (\<forall>r \<in> set (posts d). post_live r \<longrightarrow>
     pr_count r = int (count_where (live_comments_of (pr_id r)) (comments d)))"

definition posts_wf :: "database \<Rightarrow> bool" where
  "posts_wf d \<longleftrightarrow> distinct (map pr_id (posts d)) \<and> distinct (map pr_slug (filter post_live (posts d)))
     \<and> (\<forall>r \<in> set (posts d). pr_author r \<in> user_id ` set (users d) \<and> first_violated (posts_checks r) = None)"

definition comment_row_wf :: "database \<Rightarrow> comment_row \<Rightarrow> bool" where
  "comment_row_wf d c \<longleftrightarrow> cr_author c \<in> user_id ` set (users d) \<and> first_violated (comments_checks c) = None
     \<and> (\<exists>r \<in> set (posts d). pr_id r = cr_post c \<and> (comment_live c \<longrightarrow> post_live r))
     \<and> (case cr_parent c of None \<Rightarrow> True
        | Some p \<Rightarrow> (\<exists>q \<in> set (comments d). cr_id q = p \<and> cr_post q = cr_post c))"

text \<open>A reply is stored after the comment it replies to, so threads cannot be circular.\<close>

fun parents_first :: "uuid set \<Rightarrow> comment_row list \<Rightarrow> bool" where
  "parents_first seen [] = True"
| "parents_first seen (c # cs) =
    ((case cr_parent c of None \<Rightarrow> True | Some p \<Rightarrow> p \<in> seen) \<and> parents_first (insert (cr_id c) seen) cs)"

definition comments_wf :: "database \<Rightarrow> bool" where
  "comments_wf d \<longleftrightarrow> distinct (map cr_id (comments d)) \<and> parents_first {} (comments d)
     \<and> (\<forall>c \<in> set (comments d). comment_row_wf d c)"

lemma parents_first_append:
  "parents_first seen (cs @ [c]) \<longleftrightarrow> parents_first seen cs
     \<and> (case cr_parent c of None \<Rightarrow> True | Some p \<Rightarrow> p \<in> seen \<union> cr_id ` set cs)"
  by (induction cs arbitrary: seen) (auto split: option.splits)

lemma parents_first_update:
  assumes "\<And>c. cr_id (f c) = cr_id c" "\<And>c. cr_parent (f c) = cr_parent c"
  shows "parents_first seen (update_where P f cs) = parents_first seen cs"
  by (induction cs arbitrary: seen) (simp_all add: assms)

definition blog_wf :: "database \<Rightarrow> bool" where
  "blog_wf d \<longleftrightarrow> posts_wf d \<and> comments_wf d \<and> counts_agree d"

lemma checks_ignore_deletion [simp]:
  "comments_checks (c\<lparr>cr_deleted := a, cr_updated := b\<rparr>) = comments_checks c"
  "posts_checks (r\<lparr>pr_deleted := a, pr_updated := b\<rparr>) = posts_checks r"
  by (simp_all add: comments_checks_def posts_checks_def)

text \<open>A row stays well formed when its keys stay and what it refers to stays.\<close>

lemma comment_row_wf_step:
  assumes wf: "comment_row_wf d c0"
    and cols: "cr_author c = cr_author c0" "cr_parent c = cr_parent c0" "cr_post c = cr_post c0"
    and chk: "first_violated (comments_checks c) = None"
    and us: "users d' = users d"
    and ps: "\<exists>r \<in> set (posts d'). pr_id r = cr_post c0 \<and> (comment_live c \<longrightarrow> post_live r)"
    and cs: "\<And>q. q \<in> set (comments d) \<Longrightarrow> \<exists>q' \<in> set (comments d'). cr_id q' = cr_id q \<and> cr_post q' = cr_post q"
  shows "comment_row_wf d' c"
proof -
  have "\<exists>q' \<in> set (comments d'). cr_id q' = p \<and> cr_post q' = cr_post c0" if "cr_parent c0 = Some p" for p
  proof -
    from wf that obtain q where "q \<in> set (comments d)" "cr_id q = p" "cr_post q = cr_post c0"
      by (auto simp: comment_row_wf_def)
    with cs [of q] show ?thesis by auto
  qed
  with wf ps show ?thesis
    unfolding comment_row_wf_def cols us chk by (auto split: option.splits)
qed

lemma comments_wf_posts:
  assumes "comments_wf d" and "users d' = users d" "comments d' = comments d"
    and "\<And>r. r \<in> set (posts d) \<Longrightarrow> \<exists>r' \<in> set (posts d'). pr_id r' = pr_id r \<and> (post_live r \<longrightarrow> post_live r')"
  shows "comments_wf d'"
  unfolding comments_wf_def assms(3)
proof (intro conjI ballI)
  show "distinct (map cr_id (comments d))" "parents_first {} (comments d)"
    using assms(1) by (simp_all add: comments_wf_def)
next
  fix c assume c: "c \<in> set (comments d)"
  with assms(1) have wf: "comment_row_wf d c" by (simp add: comments_wf_def)
  then obtain r where "r \<in> set (posts d)" "pr_id r = cr_post c" "comment_live c \<longrightarrow> post_live r"
    by (auto simp: comment_row_wf_def)
  with assms(4) [of r] wf assms(2,3) show "comment_row_wf d' c"
    by (intro comment_row_wf_step [OF wf]) (auto simp: comment_row_wf_def)
qed

lemma live_row_Some:
  "live_row d i = Some r \<Longrightarrow> r \<in> set (posts d) \<and> pr_id r = i \<and> post_live r"
  by (auto simp: live_row_def dest: first_row_Some)

lemma live_comment_row_Some:
  "live_comment_row d i = Some c \<Longrightarrow> c \<in> set (comments d) \<and> cr_id c = i \<and> comment_live c"
  by (auto simp: live_comment_row_def dest: first_row_Some)

lemma live_row_unique:
  assumes "distinct (map pr_id (posts d))" "r \<in> set (posts d)" "post_live r"
  shows "live_row d (pr_id r) = Some r"
  unfolding live_row_def by (rule post_key.first_row_key [OF assms(1,2)]) (use assms(3) in auto)

lemma live_comment_row_unique:
  assumes "distinct (map cr_id (comments d))" "c \<in> set (comments d)" "comment_live c"
  shows "live_comment_row d (cr_id c) = Some c"
  unfolding live_comment_row_def by (rule comment_key.first_row_key [OF assms(1,2)]) (use assms(3) in auto)

lemma author_row_exists: "i \<in> user_id ` set (users d) \<longleftrightarrow> author_row d i \<noteq> None"
proof
  assume "i \<in> user_id ` set (users d)"
  then show "author_row d i \<noteq> None" unfolding author_row_def first_row_None by auto
next
  assume "author_row d i \<noteq> None"
  then show "i \<in> user_id ` set (users d)" by (auto simp: author_row_def dest!: first_row_Some)
qed

lemma live_same: "db w' = db w \<Longrightarrow> live_post w' = live_post w"
  "db w' = db w \<Longrightarrow> live_comment w' = live_comment w"
  by (simp_all add: live_post_def live_comment_def fun_eq_iff)

lemma empty_blog: "posts d = [] \<Longrightarrow> comments d = [] \<Longrightarrow> blog_wf d"
  by (simp add: blog_wf_def posts_wf_def comments_wf_def counts_agree_def)

end
