(* ===== verification/Post_Store.thy ===== *)
theory Post_Store
  imports User_Store Blog
begin

text \<open>
  The persistence interface \<open>internal/post/service.go\<close> declares, the two parameter types of
  \<open>repository.go\<close> that cross it, and the contract the post service relies on: over the live posts
  as a map by id, what each operation returns and does to that map.
\<close>

record list_filter =
  lf_author :: "uuid option"
  lf_status :: "string option"
  lf_search :: string
  lf_page :: page_request

record update_input =
  up_title :: "string option"
  up_slug :: "string option"
  up_content :: "string option"
  up_status :: "string option"
  up_published :: "time option"
  up_clear_published :: bool

record post_store =
  ps_Create :: "post \<Rightarrow> post prog"
  ps_ByID :: "uuid \<Rightarrow> post prog"
  ps_AuthorOf :: "uuid \<Rightarrow> (uuid \<times> string) prog"
  ps_List :: "list_filter \<Rightarrow> (post list \<times> int) prog"
  ps_Update :: "uuid \<Rightarrow> update_input \<Rightarrow> post prog"
  ps_Delete :: "uuid \<Rightarrow> unit prog"

section \<open>Specification functions\<close>

fun upd :: "'a option \<Rightarrow> 'a \<Rightarrow> 'a" where
  "upd None old = old"
| "upd (Some new) old = new"

definition no_changes :: "update_input \<Rightarrow> bool" where
  "no_changes i \<longleftrightarrow> up_title i = None \<and> up_slug i = None \<and> up_content i = None \<and> up_status i = None
     \<and> \<not> up_clear_published i \<and> up_published i = None"

definition updated_post :: "update_input \<Rightarrow> time \<Rightarrow> post \<Rightarrow> post" where
  "updated_post i t p = (if no_changes i then p else
     p\<lparr>title := upd (up_title i) (title p), slug := upd (up_slug i) (slug p),
       post_content := upd (up_content i) (post_content p), status := upd (up_status i) (status p),
       published_at := (if up_clear_published i then None
          else (case up_published i of None \<Rightarrow> published_at p | Some t' \<Rightarrow> Some t')),
       post_updated := t\<rparr>)"

text \<open>The posts a filter selects, and the order of a listing: best match first, then newest first.\<close>

definition post_matches :: "ext \<Rightarrow> list_filter \<Rightarrow> post \<Rightarrow> bool" where
  "post_matches x f p \<longleftrightarrow>
     (case lf_author f of None \<Rightarrow> True | Some a \<Rightarrow> post_author p = a)
     \<and> (case lf_status f of None \<Rightarrow> True | Some s \<Rightarrow> status p = s)
     \<and> (trim_space (lf_search f) = [] \<or> ts_match x (title p) (post_content p) (trim_space (lf_search f)))"

definition post_sort_key :: "ext \<Rightarrow> string \<Rightarrow> post \<Rightarrow> int \<times> int \<times> int" where
  "post_sort_key x search p =
     (if search = [] then 0 else - ts_rank x (title p) (post_content p) search,
      - post_created p, - uint (post_id p))"

definition listing_of :: "ext \<Rightarrow> list_filter \<Rightarrow> (uuid \<Rightarrow> post option) \<Rightarrow> post list \<Rightarrow> bool" where
  "listing_of x f m ps \<longleftrightarrow> distinct (map post_id ps)
     \<and> (\<forall>p. p \<in> set ps \<longleftrightarrow> m (post_id p) = Some p \<and> post_matches x f p)
     \<and> sorted (map (post_sort_key x (trim_space (lf_search f))) ps)"

definition without_author :: "post \<Rightarrow> post" where
  "without_author p = p\<lparr>author_summary := None\<rparr>"

definition post_missing :: "gerr \<Rightarrow> bool" where
  "post_missing e \<longleftrightarrow> client_view e = (CodeNotFound, 404, ''post not found'', [])"

section \<open>The contract\<close>

locale post_contract =
  fixes x :: ext
    and st :: post_store
    and live :: "world \<Rightarrow> uuid \<Rightarrow> post option"
    and inv :: "world \<Rightarrow> bool"
  assumes live_id: "live w i = Some p \<Longrightarrow> post_id p = i \<and> author_summary p = None"
    and live_db: "db w' = db w \<Longrightarrow> live w' = live w"
    and inv_db: "db w' = db w \<Longrightarrow> inv w' = inv w"
    and create_frame: "ps_Create st p w = (r, w') \<Longrightarrow> same_process w w'"
    and create_inv: "ps_Create st p w = (r, w') \<Longrightarrow> inv w \<Longrightarrow> inv w'"
    and create_ok: "ps_Create st p w = (Inr p', w') \<Longrightarrow> inv w \<Longrightarrow> author_summary p = None \<Longrightarrow>
      live w (post_id p) = None \<and> (\<forall>i q. live w i = Some q \<longrightarrow> slug q \<noteq> slug p)
      \<and> p' = p\<lparr>comment_count := 0, post_created := db_now w, post_updated := db_now w\<rparr>
      \<and> live w' = (live w)(post_id p \<mapsto> p')"
    and create_error: "ps_Create st p w = (Inl e, w') \<Longrightarrow> acknowledged w \<Longrightarrow> db w' = db w"
    and create_taken: "ps_Create st p w = (Inl e, w') \<Longrightarrow> inv w \<Longrightarrow> errors_is e ErrSlugTaken \<Longrightarrow>
      db w' = db w \<and> (\<exists>i q. live w i = Some q \<and> slug q = slug p)"
    and byid_frame: "ps_ByID st i w = (r, w') \<Longrightarrow> same_process w w' \<and> db w' = db w"
    and byid_ok: "ps_ByID st i w = (Inr p, w') \<Longrightarrow> live w i = Some (without_author p)"
    and byid_missing: "outcomes w = [] \<Longrightarrow> live w i = None \<Longrightarrow>
      \<exists>e. ps_ByID st i w = (Inl e, w) \<and> post_missing e"
    and byid_quiet: "outcomes w = [] \<Longrightarrow> inv w \<Longrightarrow> live w i = Some p \<Longrightarrow>
      \<exists>p'. ps_ByID st i w = (Inr p', w) \<and> without_author p' = p"
    and authorof_frame: "ps_AuthorOf st i w = (r1, w') \<Longrightarrow> same_process w w' \<and> db w' = db w"
    and authorof_ok: "ps_AuthorOf st i w = (Inr (a, s), w') \<Longrightarrow>
      \<exists>p. live w i = Some p \<and> post_author p = a \<and> status p = s"
    and authorof_missing: "outcomes w = [] \<Longrightarrow> live w i = None \<Longrightarrow>
      \<exists>e. ps_AuthorOf st i w = (Inl e, w) \<and> post_missing e"
    and authorof_quiet: "outcomes w = [] \<Longrightarrow> live w i = Some p \<Longrightarrow>
      ps_AuthorOf st i w = (Inr (post_author p, status p), w)"
    and list_frame: "ps_List st f w = (r2, w') \<Longrightarrow> same_process w w' \<and> db w' = db w"
    and list_ok: "ps_List st f w = (Inr (ps, n), w') \<Longrightarrow> inv w \<Longrightarrow>
      \<exists>all. listing_of x f (live w) all \<and> map without_author ps = slice (lf_page f) all
        \<and> n = (if ps = [] then 0 else int (length all))"
    and update_frame: "ps_Update st i u w = (r, w') \<Longrightarrow> same_process w w'"
    and update_inv: "ps_Update st i u w = (r, w') \<Longrightarrow> inv w \<Longrightarrow> inv w'"
    and update_ok: "ps_Update st i u w = (Inr p', w') \<Longrightarrow> inv w \<Longrightarrow>
      \<exists>p. live w i = Some p \<and> without_author p' = updated_post u (db_now w) p
        \<and> live w' = (live w)(i \<mapsto> updated_post u (db_now w) p)"
    and update_error: "ps_Update st i u w = (Inl e, w') \<Longrightarrow> inv w \<Longrightarrow> acknowledged w \<Longrightarrow> db w' = db w"
    and update_taken: "ps_Update st i u w = (Inl e, w') \<Longrightarrow> errors_is e ErrSlugTaken \<Longrightarrow> db w' = db w"
    and delete_frame: "ps_Delete st i w = (r3, w') \<Longrightarrow> same_process w w'"
    and delete_inv: "ps_Delete st i w = (r3, w') \<Longrightarrow> inv w \<Longrightarrow> inv w'"
    and delete_ok: "ps_Delete st i w = (Inr un, w') \<Longrightarrow> inv w \<Longrightarrow>
      live w i \<noteq> None \<and> live w' = (live w)(i := None)"
    and delete_error: "ps_Delete st i w = (Inl e, w') \<Longrightarrow> acknowledged w \<Longrightarrow> db w' = db w"

end
