(* ===== verification/Post_Repo.thy ===== *)
theory Post_Repo
  imports Post_Store
begin

text \<open>
  \<open>internal/post/repository.go\<close>: the SQL on \<open>posts\<close>. Each statement refuses what the schema
  refuses, in PostgreSQL's order: text encoding, CHECK, unique indexes, foreign keys. The
  statements keep the tables well formed, and the methods satisfy the post service's contract.
\<close>

definition constraintSlugUnique :: string where "constraintSlugUnique = ''posts_slug_active_unique''"

definition slugConflict :: "gerr \<Rightarrow> gerr" where
  "slugConflict cause = WithCause (Conflict ''a post with this slug already exists'')
     (Wrapf '''' [Sentinel ErrSlugTaken, cause])"

section \<open>Create\<close>

definition post_row_of :: "post \<Rightarrow> time \<Rightarrow> post_row" where
  "post_row_of p t = \<lparr>pr_id = post_id p, pr_author = post_author p, pr_title = title p, pr_slug = slug p,
     pr_content = post_content p, pr_status = status p, pr_count = 0, pr_published = published_at p,
     pr_created = t, pr_updated = t, pr_deleted = None\<rparr>"

definition insert_post :: "post \<Rightarrow> (int \<times> time \<times> time) stmt" where
  "insert_post p t d =
    (let r = post_row_of p t in
     if \<not> list_all pg_text [title p, slug p, post_content p, status p] then Inl pg_encoding_error
     else (case first_violated (posts_checks r) of
        Some e \<Rightarrow> Inl e
      | None \<Rightarrow>
          if pr_id r \<in> pr_id ` set (posts d) then Inl (PgError sqlStateUniqueViolation ''posts_pkey'')
          else if pr_slug r \<in> pr_slug ` set (filter post_live (posts d))
          then Inl (PgError sqlStateUniqueViolation constraintSlugUnique)
          else if pr_author r \<notin> user_id ` set (users d)
          then Inl (PgError sqlStateForeignKeyViolation ''posts_author_id_fkey'')
          else Inr ((pr_count r, pr_created r, pr_updated r), d\<lparr>posts := posts d @ [r]\<rparr>)))"

definition post_Create :: "post \<Rightarrow> post prog" where
  "post_Create p w =
    (case execute (insert_post p) w of
       (Inr (n, c, u), w1) \<Rightarrow> (Inr (p\<lparr>comment_count := n, post_created := c, post_updated := u\<rparr>), w1)
     | (Inl e, w1) \<Rightarrow>
        (Inl (if IsUniqueViolation e constraintSlugUnique then slugConflict e
              else if IsForeignKeyViolation e ''''
              then WithCause (Unauthorized ''the authenticated account no longer exists'') e
              else Internal (Wrapf ''insert post'' [e])), w1))"

section \<open>Reads\<close>

definition select_post :: "uuid \<Rightarrow> post stmt" where
  "select_post i t d =
    (case live_row d i of None \<Rightarrow> Inl (Sentinel ErrNoRows)
     | Some r \<Rightarrow> (case join_author scanPost pr_author d r of
         None \<Rightarrow> Inl (Sentinel ErrNoRows) | Some p \<Rightarrow> Inr (p, d)))"

definition post_ByID :: "uuid \<Rightarrow> post prog" where
  "post_ByID i w =
    (case execute (select_post i) w of
       (Inl e, w1) \<Rightarrow> (Inl (NotFoundOr (Wrapf ''select post'' [e]) ''post''), w1)
     | (Inr p, w1) \<Rightarrow> (Inr p, w1))"

definition post_Exists :: "uuid \<Rightarrow> bool prog" where
  "post_Exists i w =
    (case execute (\<lambda>t d. Inr (live_row d i \<noteq> None, d)) w of
       (Inl e, w1) \<Rightarrow> (Inl (Internal (Wrapf ''check post existence'' [e])), w1)
     | (Inr b, w1) \<Rightarrow> (Inr b, w1))"

definition select_owner :: "uuid \<Rightarrow> (uuid \<times> string) stmt" where
  "select_owner i t d =
    (case live_row d i of None \<Rightarrow> Inl (Sentinel ErrNoRows) | Some r \<Rightarrow> Inr ((pr_author r, pr_status r), d))"

definition post_AuthorOf :: "uuid \<Rightarrow> (uuid \<times> string) prog" where
  "post_AuthorOf i w =
    (case execute (select_owner i) w of
       (Inl e, w1) \<Rightarrow> (Inl (NotFoundOr (Wrapf ''select post owner'' [e]) ''post''), w1)
     | (Inr r, w1) \<Rightarrow> (Inr r, w1))"

definition post_SlugExists :: "string \<Rightarrow> bool prog" where
  "post_SlugExists s w =
    (case execute (\<lambda>t d. if \<not> pg_text s then Inl pg_encoding_error
        else Inr (first_row (\<lambda>r. pr_slug r = s \<and> post_live r) (posts d) \<noteq> None, d)) w of
       (Inl e, w1) \<Rightarrow> (Inl (Internal (Wrapf ''check slug availability'' [e])), w1)
     | (Inr b, w1) \<Rightarrow> (Inr b, w1))"

text \<open>
  \<open>List\<close>: the WHERE clause built from the filter, the total ordering, and COUNT(*) OVER () read off
  a row of the page, so an empty page reports a total of 0.
\<close>

definition listed_rows :: "ext \<Rightarrow> list_filter \<Rightarrow> database \<Rightarrow> post_row list" where
  "listed_rows x f d =
    sort_key (\<lambda>r. post_sort_key x (trim_space (lf_search f)) (plain_post r))
      (filter (\<lambda>r. post_live r \<and> post_matches x f (plain_post r) \<and> author_row d (pr_author r) \<noteq> None) (posts d))"

definition select_posts :: "ext \<Rightarrow> list_filter \<Rightarrow> (post list \<times> int) stmt" where
  "select_posts x f t d =
    (if \<not> list_all pg_text [upd (lf_status f) [], trim_space (lf_search f)] then Inl pg_encoding_error
     else if pg_limit (lf_page f) < 0 then Inl (PgError ''2201W'' [])
     else if Offset (lf_page f) < 0 then Inl (PgError ''2201X'' [])
     else let rows = listed_rows x f d; page = slice (lf_page f) rows in
       Inr ((List.map_filter (join_author scanPost pr_author d) page,
             if page = [] then 0 else int (length rows)), d))"

definition post_List :: "ext \<Rightarrow> list_filter \<Rightarrow> (post list \<times> int) prog" where
  "post_List x f w =
    (case execute (select_posts x f) w of
       (Inl e, w1) \<Rightarrow> (Inl (Internal (Wrapf ''list posts'' [e])), w1)
     | (Inr r, w1) \<Rightarrow> (Inr r, w1))"

section \<open>Update\<close>

definition set_columns :: "update_input \<Rightarrow> time \<Rightarrow> post_row \<Rightarrow> post_row" where
  "set_columns i t r =
     r\<lparr>pr_title := upd (up_title i) (pr_title r), pr_slug := upd (up_slug i) (pr_slug r),
       pr_content := upd (up_content i) (pr_content r), pr_status := upd (up_status i) (pr_status r),
       pr_published := (if up_clear_published i then None
          else (case up_published i of None \<Rightarrow> pr_published r | Some t' \<Rightarrow> Some t')),
       pr_updated := t\<rparr>"

text \<open>The UPDATE in a CTE, joined with the author; no row back is \<open>None\<close>.\<close>

definition update_post :: "uuid \<Rightarrow> update_input \<Rightarrow> post option stmt" where
  "update_post i u t d =
    (if \<not> list_all pg_text [upd (up_title u) [], upd (up_slug u) [], upd (up_content u) [], upd (up_status u) []]
     then Inl pg_encoding_error
     else (case live_row d i of
        None \<Rightarrow> Inr (None, d)
      | Some r \<Rightarrow>
         (case first_violated (posts_checks (set_columns u t r)) of
            Some e \<Rightarrow> Inl e
          | None \<Rightarrow>
             if \<exists>q \<in> set (posts d). pr_id q \<noteq> i \<and> post_live q \<and> pr_slug q = pr_slug (set_columns u t r)
             then Inl (PgError sqlStateUniqueViolation constraintSlugUnique)
             else Inr (join_author scanPost pr_author d (set_columns u t r),
                 d\<lparr>posts := update_where (\<lambda>q. pr_id q = i \<and> post_live q) (set_columns u t) (posts d)\<rparr>))))"

definition update_failure :: "gerr \<Rightarrow> gerr" where
  "update_failure e = (if IsUniqueViolation e constraintSlugUnique then slugConflict e
     else NotFoundOr (Wrapf ''update post'' [e]) ''post'')"

definition post_Update :: "uuid \<Rightarrow> update_input \<Rightarrow> post prog" where
  "post_Update i u w =
    (if no_changes u then post_ByID i w
     else (case execute (update_post i u) w of
        (Inl e, w1) \<Rightarrow> (Inl (update_failure e), w1)
      | (Inr None, w1) \<Rightarrow> (Inl (update_failure (Sentinel ErrNoRows)), w1)
      | (Inr (Some p), w1) \<Rightarrow> (Inr p, w1)))"

section \<open>Delete\<close>

definition soft_delete_post :: "uuid \<Rightarrow> nat stmt" where
  "soft_delete_post i t d =
     Inr (count_where (\<lambda>r. pr_id r = i \<and> post_live r) (posts d),
          d\<lparr>posts := update_where (\<lambda>r. pr_id r = i \<and> post_live r)
              (\<lambda>r. r\<lparr>pr_deleted := Some t, pr_updated := t\<rparr>) (posts d)\<rparr>)"

definition soft_delete_comments_of :: "uuid \<Rightarrow> nat stmt" where
  "soft_delete_comments_of i t d =
     Inr (count_where (live_comments_of i) (comments d),
          d\<lparr>comments := update_where (live_comments_of i)
              (\<lambda>c. c\<lparr>cr_deleted := Some t, cr_updated := t\<rparr>) (comments d)\<rparr>)"

definition post_delete_body :: "uuid \<Rightarrow> unit prog" where
  "post_delete_body i w =
    (case execute (soft_delete_post i) w of
       (Inl e, w1) \<Rightarrow> (Inl (Internal (Wrapf ''soft-delete post'' [e])), w1)
     | (Inr n, w1) \<Rightarrow>
        if n = 0 then (Inl (NotFound ''post''), w1)
        else (case execute (soft_delete_comments_of i) w1 of
           (Inl e, w2) \<Rightarrow> (Inl (Internal (Wrapf ''soft-delete comments of post'' [e])), w2)
         | (Inr m, w2) \<Rightarrow> (Inr (), w2)))"

definition post_Delete :: "uuid \<Rightarrow> unit prog" where
  "post_Delete i = InTx (post_delete_body i)"

definition post_repository :: "ext \<Rightarrow> post_store" where
  "post_repository x = \<lparr>ps_Create = post_Create, ps_ByID = post_ByID, ps_AuthorOf = post_AuthorOf,
     ps_List = post_List x, ps_Update = post_Update, ps_Delete = post_Delete\<rparr>"

section \<open>Statements and live posts\<close>

lemma post_row_of_simps [simp]:
  "pr_id (post_row_of p t) = post_id p" "pr_slug (post_row_of p t) = slug p"
  "pr_author (post_row_of p t) = post_author p" "pr_deleted (post_row_of p t) = None"
  "pr_count (post_row_of p t) = 0" "pr_created (post_row_of p t) = t" "pr_updated (post_row_of p t) = t"
  by (simp_all add: post_row_of_def)

lemma plain_post_row_of:
  "author_summary p = None \<Longrightarrow>
    plain_post (post_row_of p t) = p\<lparr>comment_count := 0, post_created := t, post_updated := t\<rparr>"
  by (cases p) (simp add: plain_post_def post_row_of_def)

lemma insert_post_Inr:
  assumes "insert_post p t d = Inr (r, d')"
  shows "r = (0, t, t)" and "d' = d\<lparr>posts := posts d @ [post_row_of p t]\<rparr>"
    and "post_id p \<notin> pr_id ` set (posts d)" and "slug p \<notin> pr_slug ` set (filter post_live (posts d))"
    and "post_author p \<in> user_id ` set (users d)" and "first_violated (posts_checks (post_row_of p t)) = None"
  using assms by (auto simp: insert_post_def Let_def split: if_splits option.splits)

lemma post_live_row_of [simp]: "post_live (post_row_of p t)"
  by (simp add: post_live_def)

lemma live_row_insert:
  assumes "post_live r" "pr_id r \<notin> pr_id ` set (posts d)" "posts d' = posts d @ [r]"
  shows "live_row d' i = (if i = pr_id r then Some r else live_row d i)"
proof -
  have "live_row d (pr_id r) = None"
    using assms(2) unfolding live_row_def first_row_None by (metis (no_types, lifting) image_eqI)
  with assms(1,3) show ?thesis
    by (cases "live_row d i") (auto simp: live_row_def first_row_append)
qed

lemma set_columns_simps [simp]:
  "pr_id (set_columns u t r) = pr_id r" "pr_deleted (set_columns u t r) = pr_deleted r"
  "pr_author (set_columns u t r) = pr_author r" "pr_count (set_columns u t r) = pr_count r"
  "pr_slug (set_columns u t r) = upd (up_slug u) (pr_slug r)" "post_live (set_columns u t r) = post_live r"
  by (simp_all add: set_columns_def post_live_def)

lemma plain_set_columns: "\<not> no_changes u \<Longrightarrow> plain_post (set_columns u t r) = updated_post u t (plain_post r)"
  by (simp add: plain_post_def set_columns_def updated_post_def split: option.splits)

lemma update_post_cases:
  assumes "update_post i u t d = Inr (p, d')"
  obtains (none) "live_row d i = None" "p = None" "d' = d"
  | (row) r where "live_row d i = Some r" "p = join_author scanPost pr_author d (set_columns u t r)"
      "d' = d\<lparr>posts := update_where (\<lambda>q. pr_id q = i \<and> post_live q) (set_columns u t) (posts d)\<rparr>"
      "first_violated (posts_checks (set_columns u t r)) = None"
      "\<forall>q \<in> set (posts d). pr_id q \<noteq> i \<longrightarrow> post_live q \<longrightarrow> pr_slug q \<noteq> pr_slug (set_columns u t r)"
  using assms by (auto simp: update_post_def split: if_splits option.splits)

lemma live_row_update:
  assumes "posts d' = update_where (\<lambda>q. pr_id q = i \<and> post_live q) f (posts d)"
    and "\<And>r. pr_id (f r) = pr_id r" "\<And>r. post_live (f r) = post_live r"
  shows "live_row d' j = (if j = i then map_option f (live_row d i) else live_row d j)"
proof -
  have "live_row d' j = map_option (\<lambda>r. if pr_id r = i \<and> post_live r then f r else r) (live_row d j)"
    unfolding live_row_def assms(1) by (rule first_row_update) (simp add: assms(2,3))
  then show ?thesis by (cases "live_row d j") (auto dest: live_row_Some)
qed

lemma soft_delete_posts:
  "soft_delete_post i t d = Inr (n, d1) \<Longrightarrow> posts d1 = update_where (\<lambda>r. pr_id r = i \<and> post_live r)
      (\<lambda>r. r\<lparr>pr_deleted := Some t, pr_updated := t\<rparr>) (posts d)"
  "soft_delete_comments_of i t d1 = Inr (m, d2) \<Longrightarrow> posts d2 = posts d1"
  by (auto simp: soft_delete_post_def soft_delete_comments_of_def)

lemma live_row_delete:
  assumes "posts d' = update_where (\<lambda>q. pr_id q = i \<and> post_live q) (\<lambda>r. r\<lparr>pr_deleted := Some t, pr_updated := t\<rparr>) (posts d)"
  shows "live_row d' j = (if j = i then None else live_row d j)"
proof -
  have "live_row d' j = first_row (\<lambda>r. (pr_id r = j \<and> post_live r) \<and> \<not> (pr_id r = i \<and> post_live r)) (posts d)"
    unfolding live_row_def assms by (rule first_row_update_off) (simp add: post_live_def)
  also have "(\<lambda>r. (pr_id r = j \<and> post_live r) \<and> \<not> (pr_id r = i \<and> post_live r))
      = (\<lambda>r. if j = i then False else pr_id r = j \<and> post_live r)" by (auto simp: fun_eq_iff)
  finally show ?thesis by (simp add: live_row_def first_row_None)
qed

section \<open>The statements keep the tables well formed\<close>

lemma insert_post_wf:
  assumes "insert_post p t d = Inr (r, d')" and "blog_wf d"
  shows "blog_wf d'"
proof -
  note ins = insert_post_Inr [OF assms(1)]
  have d': "posts d' = posts d @ [post_row_of p t]" "users d' = users d" "comments d' = comments d"
    using ins(2) by simp_all
  have "posts_wf d'"
    using assms(2) ins(3-6) unfolding blog_wf_def posts_wf_def d' by auto
  moreover have "comments_wf d'"
    using assms(2) unfolding blog_wf_def by (intro comments_wf_posts [of d d']) (auto simp: d')
  moreover have "\<not> live_comments_of (post_id p) c" if "c \<in> set (comments d)" for c
    using assms(2) that ins(3) unfolding blog_wf_def comments_wf_def comment_row_wf_def live_comments_of_def
    by force
  then have "count_where (live_comments_of (post_id p)) (comments d) = 0"
    by (simp add: count_where_zero_iff)
  then have "counts_agree d'" using assms(2) by (auto simp: blog_wf_def counts_agree_def d')
  ultimately show ?thesis by (simp add: blog_wf_def)
qed

lemma update_post_wf:
  assumes "update_post i u t d = Inr (p, d')" and "blog_wf d"
  shows "blog_wf d'"
  using assms(1)
proof (cases rule: update_post_cases)
  case none
  with assms(2) show ?thesis by simp
next
  case (row r)
  let ?u = "update_where (\<lambda>q. pr_id q = i \<and> post_live q) (set_columns u t)"
  have d': "posts d' = ?u (posts d)" "users d' = users d" "comments d' = comments d" using row(3) by simp_all
  have ids: "distinct (map pr_id (posts d))" and slugs: "distinct (map pr_slug (filter post_live (posts d)))"
    using assms(2) by (simp_all add: blog_wf_def posts_wf_def)
  have the_row: "q = r" if "q \<in> set (posts d)" "pr_id q = i" for q
    using post_key.key_unique [OF ids that(1)] live_row_Some [OF row(1)] that(2) by auto
  have "posts_wf d'"
    unfolding posts_wf_def d' update_where_ball
  proof (intro conjI)
    show "distinct (map pr_id (?u (posts d)))" by (simp add: map_update_where ids)
    show "distinct (map pr_slug (filter post_live (?u (posts d))))"
      by (rule distinct_update_one [OF ids slugs]) (use row(5) the_row in auto)
    show "\<forall>q \<in> set (posts d).
        pr_author (if pr_id q = i \<and> post_live q then set_columns u t q else q) \<in> user_id ` set (users d)
        \<and> first_violated (posts_checks (if pr_id q = i \<and> post_live q then set_columns u t q else q)) = None"
      using assms(2) row(4) the_row by (simp add: blog_wf_def posts_wf_def) blast
  qed
  moreover have "\<exists>q' \<in> set (posts d'). pr_id q' = pr_id q \<and> (post_live q \<longrightarrow> post_live q')" if "q \<in> set (posts d)" for q
    using that by (intro bexI [of _ "if pr_id q = i \<and> post_live q then set_columns u t q else q"])
      (auto simp: d' set_update_where)
  then have "comments_wf d'"
    using assms(2) unfolding blog_wf_def by (intro comments_wf_posts [of d d']) (auto simp: d')
  moreover have "counts_agree d'"
    using assms(2) unfolding blog_wf_def counts_agree_def d' update_where_ball by simp
  ultimately show ?thesis by (simp add: blog_wf_def)
qed

text \<open>The two statements of \<open>Delete\<close> together; between them the counts need not agree.\<close>

lemma soft_delete_wf:
  assumes "soft_delete_post i t d = Inr (n, d1)" and "soft_delete_comments_of i t' d1 = Inr (m, d2)" and "blog_wf d"
  shows "blog_wf d2"
proof -
  let ?up = "update_where (\<lambda>r. pr_id r = i \<and> post_live r) (\<lambda>r. r\<lparr>pr_deleted := Some t, pr_updated := t\<rparr>)"
  let ?uc = "update_where (live_comments_of i) (\<lambda>c. c\<lparr>cr_deleted := Some t', cr_updated := t'\<rparr>)"
  have d2: "posts d2 = ?up (posts d)" "comments d2 = ?uc (comments d)" "users d2 = users d"
    using assms(1,2) by (auto simp: soft_delete_post_def soft_delete_comments_of_def)
  have "filter post_live (?up (posts d)) = filter (\<lambda>r. post_live r \<and> \<not> (pr_id r = i \<and> post_live r)) (posts d)"
    by (rule filter_update_off) (simp add: post_live_def)
  also have "\<dots> = filter (\<lambda>r. pr_id r \<noteq> i) (filter post_live (posts d))"
    by (auto intro!: filter_cong)
  finally have lives: "filter post_live (?up (posts d)) = filter (\<lambda>r. pr_id r \<noteq> i) (filter post_live (posts d))" .
  have "posts_wf d2"
    using assms(3) unfolding blog_wf_def posts_wf_def d2 lives update_where_ball
    by (simp add: map_update_where distinct_map_filter del: filter_filter)
  moreover have "comments_wf d2"
    unfolding comments_wf_def
  proof (intro conjI ballI)
    show "distinct (map cr_id (comments d2))" "parents_first {} (comments d2)"
      using assms(3) by (simp_all add: d2 map_update_where parents_first_update blog_wf_def comments_wf_def)
  next
    fix c assume "c \<in> set (comments d2)"
    then obtain c0 where c0: "c0 \<in> set (comments d)"
        "c = (if live_comments_of i c0 then c0\<lparr>cr_deleted := Some t', cr_updated := t'\<rparr> else c0)"
      by (auto simp: d2 set_update_where)
    with assms(3) have wf: "comment_row_wf d c0" by (simp add: blog_wf_def comments_wf_def)
    then obtain r where r: "r \<in> set (posts d)" "pr_id r = cr_post c0" "comment_live c0 \<longrightarrow> post_live r"
      by (auto simp: comment_row_wf_def)
    have "\<exists>r' \<in> set (posts d2). pr_id r' = cr_post c \<and> (comment_live c \<longrightarrow> post_live r')"
    proof (cases "cr_post c0 = i \<and> post_live r")
      case True
      with c0 have "\<not> comment_live c" by (auto simp: live_comments_of_def comment_live_def)
      with r c0 True show ?thesis
        by (intro bexI [of _ "r\<lparr>pr_deleted := Some t, pr_updated := t\<rparr>"]) (auto simp: d2 set_update_where)
    next
      case False
      with r have "r \<in> set (posts d2)" unfolding d2 by (intro update_where_memI(1)) auto
      with False r c0 show ?thesis
        by (intro bexI [of _ r]) (auto simp: live_comments_of_def comment_live_def split: if_splits)
    qed
    moreover have "\<exists>q' \<in> set (comments d2). cr_id q' = cr_id q \<and> cr_post q' = cr_post q" if "q \<in> set (comments d)" for q
      using that by (intro bexI [of _ "if live_comments_of i q then q\<lparr>cr_deleted := Some t', cr_updated := t'\<rparr> else q"])
        (auto simp: d2 update_where_def intro!: image_eqI [where x = q])
    ultimately show "comment_row_wf d2 c"
      using wf c0(2) by (intro comment_row_wf_step [OF wf])
        (simp_all add: d2(3) comment_row_wf_def split: if_splits)
  qed
  moreover have "counts_agree d2"
    unfolding counts_agree_def
  proof (intro ballI impI)
    fix r assume r: "r \<in> set (posts d2)" "post_live r"
    then have "r \<in> set (filter post_live (?up (posts d)))" by (simp add: d2)
    then have r0: "r \<in> set (posts d)" "pr_id r \<noteq> i" unfolding lives by simp_all
    have "count_where (live_comments_of (pr_id r)) (comments d2) = count_where (live_comments_of (pr_id r)) (comments d)"
      unfolding d2 by (rule count_update_where_same) (use r0 in \<open>auto simp: live_comments_of_def\<close>)
    with r r0 assms(3) show "pr_count r = int (count_where (live_comments_of (pr_id r)) (comments d2))"
      by (simp add: blog_wf_def counts_agree_def)
  qed
  ultimately show ?thesis by (simp add: blog_wf_def)
qed

section \<open>The post contract holds\<close>

lemma post_repository_simps [simp]:
  "ps_Create (post_repository x) = post_Create" "ps_ByID (post_repository x) = post_ByID"
  "ps_AuthorOf (post_repository x) = post_AuthorOf" "ps_List (post_repository x) = post_List x"
  "ps_Update (post_repository x) = post_Update" "ps_Delete (post_repository x) = post_Delete"
  by (simp_all add: post_repository_def)

lemma post_Create_execute:
  "post_Create p w = (r, w') \<Longrightarrow> \<exists>r1. execute (insert_post p) w = (r1, w')
    \<and> (\<forall>p'. r = Inr p' \<longrightarrow> (\<exists>n c u. r1 = Inr (n, c, u) \<and> p' = p\<lparr>comment_count := n, post_created := c, post_updated := u\<rparr>))
    \<and> (\<forall>e. r = Inl e \<longrightarrow> (\<exists>e1. r1 = Inl e1 \<and> (errors_is e ErrSlugTaken \<longrightarrow>
          IsUniqueViolation e1 constraintSlugUnique \<or> errors_is e1 ErrSlugTaken)))"
  by (cases "execute (insert_post p) w")
     (auto simp: post_Create_def api_constructors slugConflict_def split: sum.splits prod.splits if_splits)

lemma post_ByID_execute:
  "post_ByID i w = (r, w') \<Longrightarrow> \<exists>r1. execute (select_post i) w = (r1, w') \<and> (\<forall>p. r = Inr p \<longrightarrow> r1 = Inr p)"
  by (cases "execute (select_post i) w") (auto simp: post_ByID_def split: sum.splits)

lemma post_AuthorOf_execute:
  "post_AuthorOf i w = (r, w') \<Longrightarrow> \<exists>r1. execute (select_owner i) w = (r1, w') \<and> (\<forall>p. r = Inr p \<longrightarrow> r1 = Inr p)"
  by (cases "execute (select_owner i) w") (auto simp: post_AuthorOf_def split: sum.splits)

lemma post_List_execute:
  "post_List x f w = (r, w') \<Longrightarrow> \<exists>r1. execute (select_posts x f) w = (r1, w') \<and> (\<forall>p. r = Inr p \<longrightarrow> r1 = Inr p)"
  by (cases "execute (select_posts x f) w") (auto simp: post_List_def split: sum.splits)

lemma select_post_Inr:
  "select_post i t d = Inr (p, d') \<Longrightarrow> d' = d \<and> (\<exists>r. live_row d i = Some r \<and> without_author p = plain_post r)"
  by (auto simp: select_post_def join_author_def without_author_def split: option.splits)

lemma select_owner_Inr:
  "select_owner i t d = Inr (p, d') \<Longrightarrow> d' = d \<and> (\<exists>r. live_row d i = Some r \<and> p = (pr_author r, pr_status r))"
  by (auto simp: select_owner_def split: option.splits)

lemma select_posts_Inr:
  assumes "select_posts x f t d = Inr ((ps, n), d')"
  shows "d' = d" and "ps = List.map_filter (join_author scanPost pr_author d) (slice (lf_page f) (listed_rows x f d))"
    and "n = (if slice (lf_page f) (listed_rows x f d) = [] then 0 else int (length (listed_rows x f d)))"
  using assms by (auto simp: select_posts_def Let_def split: if_splits)

lemma joined_rows:
  assumes "\<forall>r \<in> set rows. author_row d (pr_author r) \<noteq> None"
  shows "map without_author (List.map_filter (join_author scanPost pr_author d) rows) = map plain_post rows"
  using assms by (induction rows) (auto simp: join_author_def without_author_def map_filter_simps)

lemma listed_rows_set:
  "r \<in> set (listed_rows x f d) \<longleftrightarrow> r \<in> set (posts d) \<and> post_live r \<and> post_matches x f (plain_post r)
     \<and> author_row d (pr_author r) \<noteq> None"
  by (auto simp: listed_rows_def)

lemma listed_rows_listing:
  assumes "posts_wf (db w)"
  shows "listing_of x f (live_post w) (map plain_post (listed_rows x f (db w)))"
  unfolding listing_of_def
proof (intro conjI allI)
  have "distinct (map pr_id (listed_rows x f (db w)))"
    using assms by (simp add: listed_rows_def posts_wf_def distinct_map_filter distinct_map)
      (auto intro: inj_on_subset)
  then show "distinct (map post_id (map plain_post (listed_rows x f (db w))))" by (simp add: comp_def)
  show "sorted (map (post_sort_key x (trim_space (lf_search f))) (map plain_post (listed_rows x f (db w))))"
    by (simp add: listed_rows_def comp_def)
  fix p
  have ids: "distinct (map pr_id (posts (db w)))" using assms by (simp add: posts_wf_def)
  have auth: "author_row (db w) (pr_author r) \<noteq> None" if "r \<in> set (posts (db w))" for r
    using assms that author_row_exists by (auto simp: posts_wf_def)
  show "(p \<in> set (map plain_post (listed_rows x f (db w)))) = (live_post w (post_id p) = Some p \<and> post_matches x f p)"
  proof
    assume "p \<in> set (map plain_post (listed_rows x f (db w)))"
    then obtain r where r: "p = plain_post r" "r \<in> set (posts (db w))" "post_live r" "post_matches x f p"
      by (auto simp: listed_rows_set)
    with live_row_unique [OF ids r(2,3)] show "live_post w (post_id p) = Some p \<and> post_matches x f p"
      by (simp add: live_post_def)
  next
    assume l: "live_post w (post_id p) = Some p \<and> post_matches x f p"
    then obtain r where r: "live_row (db w) (post_id p) = Some r" "p = plain_post r"
      by (auto simp: live_post_def)
    with live_row_Some [OF r(1)] l auth have "r \<in> set (listed_rows x f (db w))"
      by (simp add: listed_rows_set)
    with r(2) show "p \<in> set (map plain_post (listed_rows x f (db w)))" by simp
  qed
qed

lemma post_Update_cases:
  assumes "post_Update i u w = (r, w')"
  obtains (read) "no_changes u" "post_ByID i w = (r, w')"
  | (failed) e where "\<not> no_changes u" "r = Inl (update_failure e)" "execute (update_post i u) w = (Inl e, w')"
  | (gone) "\<not> no_changes u" "r = Inl (update_failure (Sentinel ErrNoRows))" "execute (update_post i u) w = (Inr None, w')"
  | (ok) p where "\<not> no_changes u" "r = Inr p" "execute (update_post i u) w = (Inr (Some p), w')"
proof (cases "execute (update_post i u) w")
  case (Pair q w1)
  with assms read failed gone ok show ?thesis
    by (cases q) (auto simp: post_Update_def split: if_splits option.splits)
qed

lemma post_Delete_cases:
  assumes "post_delete_body i w = (Inr un, w')"
  obtains n m d1 where "soft_delete_post i (db_now w) (db w) = Inr (n, d1)" "0 < n"
    "soft_delete_comments_of i (db_now w) d1 = Inr (m, db w')"
proof -
  from assms obtain n w1 m where e: "execute (soft_delete_post i) w = (Inr n, w1)" "0 < n"
      "execute (soft_delete_comments_of i) w1 = (Inr m, w')"
    by (auto simp: post_delete_body_def split: sum.splits prod.splits if_splits)
  with execute_ok [OF e(1)] execute_ok [OF e(3)] execute_frame [OF e(1)] that show ?thesis by simp
qed

lemma post_delete_body_same_process: "post_delete_body i w = (r, w') \<Longrightarrow> same_process w w'"
  by (auto simp: post_delete_body_def split: sum.splits prod.splits if_splits
      dest: execute_same_process intro: same_process_trans)

lemma post_missing_NotFoundOr [simp]: "errors_is e ErrNoRows \<Longrightarrow> post_missing (NotFoundOr (Wrapf m [e]) ''post'')"
  by (simp add: post_missing_def NotFoundOr_def IsNoRows_def client_view_def api_constructors)

lemma update_failure_taken:
  "errors_is (update_failure e) ErrSlugTaken \<Longrightarrow> IsUniqueViolation e constraintSlugUnique \<or> errors_is e ErrSlugTaken"
  by (auto simp: update_failure_def NotFoundOr_def api_constructors split: if_splits)

lemma slug_taken_rows:
  assumes "insert_post p t d = Inl e" "IsUniqueViolation e constraintSlugUnique \<or> errors_is e ErrSlugTaken"
  shows "\<exists>r \<in> set (posts d). post_live r \<and> pr_slug r = slug p"
  using assms
  by (auto simp: insert_post_def Let_def pg_encoding_error_def sql_states constraintSlugUnique_def
      dest!: first_violated_Some split: if_splits option.splits)

interpretation post_rows: post_contract x "post_repository x" live_post "\<lambda>w. blog_wf (db w)" for x
proof (unfold_locales, unfold post_repository_simps, goal_cases)
  case (1 w i p)
  then show ?case by (auto simp: live_post_def dest: live_row_Some)
next
  case (2 w' w)
  then show ?case by (rule live_same(1))
next
  case (3 w' w)
  then show ?case by simp
next
  case (4 p w r w')
  then show ?case by (auto dest!: post_Create_execute execute_same_process)
next
  case (5 p w r w')
  then obtain r1 where "execute (insert_post p) w = (r1, w')" by (auto dest: post_Create_execute)
  then show ?case by (rule execute_invariant [where I = blog_wf]) (use 5(2) insert_post_wf in auto)
next
  case (6 p w p' w')
  from post_Create_execute [OF 6(1)] obtain n c u where
      e: "execute (insert_post p) w = (Inr (n, c, u), w')"
    and p': "p' = p\<lparr>comment_count := n, post_created := c, post_updated := u\<rparr>" by auto
  note ins = insert_post_Inr [OF execute_ok [OF e]]
  have live: "live_row (db w') i = (if i = post_id p then Some (post_row_of p (db_now w)) else live_row (db w) i)" for i
    using live_row_insert [of "post_row_of p (db_now w)" "db w" "db w'" i] ins(2,3) by simp
  have "slug q \<noteq> slug p" if "live_post w i = Some q" for i q
    using that ins(4) by (force simp: live_post_def dest!: live_row_Some)
  moreover have "live_post w (post_id p) = None"
    using ins(3) live_row_Some [of "db w" "post_id p"]
    by (cases "live_row (db w) (post_id p)") (auto simp: live_post_def image_iff)
  ultimately show ?case
    using ins(1) p' 6(3) live by (auto simp: live_post_def fun_eq_iff plain_post_row_of)
next
  case (7 p w e w')
  from post_Create_execute [OF 7(1)] obtain e1 where "execute (insert_post p) w = (Inl e1, w')" by auto
  then show ?case using 7(2) by (rule execute_error_unchanged)
next
  case (8 p w e w')
  from post_Create_execute [OF 8(1)] 8(3) obtain e1 where
      e: "execute (insert_post p) w = (Inl e1, w')" "IsUniqueViolation e1 constraintSlugUnique \<or> errors_is e1 ErrSlugTaken"
    by auto
  from e(1) obtain "insert_post p (db_now w) (db w) = Inl e1" "db w' = db w"
    by (cases rule: execute_cases) (use e(2) in auto)
  moreover from slug_taken_rows [OF this(1) e(2)] obtain r where
      "r \<in> set (posts (db w))" "post_live r" "pr_slug r = slug p" by auto
  ultimately show ?case
    using 8(2) live_row_unique [of "db w" r]
    by (auto simp: live_post_def blog_wf_def posts_wf_def intro!: exI [of _ "pr_id r"])
next
  case (9 i w r w')
  from post_ByID_execute [OF this] obtain r1 where e: "execute (select_post i) w = (r1, w')" by auto
  then have "db w' = db w" by (rule execute_read_only) (auto dest: select_post_Inr)
  with e show ?case by (auto dest: execute_same_process)
next
  case (10 i w p w')
  from post_ByID_execute [OF 10] have "execute (select_post i) w = (Inr p, w')" by auto
  from select_post_Inr [OF execute_ok [OF this]] show ?case by (auto simp: live_post_def)
next
  case (11 w i)
  then have "live_row (db w) i = None" by (simp add: live_post_def)
  with 11(1) show ?case by (simp add: post_ByID_def execute_quiet select_post_def)
next
  case (12 w i p)
  then obtain r where r: "live_row (db w) i = Some r" "p = plain_post r" by (auto simp: live_post_def)
  with 12(2) obtain u where "author_row (db w) (pr_author r) = Some u"
    using author_row_exists live_row_Some [OF r(1)] by (auto simp: blog_wf_def posts_wf_def)
  with r 12(1) show ?case
    by (simp add: post_ByID_def execute_quiet select_post_def join_author_def without_author_def)
next
  case (13 i w r w')
  from post_AuthorOf_execute [OF this] obtain r1 where e: "execute (select_owner i) w = (r1, w')" by auto
  then have "db w' = db w" by (rule execute_read_only) (auto dest: select_owner_Inr)
  with e show ?case by (auto dest: execute_same_process)
next
  case (14 i w a s w')
  from post_AuthorOf_execute [OF 14] have "execute (select_owner i) w = (Inr (a, s), w')" by auto
  from select_owner_Inr [OF execute_ok [OF this]] show ?case by (auto simp: live_post_def)
next
  case (15 w i)
  then have "live_row (db w) i = None" by (simp add: live_post_def)
  with 15(1) show ?case by (simp add: post_AuthorOf_def execute_quiet select_owner_def)
next
  case (16 w i p)
  then show ?case by (auto simp: post_AuthorOf_def execute_quiet select_owner_def live_post_def)
next
  case (17 f w r w')
  from post_List_execute [OF this] obtain r1 where e: "execute (select_posts x f) w = (r1, w')" by auto
  then have "db w' = db w" by (rule execute_read_only) (auto dest: select_posts_Inr(1))
  with e show ?case by (auto dest: execute_same_process)
next
  case (18 f w ps n w')
  then have "select_posts x f (db_now w) (db w) = Inr ((ps, n), db w')"
    by (auto dest!: post_List_execute execute_ok)
  note sel = select_posts_Inr [OF this]
  let ?rows = "listed_rows x f (db w)"
  have "\<forall>r \<in> set (slice (lf_page f) ?rows). author_row (db w) (pr_author r) \<noteq> None"
    using slice_set [of "lf_page f" ?rows] listed_rows_set by fastforce
  then have ps: "map without_author ps = map plain_post (slice (lf_page f) ?rows)"
    using joined_rows sel(2) by simp
  then have "ps = [] \<longleftrightarrow> slice (lf_page f) ?rows = []" by (metis map_is_Nil_conv)
  with ps sel(3) listed_rows_listing [of w x f] 18(2) show ?case
    by (intro exI [of _ "map plain_post ?rows"]) (simp add: blog_wf_def slice_def take_map drop_map)
next
  case (19 i u w r w')
  then show ?case by (cases rule: post_Update_cases) (auto dest!: post_ByID_execute execute_same_process)
next
  case (20 i u w r w')
  have upd: "blog_wf (db w')" if "execute (update_post i u) w = (q, w')" for q
    using that by (rule execute_invariant [where I = blog_wf]) (use 20(2) update_post_wf in auto)
  from 20(1) show ?case
  proof (cases rule: post_Update_cases)
    case read
    from post_ByID_execute [OF read(2)] obtain r1 where e: "execute (select_post i) w = (r1, w')" by auto
    then have "db w' = db w" by (rule execute_read_only) (auto dest: select_post_Inr)
    with 20(2) show ?thesis by simp
  qed (use upd in auto)
next
  case (21 i u w p' w')
  from 21(1) show ?case
  proof (cases rule: post_Update_cases)
    case read
    from post_ByID_execute [OF read(2)] have e: "execute (select_post i) w = (Inr p', w')" by auto
    from select_post_Inr [OF execute_ok [OF e]] read(1) show ?thesis
      by (auto simp: live_post_def updated_post_def fun_eq_iff)
  next
    case (ok p)
    from execute_ok [OF ok(3)] show ?thesis
    proof (cases rule: update_post_cases)
      case (row r)
      have p': "without_author p' = updated_post u (db_now w) (plain_post r)"
        using row(2) ok(1,2) plain_set_columns [of u "db_now w" r]
        by (cases "author_row (db w) (pr_author r)") (auto simp: join_author_def without_author_def)
      have "live_row (db w') j = (if j = i then map_option (set_columns u (db_now w)) (live_row (db w) i) else live_row (db w) j)" for j
        by (rule live_row_update [of "db w'" i "set_columns u (db_now w)"]) (simp_all add: row(3))
      with row(1) p' ok(1) show ?thesis
        by (auto simp: live_post_def fun_eq_iff plain_set_columns)
    qed (use ok in simp)
  qed auto
next
  case (22 i u w e w')
  from 22(1) show ?case
  proof (cases rule: post_Update_cases)
    case read
    from post_ByID_execute [OF read(2)] obtain r1 where e: "execute (select_post i) w = (r1, w')" by auto
    then show ?thesis by (rule execute_read_only) (auto dest: select_post_Inr)
  next
    case (failed e1)
    then show ?thesis using 22(3) by (auto dest: execute_error_unchanged)
  next
    case gone
    from execute_ok [OF gone(3)] show ?thesis
    proof (cases rule: update_post_cases)
      case (row r)
      with live_row_Some [OF row(1)] 22(2) author_row_exists show ?thesis
        by (auto simp: join_author_def blog_wf_def posts_wf_def)
    qed
  qed auto
next
  case (23 i u w e w')
  from 23(1) show ?case
  proof (cases rule: post_Update_cases)
    case read
    from post_ByID_execute [OF read(2)] obtain r1 where e: "execute (select_post i) w = (r1, w')" by auto
    then show ?thesis by (rule execute_read_only) (auto dest: select_post_Inr)
  next
    case (failed e1)
    with 23(2) have t: "IsUniqueViolation e1 constraintSlugUnique \<or> errors_is e1 ErrSlugTaken"
      by (auto dest: update_failure_taken)
    from failed(3) show ?thesis by (cases rule: execute_cases) (use t in auto)
  next
    case gone
    with 23(2) show ?thesis by (auto dest!: update_failure_taken)
  qed auto
next
  case (24 i w r w')
  then show ?case unfolding post_Delete_def
    by (rule InTx_same_process) (rule post_delete_body_same_process)
next
  case (25 i w r w')
  from 25(1) 25(2) show ?case unfolding post_Delete_def
    by (rule InTx_invariant [where I = blog_wf]) (auto elim!: post_Delete_cases dest: soft_delete_wf)
next
  case (26 i w un w')
  from 26(1) obtain w1 w2 where b: "post_delete_body i w1 = (Inr un, w2)" "db w1 = db w" "db w' = db w2"
    unfolding post_Delete_def by (cases rule: InTx_cases) auto
  from b(1) obtain n m d1 where d: "soft_delete_post i (db_now w1) (db w) = Inr (n, d1)" "0 < n"
      "soft_delete_comments_of i (db_now w1) d1 = Inr (m, db w')"
    by (rule post_Delete_cases) (use b in auto)
  then have ps: "posts (db w') = update_where (\<lambda>r. pr_id r = i \<and> post_live r)
      (\<lambda>r. r\<lparr>pr_deleted := Some (db_now w1), pr_updated := db_now w1\<rparr>) (posts (db w))"
    by (simp add: soft_delete_posts)
  have "live_row (db w) i \<noteq> None"
    using d(1,2) by (auto simp: soft_delete_post_def live_row_def first_row_None count_where_pos_iff)
  with live_row_delete [OF ps] show ?case by (auto simp: live_post_def fun_eq_iff)
next
  case (27 i w e w')
  from 27 show ?case unfolding post_Delete_def
    by (rule InTx_refused) (rule post_delete_body_same_process)
qed

end
