(* ===== verification/Post_Service.thy ===== *)
theory Post_Service
  imports Post_Repo
begin

text \<open>
  \<open>internal/post/service.go\<close>: creation with slug retry, visibility of drafts, the rewritten list
  filter, the draft/published state machine of an update, and every authorisation decision about a
  post. Client lemmas are proved from the post contract alone (locale \<open>post_service\<close>); the
  properties hold for the service over the repository.
\<close>

section \<open>The service\<close>

record create_post_input =
  cp_title :: string
  cp_content :: string
  cp_status :: string

record post_list_input =
  li_author :: "uuid option"
  li_status :: "string option"
  li_search :: string
  li_page :: page_request

record update_request =
  rq_title :: "string option"
  rq_content :: "string option"
  rq_status :: "string option"

definition slugAttempts :: nat where "slugAttempts = 3"

definition status_error :: gerr where
  "status_error = Validation [\<lparr>fe_field = ''status'', fe_message = ''must be one of: draft, published''\<rparr>]"

definition no_free_slug :: "gerr option \<Rightarrow> gerr" where
  "no_free_slug e = (case e of
     None \<Rightarrow> Conflict ''could not allocate a unique slug for this title''
   | Some c \<Rightarrow> WithCause (Conflict ''could not allocate a unique slug for this title'') c)"

text \<open>
  \<open>Slugify\<close> and \<open>WithSuffix\<close> draw their four random bytes from the entropy stream. The stream is
  arbitrary, so it is advanced even where \<open>Slugify\<close> needs no suffix.
\<close>

definition slug_of_title :: "ext \<Rightarrow> string \<Rightarrow> world \<Rightarrow> string \<times> world" where
  "slug_of_title x t w = (case rand_read 4 w of (buf, w1) \<Rightarrow> (Slugify (unicode_lower x) buf t, w1))"

definition slug_candidate :: "nat \<Rightarrow> string \<Rightarrow> world \<Rightarrow> string \<times> world" where
  "slug_candidate attempt base w =
    (if attempt > 0 then (case rand_read 4 w of (buf, w1) \<Rightarrow> (WithSuffix buf base, w1)) else (base, w))"

definition publishCreated :: "ext \<Rightarrow> post \<Rightarrow> world \<Rightarrow> world" where
  "publishCreated x p = publish
    \<lparr>ev_name = (if status p = PostStatusPublished then ''post.published'' else ''post.created''),
     ev_actor = uuid_string x (post_author p), ev_subject = uuid_string x (post_id p),
     ev_request = [], ev_time = None, ev_attrs = [(''slug'', slug p), (''status'', status p)]\<rparr>"

text \<open>The retry loop; the number of attempts left goes down from \<open>slugAttempts\<close>.\<close>

fun create_attempts :: "ext \<Rightarrow> post_store \<Rightarrow> post \<Rightarrow> string \<Rightarrow> nat \<Rightarrow> gerr option \<Rightarrow> post prog" where
  "create_attempts x st p base 0 err w = (Inl (no_free_slug err), w)"
| "create_attempts x st p base (Suc left) err w =
    (case new_uuid w of (i, w1) \<Rightarrow>
     (case slug_candidate (slugAttempts - Suc left) base w1 of (s, w2) \<Rightarrow>
      (case ps_Create st (p\<lparr>post_id := i, slug := s\<rparr>) w2 of
         (Inr p', w3) \<Rightarrow> (Inr p', publishCreated x p' w3)
       | (Inl e, w3) \<Rightarrow>
          if errors_is e ErrSlugTaken then create_attempts x st p base left (Some e) w3
          else (Inl e, w3))))"

definition post_svc_Create :: "ext \<Rightarrow> post_store \<Rightarrow> actor \<Rightarrow> create_post_input \<Rightarrow> post prog" where
  "post_svc_Create x st a i w =
    (if \<not> status_Valid (cp_status i) then (Inl status_error, w)
     else
      (let t = trim_space (cp_title i);
           p = \<lparr>post_id = 0, post_author = actor_id a, title = t, slug = [],
                post_content = trim_space (cp_content i), status = cp_status i, comment_count = 0,
                published_at = (if cp_status i = PostStatusPublished then Some (clock w) else None),
                post_created = 0, post_updated = 0, author_summary = None\<rparr> in
       (case slug_of_title x t w of (base, w1) \<Rightarrow> create_attempts x st p base slugAttempts None w1)))"

definition canView :: "actor option \<Rightarrow> post \<Rightarrow> bool" where
  "canView a p \<longleftrightarrow> status p = PostStatusPublished
     \<or> (case a of None \<Rightarrow> False | Some b \<Rightarrow> CanModify b (post_author p))"

definition post_svc_ByID :: "post_store \<Rightarrow> actor option \<Rightarrow> uuid \<Rightarrow> post prog" where
  "post_svc_ByID st a i w =
    (case ps_ByID st i w of
       (Inl e, w1) \<Rightarrow> (Inl e, w1)
     | (Inr p, w1) \<Rightarrow> if \<not> canView a p then (Inl (NotFound ''post''), w1) else (Inr p, w1))"

definition drafts_forbidden :: gerr where
  "drafts_forbidden = Forbidden
     ''only your own drafts can be listed; omit the status filter or set author_id to your own id''"

definition privileged :: "actor option \<Rightarrow> uuid option \<Rightarrow> bool" where
  "privileged a author \<longleftrightarrow> (case a of None \<Rightarrow> False
     | Some b \<Rightarrow> IsAdmin b \<or> (case author of None \<Rightarrow> False | Some u \<Rightarrow> u = actor_id b))"

definition requested :: "post_list_input \<Rightarrow> list_filter" where
  "requested i = \<lparr>lf_author = li_author i, lf_status = li_status i, lf_search = li_search i, lf_page = li_page i\<rparr>"

definition post_svc_List :: "post_store \<Rightarrow> actor option \<Rightarrow> post_list_input \<Rightarrow> (post list \<times> int) prog" where
  "post_svc_List st a i w =
    (let f = requested i in
     if \<not> privileged a (li_author i)
     then (if (case li_status i of None \<Rightarrow> False | Some s \<Rightarrow> s \<noteq> PostStatusPublished)
           then (Inl drafts_forbidden, w)
           else ps_List st (f\<lparr>lf_status := Some PostStatusPublished\<rparr>) w)
     else ps_List st f w)"

definition authorize :: "actor \<Rightarrow> uuid \<Rightarrow> string \<Rightarrow> gerr option" where
  "authorize a authorID st =
    (if CanModify a authorID then None
     else if st \<noteq> PostStatusPublished then Some (NotFound ''post'')
     else Some (Forbidden ''you may only modify your own posts''))"

text \<open>The columns an update request changes, given the current status.\<close>

definition update_of_request :: "ext \<Rightarrow> string \<Rightarrow> update_request \<Rightarrow> world \<Rightarrow> (gerr + update_input) \<times> world" where
  "update_of_request x current req w =
    (let (tt, sl, w1) = (case rq_title req of None \<Rightarrow> (None, None, w)
          | Some t \<Rightarrow> (case slug_of_title x (trim_space t) w of (s, w1) \<Rightarrow> (Some (trim_space t), Some s, w1)));
         i = \<lparr>up_title = tt, up_slug = sl, up_content = map_option trim_space (rq_content req),
              up_status = None, up_published = None, up_clear_published = False\<rparr> in
     case rq_status req of
       None \<Rightarrow> (Inr i, w1)
     | Some s \<Rightarrow>
        if \<not> status_Valid s then (Inl status_error, w1)
        else (Inr (if s = PostStatusPublished \<and> current \<noteq> PostStatusPublished
                   then i\<lparr>up_status := Some s, up_published := Some (clock w1)\<rparr>
                   else if s = PostStatusDraft then i\<lparr>up_status := Some s, up_clear_published := True\<rparr>
                   else i\<lparr>up_status := Some s\<rparr>), w1))"

fun update_attempts :: "post_store \<Rightarrow> uuid \<Rightarrow> update_input \<Rightarrow> string \<Rightarrow> nat \<Rightarrow> gerr option \<Rightarrow> post prog" where
  "update_attempts st i u base 0 err w = (Inl (no_free_slug err), w)"
| "update_attempts st i u base (Suc left) err w =
    (case slug_candidate (slugAttempts - Suc left) base w of (s, w1) \<Rightarrow>
     (case ps_Update st i (u\<lparr>up_slug := Some s\<rparr>) w1 of
        (Inr p, w2) \<Rightarrow> (Inr p, w2)
      | (Inl e, w2) \<Rightarrow>
         if errors_is e ErrSlugTaken then update_attempts st i u base left (Some e) w2 else (Inl e, w2)))"

definition updateWithSlugRetry :: "post_store \<Rightarrow> uuid \<Rightarrow> update_input \<Rightarrow> post prog" where
  "updateWithSlugRetry st i u w =
    (case up_slug u of
       None \<Rightarrow> ps_Update st i u w
     | Some base \<Rightarrow> update_attempts st i u base slugAttempts None w)"

definition post_event :: "ext \<Rightarrow> string \<Rightarrow> actor \<Rightarrow> uuid \<Rightarrow> event" where
  "post_event x n a i = \<lparr>ev_name = n, ev_actor = uuid_string x (actor_id a), ev_subject = uuid_string x i,
     ev_request = [], ev_time = None, ev_attrs = []\<rparr>"

definition post_svc_Update :: "ext \<Rightarrow> post_store \<Rightarrow> actor \<Rightarrow> uuid \<Rightarrow> update_request \<Rightarrow> post prog" where
  "post_svc_Update x st a i req w =
    (case ps_AuthorOf st i w of
       (Inl e, w1) \<Rightarrow> (Inl e, w1)
     | (Inr (authorID, current), w1) \<Rightarrow>
        (case authorize a authorID current of
           Some e \<Rightarrow> (Inl e, w1)
         | None \<Rightarrow>
            (case update_of_request x current req w1 of
               (Inl e, w2) \<Rightarrow> (Inl e, w2)
             | (Inr u, w2) \<Rightarrow>
                (case updateWithSlugRetry st i u w2 of
                   (Inl e, w3) \<Rightarrow> (Inl e, w3)
                 | (Inr p, w3) \<Rightarrow>
                    (Inr p, publish (post_event x
                        (if rq_status req = Some PostStatusPublished \<and> current \<noteq> PostStatusPublished
                         then ''post.published'' else ''post.updated'') a i) w3)))))"

definition post_svc_Delete :: "ext \<Rightarrow> post_store \<Rightarrow> actor \<Rightarrow> uuid \<Rightarrow> unit prog" where
  "post_svc_Delete x st a i w =
    (case ps_AuthorOf st i w of
       (Inl e, w1) \<Rightarrow> (Inl e, w1)
     | (Inr (authorID, current), w1) \<Rightarrow>
        (case authorize a authorID current of
           Some e \<Rightarrow> (Inl e, w1)
         | None \<Rightarrow>
            (case ps_Delete st i w1 of
               (Inl e, w2) \<Rightarrow> (Inl e, w2)
             | (Inr u, w2) \<Rightarrow> (Inr (), publish (post_event x ''post.deleted'' a i) w2))))"

section \<open>Client lemmas\<close>

definition hidden_from :: "actor option \<Rightarrow> post option \<Rightarrow> bool" where
  "hidden_from a p \<longleftrightarrow> (case p of None \<Rightarrow> True | Some q \<Rightarrow> \<not> canView a q)"

definition candidate_slug :: "string \<Rightarrow> string \<Rightarrow> bool" where
  "candidate_slug base s \<longleftrightarrow> s = base \<or> (\<exists>buf. length buf = 4 \<and> s = WithSuffix buf base)"

lemma canView_without_author [simp]: "canView a (without_author p) = canView a p"
  by (simp add: canView_def without_author_def split: option.split)

lemma post_missing_NotFound [simp]: "post_missing (NotFound ''post'')"
  by (simp add: post_missing_def client_view_def api_constructors)

lemma authorize_hidden:
  "\<not> canView (Some a) p \<Longrightarrow> authorize a (post_author p) (status p) = Some (NotFound ''post'')"
  by (simp add: canView_def authorize_def)

lemma rand_read_frame:
  "rand_read n w = (b, w1) \<Longrightarrow> length b = n \<and> db w1 = db w \<and> outcomes w1 = outcomes w \<and> clock w1 = clock w
     \<and> db_now w1 = db_now w \<and> bus_log w1 = bus_log w"
  by (auto simp: rand_read_def)

lemma slug_of_title_frame:
  "slug_of_title x t w = (s, w1) \<Longrightarrow> (\<exists>buf. length buf = 4 \<and> s = Slugify (unicode_lower x) buf t)
     \<and> db w1 = db w \<and> outcomes w1 = outcomes w \<and> clock w1 = clock w \<and> db_now w1 = db_now w"
  using rand_read_frame [of 4 w] by (auto simp: slug_of_title_def split: prod.splits)

lemma slug_candidate_frame:
  "slug_candidate n base w = (s, w1) \<Longrightarrow> candidate_slug base s
     \<and> db w1 = db w \<and> outcomes w1 = outcomes w \<and> clock w1 = clock w \<and> db_now w1 = db_now w"
  using rand_read_frame [of 4 w] by (auto simp: slug_candidate_def candidate_slug_def split: prod.splits if_splits)

lemma publishCreated_simps [simp]:
  "db (publishCreated x p w) = db w" "outcomes (publishCreated x p w) = outcomes w"
  by (simp_all add: publishCreated_def publish_def)

lemma publish_db [simp]: "db (publish e w) = db w" "outcomes (publish e w) = outcomes w"
  by (simp_all add: publish_def)

lemma update_of_request_frame:
  "update_of_request x current req w = (r, w1) \<Longrightarrow> db w1 = db w \<and> outcomes w1 = outcomes w \<and> clock w1 = clock w
     \<and> db_now w1 = db_now w"
  using slug_of_title_frame [of x _ w]
  by (auto simp: update_of_request_def Let_def split: option.splits prod.splits if_splits)

context post_contract
begin

lemma live_step: "db w' = db w \<Longrightarrow> live w' = live w \<and> inv w' = inv w"
  by (simp add: live_db [of w' w] inv_db [of w' w])

lemma ByID_visible:
  assumes "post_svc_ByID st a i w = (Inr p, w')"
  shows "live w i = Some (without_author p) \<and> canView a p \<and> db w' = db w"
  using assms by (auto simp: post_svc_ByID_def split: sum.splits prod.splits if_splits
      dest: byid_ok byid_frame)

lemma hidden_reads_and_writes:
  assumes q: "outcomes w = []" "inv w" and h: "hidden_from (Some a) (live w i)"
  shows "(\<exists>e. post_svc_ByID st (Some a) i w = (Inl e, w) \<and> post_missing e)
    \<and> (\<exists>e. post_svc_Update x st a i req w = (Inl e, w) \<and> post_missing e)
    \<and> (\<exists>e. post_svc_Delete x st a i w = (Inl e, w) \<and> post_missing e)"
proof (cases "live w i")
  case None
  obtain e1 e2 where "ps_ByID st i w = (Inl e1, w)" "post_missing e1"
      "ps_AuthorOf st i w = (Inl e2, w)" "post_missing e2"
    using byid_missing [OF q(1) None] authorof_missing [OF q(1) None] by blast
  then show ?thesis by (simp add: post_svc_ByID_def post_svc_Update_def post_svc_Delete_def)
next
  case (Some p)
  with h have c: "\<not> canView (Some a) p" by (simp add: hidden_from_def)
  obtain p' where b: "ps_ByID st i w = (Inr p', w)" "without_author p' = p" using byid_quiet [OF q Some] by blast
  have "\<not> canView (Some a) p'" using c b(2) by auto
  with b(1) authorof_quiet [OF q(1) Some] authorize_hidden [OF c] show ?thesis
    by (simp add: post_svc_ByID_def post_svc_Update_def post_svc_Delete_def)
qed

lemma List_ok:
  assumes "inv w" and l: "post_svc_List st a i w = (Inr (ps, n), w')"
  shows "\<exists>all. distinct (map post_id all)
    \<and> (\<forall>p. p \<in> set all \<longleftrightarrow> live w (post_id p) = Some p \<and> post_matches x (requested i) p
          \<and> (privileged a (li_author i) \<or> status p = PostStatusPublished))
    \<and> (\<forall>p \<in> set all. canView a p)
    \<and> sorted (map (post_sort_key x (trim_space (li_search i))) all)
    \<and> map without_author ps = slice (li_page i) all
    \<and> n = (if ps = [] then 0 else int (length all)) \<and> db w' = db w"
proof -
  define f where "f = (if privileged a (li_author i) then requested i
    else (requested i)\<lparr>lf_status := Some PostStatusPublished\<rparr>)"
  have s: "\<not> privileged a (li_author i) \<Longrightarrow> li_status i = Some s \<Longrightarrow> s = PostStatusPublished" for s
    using l by (auto simp: post_svc_List_def Let_def split: if_splits)
  have run: "ps_List st f w = (Inr (ps, n), w')"
    using l s by (auto simp: post_svc_List_def Let_def f_def requested_def split: if_splits)
  have m: "post_matches x f p \<longleftrightarrow> post_matches x (requested i) p
      \<and> (privileged a (li_author i) \<or> status p = PostStatusPublished)" for p
    using s by (auto simp: f_def requested_def post_matches_def split: option.splits)
  have see: "canView a p" if "post_matches x f p" for p
    using that by (auto simp: f_def requested_def post_matches_def canView_def privileged_def CanModify_def
        split: if_splits option.splits)
  have f: "lf_page f = li_page i" "lf_search f = li_search i" by (simp_all add: f_def requested_def)
  from list_ok [OF run assms(1)] obtain all where "listing_of x f (live w) all"
      "map without_author ps = slice (li_page i) all" "n = (if ps = [] then 0 else int (length all))"
    unfolding f by blast
  with list_frame [OF run] see m f show ?thesis by (intro exI [of _ all]) (simp add: listing_of_def)
qed

lemma create_attempts_ok:
  assumes "create_attempts x st p base n err w = (Inr p', w')" "inv w" "author_summary p = None"
  shows "live w (post_id p') = None \<and> (\<forall>i q. live w i = Some q \<longrightarrow> slug q \<noteq> slug p')
    \<and> candidate_slug base (slug p')
    \<and> p' = p\<lparr>post_id := post_id p', slug := slug p', comment_count := 0,
          post_created := db_now w, post_updated := db_now w\<rparr>
    \<and> live w' = (live w)(post_id p' \<mapsto> p')"
  using assms
proof (induction n arbitrary: err w)
  case 0
  then show ?case by simp
next
  case (Suc n)
  obtain i w1 where u: "new_uuid w = (i, w1)" by fastforce
  obtain s w2 where s: "slug_candidate (slugAttempts - Suc n) base w1 = (s, w2)" by fastforce
  obtain r w3 where c: "ps_Create st (p\<lparr>post_id := i, slug := s\<rparr>) w2 = (r, w3)" by fastforce
  note f1 = new_uuid_frame [OF u] and f2 = slug_candidate_frame [OF s]
  have same: "live w2 = live w" "inv w2" "db_now w2 = db_now w"
    using f1 f2 live_step [of w2 w] Suc.prems(2) by auto
  show ?case
  proof (cases r)
    case (Inr p1)
    with Suc.prems(1) u s c have "p' = p1" "w' = publishCreated x p1 w3" by auto
    with create_ok [OF c [unfolded Inr] same(2)] Suc.prems(3) f2 same live_step [of w' w3]
    show ?thesis by (simp add: post.defs)
  next
    case (Inl e)
    with Suc.prems(1) u s c have e: "errors_is e ErrSlugTaken" and
        rest: "create_attempts x st p base n (Some e) w3 = (Inr p', w')"
      by (auto split: if_splits)
    from create_taken [OF c [unfolded Inl] same(2) e] have "db w3 = db w2" by simp
    then have w3: "live w3 = live w" "inv w3" using live_step [of w3 w2] same by auto
    have "db_now w3 = db_now w" using create_frame [OF c] same by (simp add: same_process_def)
    with Suc.IH [OF rest w3(2) Suc.prems(3)] w3(1) show ?thesis by simp
  qed
qed

lemma create_attempts_inv:
  "create_attempts x st p base n err w = (r, w') \<Longrightarrow> inv w \<Longrightarrow> inv w'"
proof (induction n arbitrary: err w)
  case (Suc n)
  obtain i w1 where u: "new_uuid w = (i, w1)" by fastforce
  obtain s w2 where s: "slug_candidate (slugAttempts - Suc n) base w1 = (s, w2)" by fastforce
  obtain q w3 where c: "ps_Create st (p\<lparr>post_id := i, slug := s\<rparr>) w2 = (q, w3)" by fastforce
  have "inv w2" using new_uuid_frame [OF u] slug_candidate_frame [OF s] live_step [of w2 w] Suc.prems(2) by simp
  then have w3: "inv w3" by (rule create_inv [OF c])
  with Suc.IH Suc.prems(1) u s c live_step [of "publishCreated x p' w3" w3 for p'] show ?case
    by (auto split: sum.splits if_splits)
qed simp

lemma create_attempts_refused:
  "create_attempts x st p base n err w = (Inl e, w') \<Longrightarrow> acknowledged w \<Longrightarrow> db w' = db w"
proof (induction n arbitrary: err w)
  case (Suc n)
  obtain i w1 where u: "new_uuid w = (i, w1)" by fastforce
  obtain s w2 where s: "slug_candidate (slugAttempts - Suc n) base w1 = (s, w2)" by fastforce
  obtain q w3 where c: "ps_Create st (p\<lparr>post_id := i, slug := s\<rparr>) w2 = (q, w3)" by fastforce
  have w2: "acknowledged w2" "db w2 = db w"
    using new_uuid_frame [OF u] slug_candidate_frame [OF s] Suc.prems(2) acknowledged_frame [of w2 w] by simp_all
  from Suc.prems(1) u s c obtain e1 where q: "q = Inl e1" by (auto split: sum.splits)
  have "db w3 = db w" using create_error [OF c [unfolded q] w2(1)] w2(2) by simp
  moreover have "acknowledged w3" using create_frame [OF c] w2(1) by (simp add: same_process_def)
  ultimately show ?case using Suc.IH Suc.prems(1) u s c q by (auto split: if_splits)
qed simp

lemma update_attempts_ok:
  assumes "update_attempts st i u base n err w = (Inr p', w')" "inv w"
  shows "\<exists>s p. candidate_slug base s \<and> live w i = Some p
    \<and> without_author p' = updated_post (u\<lparr>up_slug := Some s\<rparr>) (db_now w) p
    \<and> live w' = (live w)(i \<mapsto> updated_post (u\<lparr>up_slug := Some s\<rparr>) (db_now w) p)"
  using assms
proof (induction n arbitrary: err w)
  case 0
  then show ?case by simp
next
  case (Suc n)
  obtain s w1 where s: "slug_candidate (slugAttempts - Suc n) base w = (s, w1)" by fastforce
  obtain r w2 where c: "ps_Update st i (u\<lparr>up_slug := Some s\<rparr>) w1 = (r, w2)" by fastforce
  note f = slug_candidate_frame [OF s]
  have same: "live w1 = live w" "inv w1" "db_now w1 = db_now w"
    using f live_step [of w1 w] Suc.prems(2) by auto
  show ?case
  proof (cases r)
    case (Inr p1)
    with Suc.prems(1) s c have "p' = p1" "w' = w2" by auto
    with update_ok [OF c [unfolded Inr] same(2)] f same show ?thesis
      by (intro exI [of _ s]) (auto simp: fun_eq_iff)
  next
    case (Inl e)
    with Suc.prems(1) s c have e: "errors_is e ErrSlugTaken" and
        rest: "update_attempts st i u base n (Some e) w2 = (Inr p', w')"
      by (auto split: if_splits)
    have "db w2 = db w1" by (rule update_taken [OF c [unfolded Inl] e])
    then have w2: "live w2 = live w" "inv w2" using live_step [of w2 w1] same by auto
    have "db_now w2 = db_now w" using update_frame [OF c] same by (simp add: same_process_def)
    with Suc.IH [OF rest w2(2)] w2(1) show ?thesis by simp
  qed
qed

lemma update_attempts_inv:
  "update_attempts st i u base n err w = (r, w') \<Longrightarrow> inv w \<Longrightarrow> inv w'"
proof (induction n arbitrary: err w)
  case (Suc n)
  obtain s w1 where s: "slug_candidate (slugAttempts - Suc n) base w = (s, w1)" by fastforce
  obtain q w2 where c: "ps_Update st i (u\<lparr>up_slug := Some s\<rparr>) w1 = (q, w2)" by fastforce
  have "inv w1" using slug_candidate_frame [OF s] live_step [of w1 w] Suc.prems(2) by simp
  then have "inv w2" by (rule update_inv [OF c])
  with Suc.IH Suc.prems(1) s c show ?case by (auto split: sum.splits if_splits)
qed simp

lemma update_retry_ok:
  assumes "updateWithSlugRetry st i u w = (Inr p', w')" "inv w"
  shows "\<exists>s p. (case up_slug u of None \<Rightarrow> s = None | Some base \<Rightarrow> \<exists>c. s = Some c \<and> candidate_slug base c)
    \<and> live w i = Some p \<and> without_author p' = updated_post (u\<lparr>up_slug := s\<rparr>) (db_now w) p
    \<and> live w' = (live w)(i \<mapsto> updated_post (u\<lparr>up_slug := s\<rparr>) (db_now w) p)"
proof (cases "up_slug u")
  case None
  then have e: "u\<lparr>up_slug := None\<rparr> = u" by simp
  from None assms(1) have "ps_Update st i u w = (Inr p', w')" by (simp add: updateWithSlugRetry_def)
  from update_ok [OF this assms(2)] show ?thesis
    by (intro exI [of _ None]) (simp add: None e)
next
  case (Some base)
  with assms(1) have "update_attempts st i u base slugAttempts None w = (Inr p', w')"
    by (simp add: updateWithSlugRetry_def)
  from update_attempts_ok [OF this assms(2)] Some show ?thesis by auto
qed

lemma Update_ok:
  assumes "inv w" and u: "post_svc_Update x st a i req w = (Inr p', w')"
  shows "\<exists>p q. live w i = Some p \<and> CanModify a (post_author p)
    \<and> (\<forall>s. rq_status req = Some s \<longrightarrow> status_Valid s)
    \<and> live w' = (live w)(i \<mapsto> q) \<and> without_author p' = q
    \<and> post_author q = post_author p \<and> comment_count q = comment_count p \<and> post_created q = post_created p
    \<and> title q = upd (map_option trim_space (rq_title req)) (title p)
    \<and> post_content q = upd (map_option trim_space (rq_content req)) (post_content p)
    \<and> status q = upd (rq_status req) (status p)
    \<and> published_at q = (case rq_status req of None \<Rightarrow> published_at p
         | Some s \<Rightarrow> if s = PostStatusDraft then None
             else if status p = PostStatusPublished then published_at p else Some (clock w))
    \<and> (case rq_title req of None \<Rightarrow> slug q = slug p
       | Some t \<Rightarrow> \<exists>buf. length buf = 4 \<and> candidate_slug (Slugify (unicode_lower x) buf (trim_space t)) (slug q))"
proof -
  from u obtain au cur w1 where ao: "ps_AuthorOf st i w = (Inr (au, cur), w1)"
      and az: "authorize a au cur = None"
    by (auto simp: post_svc_Update_def split: sum.splits prod.splits option.splits)
  from authorof_ok [OF ao] obtain p where p: "live w i = Some p" "post_author p = au" "status p = cur" by blast
  have can: "CanModify a (post_author p)" using az p by (simp add: authorize_def split: if_splits)
  from u ao az obtain c w2 w3 e where ur: "update_of_request x cur req w1 = (Inr c, w2)"
      and ret: "updateWithSlugRetry st i c w2 = (Inr p', w3)" and w': "w' = publish e w3"
    by (auto simp: post_svc_Update_def split: sum.splits prod.splits)
  note f0 = authorof_frame [OF ao] and f1 = update_of_request_frame [OF ur]
  then have same: "live w2 = live w" "inv w2" "clock w1 = clock w"
    using live_step [of w2 w] assms(1) by (auto simp: same_process_def)
  from update_retry_ok [OF ret same(2)] obtain s p2 where
      sl: "case up_slug c of None \<Rightarrow> s = None | Some base \<Rightarrow> \<exists>k. s = Some k \<and> candidate_slug base k"
    and p2: "live w2 i = Some p2"
    and q: "without_author p' = updated_post (c\<lparr>up_slug := s\<rparr>) (db_now w2) p2"
      "live w3 = (live w2)(i \<mapsto> updated_post (c\<lparr>up_slug := s\<rparr>) (db_now w2) p2)" by blast
  have pp: "p2 = p" using p2 p(1) same(1) by simp
  have lw': "live w' = live w3" using w' live_step [of w' w3] by simp
  have cols: "up_title c = map_option trim_space (rq_title req)" "up_content c = map_option trim_space (rq_content req)"
      "up_status c = rq_status req" "\<forall>t. rq_status req = Some t \<longrightarrow> status_Valid t"
      "up_clear_published c \<longleftrightarrow> rq_status req = Some PostStatusDraft"
      "up_published c = (if rq_status req = Some PostStatusPublished \<and> cur \<noteq> PostStatusPublished
          then Some (clock w) else None)"
    using ur same(3) slug_of_title_frame [of x _ w1]
    by (auto simp: update_of_request_def Let_def split: option.splits prod.splits if_splits)
  have sc: "case rq_title req of None \<Rightarrow> up_slug c = None
      | Some t \<Rightarrow> \<exists>buf. length buf = 4 \<and> up_slug c = Some (Slugify (unicode_lower x) buf (trim_space t))"
    using ur slug_of_title_frame [of x _ w1]
    by (auto simp: update_of_request_def Let_def split: option.splits prod.splits if_splits)
  let ?q = "updated_post (c\<lparr>up_slug := s\<rparr>) (db_now w2) p"
  have slug: "case rq_title req of None \<Rightarrow> slug ?q = slug p
      | Some t \<Rightarrow> \<exists>buf. length buf = 4 \<and> candidate_slug (Slugify (unicode_lower x) buf (trim_space t)) (slug ?q)"
    using sc sl by (auto simp: updated_post_def no_changes_def split: option.splits)
  have pub: "published_at ?q = (case rq_status req of None \<Rightarrow> published_at p
         | Some s \<Rightarrow> if s = PostStatusDraft then None
             else if status p = PostStatusPublished then published_at p else Some (clock w))"
    using cols p(3) by (auto simp: updated_post_def no_changes_def status_Valid_def split: option.splits)
  show ?thesis
    by (rule exI [of _ p], rule exI [of _ ?q], intro conjI)
       (use p(1) can cols q lw' pp same slug pub in \<open>auto simp: updated_post_def no_changes_def\<close>)
qed

lemma Delete_ok:
  assumes "inv w" and d: "post_svc_Delete x st a i w = (Inr un, w')"
  shows "\<exists>p. live w i = Some p \<and> CanModify a (post_author p) \<and> live w' = (live w)(i := None)"
proof -
  from d obtain au cur w1 w2 e where ao: "ps_AuthorOf st i w = (Inr (au, cur), w1)"
      and az: "authorize a au cur = None" and de: "ps_Delete st i w1 = (Inr (), w2)" and w': "w' = publish e w2"
    by (auto simp: post_svc_Delete_def split: sum.splits prod.splits option.splits)
  from authorof_ok [OF ao] obtain p where p: "live w i = Some p" "post_author p = au" "status p = cur" by blast
  have w1: "live w1 = live w" "inv w1" using authorof_frame [OF ao] live_step [of w1 w] assms(1) by auto
  from delete_ok [OF de w1(2)] w1 p az live_step [of w' w2] w' show ?thesis
    by (auto simp: authorize_def split: if_splits)
qed

lemma Create_ok:
  assumes "inv w" and c: "post_svc_Create x st a i w = (Inr p, w')"
  shows "status_Valid (cp_status i) \<and> live w (post_id p) = None
    \<and> (\<forall>j q. live w j = Some q \<longrightarrow> slug q \<noteq> slug p)
    \<and> (\<exists>buf. length buf = 4 \<and> candidate_slug (Slugify (unicode_lower x) buf (trim_space (cp_title i))) (slug p))
    \<and> post_author p = actor_id a \<and> title p = trim_space (cp_title i)
    \<and> post_content p = trim_space (cp_content i) \<and> status p = cp_status i \<and> comment_count p = 0
    \<and> published_at p = (if cp_status i = PostStatusPublished then Some (clock w) else None)
    \<and> live w' = (live w)(post_id p \<mapsto> p)"
proof -
  let ?p = "\<lparr>post_id = 0, post_author = actor_id a, title = trim_space (cp_title i), slug = [],
                post_content = trim_space (cp_content i), status = cp_status i, comment_count = 0,
                published_at = (if cp_status i = PostStatusPublished then Some (clock w) else None),
                post_created = 0, post_updated = 0, author_summary = None\<rparr>"
  obtain base w1 where s: "slug_of_title x (trim_space (cp_title i)) w = (base, w1)" by fastforce
  with c have v: "status_Valid (cp_status i)" and r: "create_attempts x st ?p base slugAttempts None w1 = (Inr p, w')"
    by (auto simp: post_svc_Create_def Let_def split: if_splits)
  note f = slug_of_title_frame [OF s]
  have w1: "live w1 = live w" "inv w1" using f live_step [of w1 w] assms(1) by auto
  have "author_summary ?p = None" by simp
  note ok = create_attempts_ok [OF r w1(2) this]
  then have p: "p = ?p\<lparr>post_id := post_id p, slug := slug p, comment_count := 0,
          post_created := db_now w1, post_updated := db_now w1\<rparr>" by blast
  have "post_author p = actor_id a" "title p = trim_space (cp_title i)" "post_content p = trim_space (cp_content i)"
      "status p = cp_status i" "comment_count p = 0"
      "published_at p = (if cp_status i = PostStatusPublished then Some (clock w) else None)"
    by (subst p, simp)+
  with ok v w1 f show ?thesis by auto
qed

lemma operations_keep_inv:
  "post_svc_Create x st a ci w = (r1, w') \<Longrightarrow> inv w \<Longrightarrow> inv w'"
  "post_svc_Update x st a i req w = (r1, w') \<Longrightarrow> inv w \<Longrightarrow> inv w'"
  "post_svc_Delete x st a i w = (r2, w') \<Longrightarrow> inv w \<Longrightarrow> inv w'"
proof -
  assume c: "post_svc_Create x st a ci w = (r1, w')" "inv w"
  obtain base w1 where s: "slug_of_title x (trim_space (cp_title ci)) w = (base, w1)" by fastforce
  have "inv w1" using slug_of_title_frame [OF s] live_step [of w1 w] c(2) by simp
  with c s create_attempts_inv show "inv w'"
    by (auto simp: post_svc_Create_def Let_def split: if_splits)
next
  assume u: "post_svc_Update x st a i req w = (r1, w')" "inv w"
  obtain q w1 where ao: "ps_AuthorOf st i w = (q, w1)" by fastforce
  have w1: "inv w1" using authorof_frame [OF ao] live_step [of w1 w] u(2) by auto
  have w2: "inv w2" if "update_of_request x cur req w1 = (c, w2)" for cur c w2
    using update_of_request_frame [OF that] live_step [of w2 w1] w1 by simp
  have w3: "inv w3" if "updateWithSlugRetry st i c w2 = (p, w3)" "inv w2" for c w2 p w3
    using that update_attempts_inv update_inv by (auto simp: updateWithSlugRetry_def split: option.splits)
  show "inv w'"
    using u(1) ao w1 w2 w3 live_step [of "publish e v" v for e v]
    by (auto simp: post_svc_Update_def split: sum.splits prod.splits option.splits)
next
  assume d: "post_svc_Delete x st a i w = (r2, w')" "inv w"
  obtain q w1 where ao: "ps_AuthorOf st i w = (q, w1)" by fastforce
  have w1: "inv w1" using authorof_frame [OF ao] live_step [of w1 w] d(2) by auto
  show "inv w'"
    using d(1) ao w1 delete_inv live_step [of "publish e v" v for e v]
    by (auto simp: post_svc_Delete_def split: sum.splits prod.splits option.splits)
qed

end

section \<open>Properties\<close>

text \<open>C11: to an actor who may not see it, a draft is answered exactly like a post that does not exist: the
  read, the update and the delete all give the same 404, and nothing changes, not even the log of
  events.\<close>

theorem hidden_draft_looks_missing:
  assumes "outcomes w = []" "blog_wf (db w)" and "hidden_from (Some a) (live_post w i)"
  shows "(\<exists>e. post_svc_ByID (post_repository x) (Some a) i w = (Inl e, w) \<and> post_missing e)
    \<and> (\<exists>e. post_svc_Update x (post_repository x) a i req w = (Inl e, w) \<and> post_missing e)
    \<and> (\<exists>e. post_svc_Delete x (post_repository x) a i w = (Inl e, w) \<and> post_missing e)"
  by (rule post_rows.hidden_reads_and_writes [OF assms])

text \<open>C12: a listing is one page of the totally ordered sequence of exactly the live posts that match the
  request and that the actor may see: nothing hidden is in it, nothing it should show is missing,
  and the total is the length of that sequence unless the page is empty.\<close>

theorem listing_is_exact:
  assumes "blog_wf (db w)" and "post_svc_List (post_repository x) a i w = (Inr (ps, n), w')"
  shows "\<exists>all. distinct (map post_id all)
    \<and> (\<forall>p. p \<in> set all \<longleftrightarrow> live_post w (post_id p) = Some p \<and> post_matches x (requested i) p
          \<and> (privileged a (li_author i) \<or> status p = PostStatusPublished))
    \<and> (\<forall>p \<in> set all. canView a p)
    \<and> sorted (map (post_sort_key x (trim_space (li_search i))) all)
    \<and> map without_author ps = slice (li_page i) all
    \<and> n = (if ps = [] then 0 else int (length all)) \<and> db w' = db w"
  by (rule post_rows.List_ok [OF assms])

text \<open>A created post is new, belongs to the actor, has the trimmed text and the requested status with
  a publication time exactly when published, and a slug made from its title that no live post has;
  every other post is untouched.\<close>

theorem created_post_is_fresh:
  assumes "blog_wf (db w)" and "post_svc_Create x (post_repository x) a i w = (Inr p, w')"
  shows "status_Valid (cp_status i) \<and> live_post w (post_id p) = None
    \<and> (\<forall>j q. live_post w j = Some q \<longrightarrow> slug q \<noteq> slug p)
    \<and> (\<exists>buf. length buf = 4 \<and> candidate_slug (Slugify (unicode_lower x) buf (trim_space (cp_title i))) (slug p))
    \<and> post_author p = actor_id a \<and> title p = trim_space (cp_title i)
    \<and> post_content p = trim_space (cp_content i) \<and> status p = cp_status i \<and> comment_count p = 0
    \<and> published_at p = (if cp_status i = PostStatusPublished then Some (clock w) else None)
    \<and> live_post w' = (live_post w)(post_id p \<mapsto> p)"
  by (rule post_rows.Create_ok [OF assms])

text \<open>C28: an update that succeeds was made by the author or an administrator, changes one post, and only
  the requested columns of it: the publication time is set when a draft is published, cleared when a
  post goes back to draft and otherwise kept, the slug follows the title, and owner, comment count
  and creation time never change.\<close>

theorem update_changes_what_was_asked:
  assumes "blog_wf (db w)" and "post_svc_Update x (post_repository x) a i req w = (Inr p', w')"
  shows "\<exists>p q. live_post w i = Some p \<and> CanModify a (post_author p)
    \<and> (\<forall>s. rq_status req = Some s \<longrightarrow> status_Valid s)
    \<and> live_post w' = (live_post w)(i \<mapsto> q) \<and> without_author p' = q
    \<and> post_author q = post_author p \<and> comment_count q = comment_count p \<and> post_created q = post_created p
    \<and> title q = upd (map_option trim_space (rq_title req)) (title p)
    \<and> post_content q = upd (map_option trim_space (rq_content req)) (post_content p)
    \<and> status q = upd (rq_status req) (status p)
    \<and> published_at q = (case rq_status req of None \<Rightarrow> published_at p
         | Some s \<Rightarrow> if s = PostStatusDraft then None
             else if status p = PostStatusPublished then published_at p else Some (clock w))
    \<and> (case rq_title req of None \<Rightarrow> slug q = slug p
       | Some t \<Rightarrow> \<exists>buf. length buf = 4 \<and> candidate_slug (Slugify (unicode_lower x) buf (trim_space t)) (slug q))"
  by (rule post_rows.Update_ok [OF assms])


section \<open>Witnesses\<close>

definition bo :: user where
  "bo = \<lparr>user_id = 3, email = ''bo@x.io'', username = ''bob'', display_name = ''Bo'',
     password_hash = hash_tag, role = RoleUser, user_created = 0, user_updated = 0\<rparr>"

definition draft_row :: post_row where
  "draft_row = \<lparr>pr_id = 20, pr_author = 3, pr_title = ''Plans'', pr_slug = ''plans'', pr_content = ''soon'',
     pr_status = PostStatusDraft, pr_count = 0, pr_published = None, pr_created = 5, pr_updated = 5, pr_deleted = None\<rparr>"

definition news_row :: post_row where
  "news_row = draft_row\<lparr>pr_id := 21, pr_title := ''News'', pr_slug := ''news'', pr_status := PostStatusPublished,
     pr_count := 1, pr_published := Some 6\<rparr>"

definition news_comment :: comment_row where
  "news_comment = \<lparr>cr_id = 30, cr_post = 21, cr_author = 3, cr_parent = None, cr_content = ''hi'',
     cr_created = 7, cr_updated = 7, cr_deleted = None\<rparr>"

definition blog_world :: world where
  "blog_world = empty_world\<lparr>db := \<lparr>users = [bo], posts = [draft_row, news_row], comments = [news_comment], tokens = []\<rparr>,
     entropy := (\<lambda>n. CHR ''z'')\<rparr>"

abbreviation bo_actor :: actor where "bo_actor \<equiv> \<lparr>actor_id = 3, actor_role = RoleUser\<rparr>"
abbreviation stranger :: actor where "stranger \<equiv> \<lparr>actor_id = 4, actor_role = RoleUser\<rparr>"

lemmas blog_rows = blog_world_def bo_def draft_row_def news_row_def news_comment_def

lemma sample_lengths: "rune_count ''plans'' = 5" "rune_count ''news'' = 4" "rune_count ''Plans'' = 5" "rune_count ''News'' = 4"
    "rune_count ''soon'' = 4" "rune_count ''hi'' = 2"
  by (simp_all add: rune_count_def)

lemma blog_world_wf: "blog_wf (db blog_world)" "outcomes blog_world = []"
  by (simp_all add: blog_rows blog_wf_def posts_wf_def comments_wf_def comment_row_wf_def counts_agree_def
      live_comments_of_def post_live_def comment_live_def posts_checks_def comments_checks_def btrim_def
      trim_char_def trim_both_def sample_lengths posts_slug_format_def slug_pattern_def slug_rune_def
      PostStatusDraft_def PostStatusPublished_def empty_world_def)

lemma live_samples [simp]: "live_row (db blog_world) 20 = Some draft_row" "live_row (db blog_world) 21 = Some news_row"
    "live_post blog_world 20 = Some (plain_post draft_row)"
  by (simp_all add: blog_rows live_row_def post_live_def live_post_def)

theorem hidden_draft_looks_missing_witness:
  "\<exists>e. post_svc_ByID (post_repository sample_jwt) (Some stranger) 20 blog_world = (Inl e, blog_world) \<and> post_missing e"
proof -
  have "hidden_from (Some stranger) (live_post blog_world 20)"
    by (simp add: hidden_from_def canView_def draft_row_def CanModify_def IsAdmin_def)
  from hidden_draft_looks_missing [OF blog_world_wf(2,1) this] show ?thesis by blast
qed

definition anybodys_listing :: post_list_input where
  "anybodys_listing = \<lparr>li_author = None, li_status = None, li_search = [], li_page = \<lparr>pg_page = 1, pg_limit = 20\<rparr>\<rparr>"

lemma sample_text: "valid_utf8 ''published''" "valid_utf8 ''draft''" "valid_utf8 ''hello''" "valid_utf8 ''Hello''" "valid_utf8 []"
    "rune_count ''hello'' = 5" "rune_count ''Hello'' = 5" "trim_space [] = []" "trim_space ''Hello '' = ''Hello''"
  by (simp_all add: valid_utf8_def rune_error_def rune_count_def trim_space_def trim_both_def is_space_def)

lemma sample_selected:
  "select_posts sample_jwt \<lparr>lf_author = None, lf_status = Some PostStatusPublished, lf_search = [],
       lf_page = \<lparr>pg_page = 1, pg_limit = 20\<rparr>\<rparr> t (db blog_world)
    = Inr (([scanPost news_row bo], 1), db blog_world)"
  by (simp add: select_posts_def listed_rows_def pg_text_def sample_text PostStatusPublished_def PostStatusDraft_def
      slice_def Offset_def wrap64_def post_matches_def join_author_def author_row_def post_live_def map_filter_simps
      blog_rows Let_def)

lemma sample_listing: "post_svc_List (post_repository sample_jwt) None anybodys_listing blog_world
    = (Inr ([scanPost news_row bo], 1), blog_world)"
  by (simp add: post_svc_List_def requested_def anybodys_listing_def privileged_def post_List_def execute_quiet
      blog_world_wf sample_selected)

theorem listing_is_exact_witness:
  "\<exists>ps n. post_svc_List (post_repository sample_jwt) None anybodys_listing blog_world = (Inr (ps, n), blog_world)
    \<and> ps \<noteq> [] \<and> n = 1"
proof -
  from listing_is_exact [OF blog_world_wf(1) sample_listing] sample_listing show ?thesis by auto
qed

definition hello_input :: create_post_input where
  "hello_input = \<lparr>cp_title = ''Hello '', cp_content = ''soon'', cp_status = PostStatusDraft\<rparr>"

lemma hello_slug: "Slugify (unicode_lower sample_jwt) ''zzzz'' ''Hello'' = ''hello''"
  by (simp add: Slugify_def to_lower_def runes_def lower_rune_def encode_rune_def char_of_def bit_iff_odd slug_rune_def
      trim_char_def trim_both_def maxSlugLen_def Let_def)

lemma hello_inserted:
  "\<exists>d. insert_post \<lparr>post_id = 1, post_author = 3, title = ''Hello'', slug = ''hello'', post_content = ''soon'',
      status = PostStatusDraft, comment_count = 0, published_at = None, post_created = 0, post_updated = 0,
      author_summary = None\<rparr> t (db blog_world) = Inr ((0, t, t), d)"
proof -
  have "valid_utf8 ''soon''" by (simp add: valid_utf8_def rune_error_def)
  then show ?thesis
    by (simp add: insert_post_def post_row_of_def posts_checks_def btrim_def trim_char_def trim_both_def sample_text
        sample_lengths posts_slug_format_def slug_pattern_def slug_rune_def PostStatusDraft_def
        PostStatusPublished_def pg_text_def post_live_def blog_rows Let_def)
qed

lemma hello_created: "\<exists>p w. post_svc_Create sample_jwt (post_repository sample_jwt) bo_actor hello_input blog_world = (Inr p, w)
    \<and> post_created p = 1000 * second \<and> post_updated p = 1000 * second \<and> outcomes w = []"
proof -
  let ?w1 = "blog_world\<lparr>entropy_next := 4\<rparr>"
  have s: "slug_of_title sample_jwt ''Hello'' blog_world = (''hello'', ?w1)"
    using hello_slug by (simp add: slug_of_title_def rand_read_def blog_world_def empty_world_def upt_rec)
  have u: "new_uuid ?w1 = (1, ?w1\<lparr>uuid_next := Suc 0\<rparr>)"
    by (simp add: new_uuid_def blog_world_def empty_world_def)
  have t: "trim_space ''soon'' = ''soon''" by (simp add: trim_space_def trim_both_def is_space_def)
  have now: "db_now blog_world = 1000 * second" by (simp add: blog_world_def empty_world_def)
  obtain d where i: "insert_post \<lparr>post_id = 1, post_author = 3, title = ''Hello'', slug = ''hello'', post_content = ''soon'',
      status = PostStatusDraft, comment_count = 0, published_at = None, post_created = 0, post_updated = 0,
      author_summary = None\<rparr> (1000 * second) (db blog_world) = Inr ((0, 1000 * second, 1000 * second), d)"
    using hello_inserted by blast
  note loop = create_attempts.simps(2) [where left = 2, simplified]
  show ?thesis
    by (simp add: post_svc_Create_def hello_input_def sample_text s t loop slugAttempts_def u slug_candidate_def post_Create_def
        execute_quiet blog_world_wf now i Let_def)
qed

theorem created_post_is_fresh_witness:
  "\<exists>p w. post_svc_Create sample_jwt (post_repository sample_jwt) bo_actor hello_input blog_world = (Inr p, w)
    \<and> live_post w (post_id p) = Some p \<and> title p = ''Hello'' \<and> post_author p = 3"
proof -
  obtain p w where r: "post_svc_Create sample_jwt (post_repository sample_jwt) bo_actor hello_input blog_world = (Inr p, w)"
    using hello_created by blast
  from created_post_is_fresh [OF blog_world_wf(1) r] r show ?thesis by (simp add: hello_input_def sample_text)
qed

definition publish_request :: update_request where
  "publish_request = \<lparr>rq_title = None, rq_content = None, rq_status = Some PostStatusPublished\<rparr>"

lemma bo_updated:
  "\<exists>p d. update_post 20 \<lparr>up_title = None, up_slug = None, up_content = None, up_status = Some PostStatusPublished,
      up_published = Some t', up_clear_published = False\<rparr> t (db blog_world) = Inr (Some p, d)"
  by (simp add: update_post_def pg_text_def sample_text, simp add: PostStatusPublished_def PostStatusDraft_def
      draft_row_def set_columns_def posts_checks_def btrim_def trim_char_def trim_both_def sample_lengths sample_text
      posts_slug_format_def slug_pattern_def slug_rune_def join_author_def author_row_def blog_world_def bo_def news_row_def)

lemma bo_publishes: "\<exists>p w. post_svc_Update sample_jwt (post_repository sample_jwt) bo_actor 20 publish_request blog_world = (Inr p, w)"
proof -
  obtain p d where u: "update_post 20 \<lparr>up_title = None, up_slug = None, up_content = None,
      up_status = Some PostStatusPublished, up_published = Some (clock blog_world), up_clear_published = False\<rparr>
      (db_now blog_world) (db blog_world) = Inr (Some p, d)"
    using bo_updated by blast
  have "CanModify bo_actor (pr_author draft_row)" "pr_status draft_row = PostStatusDraft"
    by (simp_all add: CanModify_def draft_row_def)
  then show ?thesis
    by (simp add: post_svc_Update_def post_AuthorOf_def execute_quiet blog_world_wf select_owner_def authorize_def
        publish_request_def update_of_request_def updateWithSlugRetry_def post_Update_def no_changes_def u)
qed

theorem update_changes_what_was_asked_witness:
  "\<exists>p w q. post_svc_Update sample_jwt (post_repository sample_jwt) bo_actor 20 publish_request blog_world = (Inr p, w)
    \<and> live_post w 20 = Some q \<and> status q = PostStatusPublished \<and> published_at q = Some (clock blog_world)"
proof -
  obtain p w where r: "post_svc_Update sample_jwt (post_repository sample_jwt) bo_actor 20 publish_request blog_world = (Inr p, w)"
    using bo_publishes by blast
  from update_changes_what_was_asked [OF blog_world_wf(1) r] r show ?thesis
    by (auto simp: publish_request_def draft_row_def)
qed

lemma bo_deletes: "\<exists>w. post_svc_Delete sample_jwt (post_repository sample_jwt) bo_actor 21 blog_world = (Inr (), w)"
  by (simp add: post_svc_Delete_def post_AuthorOf_def execute_quiet blog_world_wf select_owner_def authorize_def
      CanModify_def post_Delete_def InTx_def begin_tx_def post_delete_body_def soft_delete_post_def
      soft_delete_comments_of_def round_trip_no_outcomes)
    (simp add: blog_rows post_live_def)


end
