(* ===== verification/Comment_Store.thy ===== *)
theory Comment_Store
  imports User_Store Blog
begin

text \<open>
  The two interfaces \<open>internal/comment/service.go\<close> declares: its persistence and the slice of the
  post service it asks about visibility. Their contracts speak of the live comments and the live
  posts as maps by id; deleting is specified by the thread below a comment, as an inductive set.
\<close>

record comment_store =
  cs_Create :: "cmt \<Rightarrow> cmt prog"
  cs_ByID :: "uuid \<Rightarrow> cmt prog"
  cs_AuthorAndPostOf :: "uuid \<Rightarrow> (uuid \<times> uuid) prog"
  cs_ListByPost :: "uuid \<Rightarrow> page_request \<Rightarrow> (cmt list \<times> int) prog"
  cs_Update :: "uuid \<Rightarrow> string \<Rightarrow> cmt prog"
  cs_Delete :: "uuid \<Rightarrow> uuid \<Rightarrow> unit prog"

text \<open>A live comment and everything below it through live replies.\<close>

inductive in_thread :: "(uuid \<Rightarrow> cmt option) \<Rightarrow> uuid \<Rightarrow> uuid \<Rightarrow> bool" for m i where
  root: "m i = Some c \<Longrightarrow> in_thread m i i"
| reply: "in_thread m i j \<Longrightarrow> m k = Some c \<Longrightarrow> parent_id c = Some j \<Longrightarrow> in_thread m i k"

inductive_cases in_threadE: "in_thread m i k"

lemma in_thread_live: "in_thread m i k \<Longrightarrow> m k \<noteq> None"
  by (erule in_threadE) auto

definition plain :: "cmt \<Rightarrow> cmt" where "plain c = c\<lparr>cmt_author_summary := None\<rparr>"

definition comment_sort_key :: "cmt \<Rightarrow> int \<times> int" where
  "comment_sort_key c = (cmt_created c, uint (cmt_id c))"

definition thread_listing :: "(uuid \<Rightarrow> cmt option) \<Rightarrow> uuid \<Rightarrow> cmt list \<Rightarrow> bool" where
  "thread_listing m i cs \<longleftrightarrow> distinct (map cmt_id cs)
     \<and> (\<forall>c. c \<in> set cs \<longleftrightarrow> m (cmt_id c) = Some c \<and> cmt_post c = i)
     \<and> sorted (map comment_sort_key cs)"

definition comment_missing :: "gerr \<Rightarrow> bool" where
  "comment_missing e \<longleftrightarrow> client_view e = (CodeNotFound, 404, ''comment not found'', [])"

locale comment_contract =
  fixes st :: comment_store
    and live :: "world \<Rightarrow> uuid \<Rightarrow> cmt option"
    and livep :: "world \<Rightarrow> uuid \<Rightarrow> post option"
    and inv :: "world \<Rightarrow> bool"
  assumes live_id: "live w i = Some c \<Longrightarrow> cmt_id c = i \<and> cmt_author_summary c = None"
    and live_on_live: "inv w \<Longrightarrow> live w i = Some c \<Longrightarrow> livep w (cmt_post c) \<noteq> None"
    and view_db: "db w' = db w \<Longrightarrow> live w' = live w \<and> livep w' = livep w \<and> inv w' = inv w"
    and create_frame: "cs_Create st c w = (r, w') \<Longrightarrow> same_process w w'"
    and create_inv: "cs_Create st c w = (r, w') \<Longrightarrow> inv w \<Longrightarrow> inv w'"
    and create_ok: "cs_Create st c w = (Inr c', w') \<Longrightarrow> inv w \<Longrightarrow> cmt_author_summary c = None \<Longrightarrow>
      live w (cmt_id c) = None \<and> c' = c\<lparr>cmt_created := db_now w, cmt_updated := db_now w\<rparr>
      \<and> live w' = (live w)(cmt_id c \<mapsto> c')
      \<and> (\<exists>p. livep w (cmt_post c) = Some p
          \<and> livep w' = (livep w)(cmt_post c \<mapsto> p\<lparr>comment_count := comment_count p + 1, post_updated := db_now w\<rparr>))"
    and create_error: "cs_Create st c w = (Inl e, w') \<Longrightarrow> acknowledged w \<Longrightarrow> db w' = db w"
    and byid_frame: "cs_ByID st i w = (r, w') \<Longrightarrow> same_process w w' \<and> db w' = db w"
    and byid_ok: "cs_ByID st i w = (Inr c, w') \<Longrightarrow> live w i = Some (plain c)"
    and byid_missing: "outcomes w = [] \<Longrightarrow> live w i = None \<Longrightarrow> \<exists>e. cs_ByID st i w = (Inl e, w) \<and> comment_missing e"
    and byid_quiet: "outcomes w = [] \<Longrightarrow> inv w \<Longrightarrow> live w i = Some c \<Longrightarrow>
      \<exists>c'. cs_ByID st i w = (Inr c', w) \<and> plain c' = c"
    and owner_frame: "cs_AuthorAndPostOf st i w = (r1, w') \<Longrightarrow> same_process w w' \<and> db w' = db w"
    and owner_ok: "cs_AuthorAndPostOf st i w = (Inr (a, p), w') \<Longrightarrow>
      \<exists>c. live w i = Some c \<and> cmt_author c = a \<and> cmt_post c = p"
    and list_frame: "cs_ListByPost st i pg w = (r2, w') \<Longrightarrow> same_process w w' \<and> db w' = db w"
    and list_ok: "cs_ListByPost st i pg w = (Inr (cs, n), w') \<Longrightarrow> inv w \<Longrightarrow>
      \<exists>all. thread_listing (live w) i all \<and> map plain cs = slice pg all
        \<and> n = (if cs = [] then 0 else int (length all))"
    and update_frame: "cs_Update st i t w = (r, w') \<Longrightarrow> same_process w w'"
    and update_inv: "cs_Update st i t w = (r, w') \<Longrightarrow> inv w \<Longrightarrow> inv w'"
    and update_ok: "cs_Update st i t w = (Inr c', w') \<Longrightarrow> inv w \<Longrightarrow>
      \<exists>c. live w i = Some c \<and> plain c' = c\<lparr>cmt_content := t, cmt_updated := db_now w\<rparr>
        \<and> live w' = (live w)(i \<mapsto> c\<lparr>cmt_content := t, cmt_updated := db_now w\<rparr>) \<and> livep w' = livep w"
    and delete_frame: "cs_Delete st i q w = (r3, w') \<Longrightarrow> same_process w w'"
    and delete_inv: "cs_Delete st i q w = (r3, w') \<Longrightarrow> inv w \<Longrightarrow> live w i = Some c \<Longrightarrow> cmt_post c = q \<Longrightarrow> inv w'"
    and delete_ok: "cs_Delete st i q w = (Inr un, w') \<Longrightarrow> inv w \<Longrightarrow> live w i = Some c \<Longrightarrow> cmt_post c = q \<Longrightarrow>
      live w' = (\<lambda>j. if in_thread (live w) i j then None else live w j)
      \<and> (\<exists>p. livep w q = Some p \<and> livep w' = (livep w)(q \<mapsto>
          p\<lparr>comment_count := comment_count p - int (card {j. in_thread (live w) i j}), post_updated := db_now w\<rparr>))"
    and delete_error: "cs_Delete st i q w = (Inl e, w') \<Longrightarrow> acknowledged w \<Longrightarrow> db w' = db w"

text \<open>What comments need of posts: the visible post, or an error, and no effect.\<close>

locale post_reader_contract =
  fixes read :: "actor option \<Rightarrow> uuid \<Rightarrow> post prog"
    and livep :: "world \<Rightarrow> uuid \<Rightarrow> post option"
    and inv :: "world \<Rightarrow> bool"
    and visible :: "actor option \<Rightarrow> post \<Rightarrow> bool"
  assumes read_frame: "read a i w = (r, w') \<Longrightarrow> same_process w w' \<and> db w' = db w"
    and read_ok: "read a i w = (Inr p, w') \<Longrightarrow> \<exists>q. livep w i = Some q \<and> visible a q"
    and read_quiet: "outcomes w = [] \<Longrightarrow> inv w \<Longrightarrow> livep w i = Some q \<Longrightarrow> visible a q \<Longrightarrow>
      \<exists>p. read a i w = (Inr p, w)"
    and read_hidden: "outcomes w = [] \<Longrightarrow> inv w \<Longrightarrow>
      (case livep w i of None \<Rightarrow> True | Some q \<Rightarrow> \<not> visible a q) \<Longrightarrow>
      \<exists>e. read a i w = (Inl e, w) \<and> client_view e = (CodeNotFound, 404, ''post not found'', [])"

end
