(* ===== verification/Comment_Repo.thy ===== *)
theory Comment_Repo
  imports Comment_Store
begin

text \<open>
  \<open>internal/comment/repository.go\<close>: the SQL on \<open>comments\<close> and on the counter of \<open>posts\<close>. The
  recursive CTE of \<open>Delete\<close> is evaluated level by level; a chain of replies is never longer than
  the table, so as many levels as there are comments are enough (\<open>thread_complete\<close>).
\<close>

definition constraintParentSamePost :: string where "constraintParentSamePost = ''comments_parent_same_post''"
definition constraintPostFK :: string where "constraintPostFK = ''comments_post_id_fkey''"

section \<open>Create\<close>

definition increment_count :: "uuid \<Rightarrow> nat stmt" where
  "increment_count i t d =
    (if \<exists>r \<in> set (posts d). pr_id r = i \<and> post_live r \<and> \<not> int4 (pr_count r + 1)
     then Inl (PgError ''22003'' [])
     else Inr (count_where (\<lambda>r. pr_id r = i \<and> post_live r) (posts d),
          d\<lparr>posts := update_where (\<lambda>r. pr_id r = i \<and> post_live r)
              (\<lambda>r. r\<lparr>pr_count := pr_count r + 1, pr_updated := t\<rparr>) (posts d)\<rparr>))"

definition comment_row_of :: "cmt \<Rightarrow> time \<Rightarrow> comment_row" where
  "comment_row_of c t = \<lparr>cr_id = cmt_id c, cr_post = cmt_post c, cr_author = cmt_author c,
     cr_parent = parent_id c, cr_content = cmt_content c, cr_created = t, cr_updated = t, cr_deleted = None\<rparr>"

definition insert_comment :: "cmt \<Rightarrow> (time \<times> time) stmt" where
  "insert_comment c t d =
    (let r = comment_row_of c t in
     if \<not> pg_text (cmt_content c) then Inl pg_encoding_error
     else (case first_violated (comments_checks r) of
        Some e \<Rightarrow> Inl e
      | None \<Rightarrow>
          if cr_id r \<in> cr_id ` set (comments d) then Inl (PgError sqlStateUniqueViolation ''comments_pkey'')
          else if cr_post r \<notin> pr_id ` set (posts d)
          then Inl (PgError sqlStateForeignKeyViolation constraintPostFK)
          else if cr_author r \<notin> user_id ` set (users d)
          then Inl (PgError sqlStateForeignKeyViolation ''comments_author_id_fkey'')
          else if (case cr_parent r of None \<Rightarrow> False
             | Some p \<Rightarrow> \<not> (\<exists>q \<in> set (comments d). cr_id q = p \<and> cr_post q = cr_post r))
          then Inl (PgError sqlStateForeignKeyViolation constraintParentSamePost)
          else Inr ((cr_created r, cr_updated r), d\<lparr>comments := comments d @ [r]\<rparr>)))"

definition insert_comment_failure :: "gerr \<Rightarrow> gerr" where
  "insert_comment_failure e =
    (if IsForeignKeyViolation e constraintParentSamePost
     then WithCause (Validation [\<lparr>fe_field = ''parent_id'',
            fe_message = ''must reference an existing comment on the same post''\<rparr>]) e
     else if IsForeignKeyViolation e constraintPostFK then Sentinel ErrPostNotFound
     else if IsForeignKeyViolation e [] then WithCause (Unauthorized ''the authenticated account no longer exists'') e
     else Internal (Wrapf ''insert comment'' [e]))"

definition comment_create_body :: "cmt \<Rightarrow> cmt prog" where
  "comment_create_body c w =
    (case execute (increment_count (cmt_post c)) w of
       (Inl e, w1) \<Rightarrow> (Inl (Internal (Wrapf ''increment post comment count'' [e])), w1)
     | (Inr n, w1) \<Rightarrow>
        if n = 0 then (Inl (Sentinel ErrPostNotFound), w1)
        else (case execute (insert_comment c) w1 of
           (Inr (cr, up), w2) \<Rightarrow> (Inr (c\<lparr>cmt_created := cr, cmt_updated := up\<rparr>), w2)
         | (Inl e, w2) \<Rightarrow> (Inl (insert_comment_failure e), w2)))"

definition comment_Create :: "cmt \<Rightarrow> cmt prog" where
  "comment_Create c = InTx (comment_create_body c)"

section \<open>Reads\<close>

definition select_comment :: "uuid \<Rightarrow> cmt stmt" where
  "select_comment i t d =
    (case live_comment_row d i of None \<Rightarrow> Inl (Sentinel ErrNoRows)
     | Some r \<Rightarrow> (case join_author scanComment cr_author d r of
         None \<Rightarrow> Inl (Sentinel ErrNoRows) | Some c \<Rightarrow> Inr (c, d)))"

definition comment_ByID :: "uuid \<Rightarrow> cmt prog" where
  "comment_ByID i w =
    (case execute (select_comment i) w of
       (Inl e, w1) \<Rightarrow> (Inl (NotFoundOr (Wrapf ''select comment'' [e]) ''comment''), w1)
     | (Inr c, w1) \<Rightarrow> (Inr c, w1))"

definition select_comment_owner :: "uuid \<Rightarrow> (uuid \<times> uuid) stmt" where
  "select_comment_owner i t d =
    (case live_comment_row d i of None \<Rightarrow> Inl (Sentinel ErrNoRows) | Some r \<Rightarrow> Inr ((cr_author r, cr_post r), d))"

definition comment_AuthorAndPostOf :: "uuid \<Rightarrow> (uuid \<times> uuid) prog" where
  "comment_AuthorAndPostOf i w =
    (case execute (select_comment_owner i) w of
       (Inl e, w1) \<Rightarrow> (Inl (NotFoundOr (Wrapf ''select comment owner'' [e]) ''comment''), w1)
     | (Inr r, w1) \<Rightarrow> (Inr r, w1))"

definition thread_rows :: "uuid \<Rightarrow> database \<Rightarrow> comment_row list" where
  "thread_rows i d = sort_key (\<lambda>r. (cr_created r, uint (cr_id r)))
     (filter (\<lambda>r. live_comments_of i r \<and> author_row d (cr_author r) \<noteq> None) (comments d))"

definition select_comments :: "uuid \<Rightarrow> page_request \<Rightarrow> (cmt list \<times> int) stmt" where
  "select_comments i pg t d =
    (if pg_limit pg < 0 then Inl (PgError ''2201W'' [])
     else if Offset pg < 0 then Inl (PgError ''2201X'' [])
     else let rows = thread_rows i d; page = slice pg rows in
       Inr ((List.map_filter (join_author scanComment cr_author d) page,
             if page = [] then 0 else int (length rows)), d))"

definition comment_ListByPost :: "uuid \<Rightarrow> page_request \<Rightarrow> (cmt list \<times> int) prog" where
  "comment_ListByPost i pg w =
    (case execute (select_comments i pg) w of
       (Inl e, w1) \<Rightarrow> (Inl (Internal (Wrapf ''list comments'' [e])), w1)
     | (Inr r, w1) \<Rightarrow> (Inr r, w1))"

section \<open>Update\<close>

definition update_content :: "uuid \<Rightarrow> string \<Rightarrow> cmt option stmt" where
  "update_content i s t d =
    (if \<not> pg_text s then Inl pg_encoding_error
     else (case live_comment_row d i of
        None \<Rightarrow> Inr (None, d)
      | Some r \<Rightarrow>
         (case first_violated (comments_checks (r\<lparr>cr_content := s, cr_updated := t\<rparr>)) of
            Some e \<Rightarrow> Inl e
          | None \<Rightarrow> Inr (join_author scanComment cr_author d (r\<lparr>cr_content := s, cr_updated := t\<rparr>),
              d\<lparr>comments := update_where (\<lambda>q. cr_id q = i \<and> comment_live q)
                 (\<lambda>q. q\<lparr>cr_content := s, cr_updated := t\<rparr>) (comments d)\<rparr>))))"

definition comment_Update :: "uuid \<Rightarrow> string \<Rightarrow> cmt prog" where
  "comment_Update i s w =
    (case execute (update_content i s) w of
       (Inl e, w1) \<Rightarrow> (Inl (NotFoundOr (Wrapf ''update comment'' [e]) ''comment''), w1)
     | (Inr None, w1) \<Rightarrow> (Inl (NotFoundOr (Wrapf ''update comment'' [Sentinel ErrNoRows]) ''comment''), w1)
     | (Inr (Some c), w1) \<Rightarrow> (Inr c, w1))"

section \<open>Delete\<close>

definition live_replies :: "comment_row list \<Rightarrow> uuid list \<Rightarrow> uuid list" where
  "live_replies cs ids = map cr_id (filter (\<lambda>c. comment_live c \<and> (\<exists>p \<in> set ids. cr_parent c = Some p)) cs)"

text \<open>One level of the recursive term per step, until a level is empty.\<close>

fun thread_levels :: "nat \<Rightarrow> comment_row list \<Rightarrow> uuid list \<Rightarrow> uuid list" where
  "thread_levels 0 cs ids = []"
| "thread_levels (Suc n) cs ids = (if ids = [] then [] else ids @ thread_levels n cs (live_replies cs ids))"

definition thread_of :: "comment_row list \<Rightarrow> uuid \<Rightarrow> uuid list" where
  "thread_of cs i = thread_levels (Suc (length cs)) cs (map cr_id (filter (\<lambda>c. cr_id c = i \<and> comment_live c) cs))"

definition soft_delete_thread :: "uuid \<Rightarrow> nat stmt" where
  "soft_delete_thread i t d =
    (let ids = set (thread_of (comments d) i) in
     Inr (count_where (\<lambda>c. cr_id c \<in> ids) (comments d),
          d\<lparr>comments := update_where (\<lambda>c. cr_id c \<in> ids)
              (\<lambda>c. c\<lparr>cr_deleted := Some t, cr_updated := t\<rparr>) (comments d)\<rparr>))"

definition decrement_count :: "uuid \<Rightarrow> nat \<Rightarrow> nat stmt" where
  "decrement_count i n t d =
    (case first_row (\<lambda>r. pr_id r = i) (posts d) of
       Some r \<Rightarrow>
         (case first_violated (posts_checks (r\<lparr>pr_count := pr_count r - int n, pr_updated := t\<rparr>)) of
            Some e \<Rightarrow> Inl e
          | None \<Rightarrow> Inr (1, d\<lparr>posts := update_where (\<lambda>r. pr_id r = i)
              (\<lambda>r. r\<lparr>pr_count := pr_count r - int n, pr_updated := t\<rparr>) (posts d)\<rparr>))
     | None \<Rightarrow> Inr (0, d))"

definition comment_delete_body :: "uuid \<Rightarrow> uuid \<Rightarrow> unit prog" where
  "comment_delete_body i postID w =
    (case execute (soft_delete_thread i) w of
       (Inl e, w1) \<Rightarrow> (Inl (Internal (Wrapf ''soft-delete comment thread'' [e])), w1)
     | (Inr removed, w1) \<Rightarrow>
        if removed = 0 then (Inl (NotFound ''comment''), w1)
        else (case execute (decrement_count postID removed) w1 of
           (Inl e, w2) \<Rightarrow> (Inl (Internal (Wrapf (''decrement post comment count by '' @ itoa (int removed)) [e])), w2)
         | (Inr n, w2) \<Rightarrow> (Inr (), w2)))"

definition comment_Delete :: "uuid \<Rightarrow> uuid \<Rightarrow> unit prog" where
  "comment_Delete i postID = InTx (comment_delete_body i postID)"

definition comment_repository :: comment_store where
  "comment_repository = \<lparr>cs_Create = comment_Create, cs_ByID = comment_ByID,
     cs_AuthorAndPostOf = comment_AuthorAndPostOf, cs_ListByPost = comment_ListByPost,
     cs_Update = comment_Update, cs_Delete = comment_Delete\<rparr>"

section \<open>Threads\<close>

lemma in_thread_row_live:
  assumes "live_comment w k = Some c"
  obtains r where "r \<in> set (comments (db w))" "cr_id r = k" "comment_live r" "c = plain_comment r"
  using assms by (auto simp: live_comment_def dest: live_comment_row_Some)

lemma live_replies_iff:
  "k \<in> set (live_replies cs ids) \<longleftrightarrow> (\<exists>c \<in> set cs. comment_live c \<and> cr_id c = k \<and> (\<exists>p \<in> set ids. cr_parent c = Some p))"
  by (auto simp: live_replies_def)

lemma thread_levels_sound:
  "k \<in> set (thread_levels n cs ids) \<Longrightarrow> \<forall>j \<in> set ids. P j \<Longrightarrow>
    (\<And>c p. c \<in> set cs \<Longrightarrow> comment_live c \<Longrightarrow> cr_parent c = Some p \<Longrightarrow> P p \<Longrightarrow> P (cr_id c)) \<Longrightarrow> P k"
proof (induction n arbitrary: ids)
  case (Suc n)
  have "\<forall>j \<in> set (live_replies cs ids). P j"
    using Suc.prems(2,3) by (auto simp: live_replies_iff)
  with Suc show ?case by (auto split: if_splits)
qed simp

text \<open>Level \<open>n\<close> lies at position \<open>n\<close> of the table or later, so no level after the last position has a row.\<close>

lemma parents_first_nth:
  assumes "parents_first seen cs" "k < length cs" "cr_parent (cs ! k) = Some p"
  shows "p \<in> seen \<union> cr_id ` set (take k cs)"
  using assms
proof (induction cs arbitrary: seen k)
  case (Cons c cs)
  show ?case
  proof (cases k)
    case 0
    with Cons.prems show ?thesis by simp
  next
    case (Suc j)
    with Cons.IH [of "insert (cr_id c) seen" j] Cons.prems show ?thesis by auto
  qed
qed simp

definition at_or_after :: "nat \<Rightarrow> comment_row list \<Rightarrow> uuid list \<Rightarrow> bool" where
  "at_or_after n cs ids \<longleftrightarrow> (\<forall>k < length cs. cr_id (cs ! k) \<in> set ids \<longrightarrow> n \<le> k) \<and> set ids \<subseteq> cr_id ` set cs"

lemma live_replies_after:
  assumes "parents_first {} cs" "distinct (map cr_id cs)" "at_or_after n cs ids"
  shows "at_or_after (Suc n) cs (live_replies cs ids)"
  unfolding at_or_after_def
proof (intro conjI allI impI)
  fix k assume k: "k < length cs" "cr_id (cs ! k) \<in> set (live_replies cs ids)"
  then obtain c p where c: "c \<in> set cs" "cr_id c = cr_id (cs ! k)" "cr_parent c = Some p" "p \<in> set ids"
    by (auto simp: live_replies_iff)
  have "c = cs ! k" using comment_key.key_unique [OF assms(2) c(1) nth_mem [OF k(1)] c(2)] .
  with c(3) parents_first_nth [OF assms(1) k(1)] have "p \<in> cr_id ` set (take k cs)" by simp
  then obtain j where j: "j < k" "cr_id (cs ! j) = p"
    using k(1) by (auto simp: in_set_conv_nth)
  with c(4) assms(3) k(1) have "n \<le> j" by (auto simp: at_or_after_def)
  with j(1) show "Suc n \<le> k" by simp
qed (auto simp: live_replies_iff)

lemma at_or_after_end: "at_or_after n cs ids \<Longrightarrow> length cs \<le> n \<Longrightarrow> ids = []"
proof (rule ccontr)
  assume a: "at_or_after n cs ids" "length cs \<le> n" "ids \<noteq> []"
  then obtain i where "i \<in> set ids" by (cases ids) auto
  with a(1) obtain k where "k < length cs" "cr_id (cs ! k) = i"
    by (auto simp: at_or_after_def in_set_conv_nth) (metis imageE in_set_conv_nth subsetD)
  with a \<open>i \<in> set ids\<close> show False by (auto simp: at_or_after_def)
qed

lemma thread_levels_closed:
  assumes "parents_first {} cs" "distinct (map cr_id cs)"
    and "at_or_after m cs ids" "length cs \<le> m + n"
    and "p \<in> set (thread_levels (Suc n) cs ids)" "c \<in> set cs" "comment_live c" "cr_parent c = Some p"
  shows "cr_id c \<in> set (thread_levels (Suc n) cs ids)"
  using assms(3-5)
proof (induction n arbitrary: m ids)
  case 0
  then have "ids = []" using at_or_after_end by simp
  with 0 show ?case by simp
next
  case (Suc n)
  have ids: "ids \<noteq> []" using Suc.prems(3) by (auto split: if_splits)
  have next': "at_or_after (Suc m) cs (live_replies cs ids)"
    by (rule live_replies_after [OF assms(1,2) Suc.prems(1)])
  from Suc.prems(3) ids consider "p \<in> set ids" | "p \<in> set (thread_levels (Suc n) cs (live_replies cs ids))"
    by auto
  then show ?case
  proof cases
    case 1
    with assms(6-8) have "cr_id c \<in> set (live_replies cs ids)" by (auto simp: live_replies_iff)
    moreover from this have "live_replies cs ids \<noteq> []" by auto
    ultimately show ?thesis using ids by simp
  next
    case 2
    with Suc.IH [OF next'] Suc.prems(2) ids show ?thesis by simp
  qed
qed

lemma live_comment_row:
  assumes "distinct (map cr_id (comments (db w)))" "r \<in> set (comments (db w))" "comment_live r"
  shows "live_comment w (cr_id r) = Some (plain_comment r)"
  using live_comment_row_unique [OF assms] by (simp add: live_comment_def)

lemma thread_of_iff:
  assumes "comments_wf (db w)"
  shows "k \<in> set (thread_of (comments (db w)) i) \<longleftrightarrow> in_thread (live_comment w) i k"
proof
  let ?cs = "comments (db w)" and ?m = "live_comment w"
  let ?ids = "map cr_id (filter (\<lambda>c. cr_id c = i \<and> comment_live c) ?cs)"
  have ids: "distinct (map cr_id ?cs)" and pf: "parents_first {} ?cs"
    using assms by (simp_all add: comments_wf_def)
  show "in_thread ?m i k" if "k \<in> set (thread_of ?cs i)"
    using that unfolding thread_of_def
  proof (rule thread_levels_sound)
    show "\<forall>j \<in> set ?ids. in_thread ?m i j"
      using live_comment_row [OF ids] by (auto intro: root)
  next
    fix c p assume "c \<in> set ?cs" "comment_live c" "cr_parent c = Some p" "in_thread ?m i p"
    with live_comment_row [OF ids] show "in_thread ?m i (cr_id c)" by (auto intro: reply)
  qed
  show "k \<in> set (thread_of ?cs i)" if "in_thread ?m i k"
    using that
  proof induction
    case (root c)
    then obtain r where "r \<in> set ?cs" "cr_id r = i" "comment_live r" by (rule in_thread_row_live)
    then have "i \<in> set ?ids" by (auto simp: image_iff)
    moreover from this have "?ids \<noteq> []" by (metis empty_iff list.set(1))
    ultimately show ?case unfolding thread_of_def thread_levels.simps by (simp del: map_is_Nil_conv)
  next
    case (reply j k c)
    from reply.hyps(2) obtain r where r: "r \<in> set ?cs" "cr_id r = k" "comment_live r" "c = plain_comment r"
      by (rule in_thread_row_live)
    have "at_or_after 0 ?cs ?ids" by (auto simp: at_or_after_def)
    from thread_levels_closed [OF pf ids this _ _ r(1,3), of "length ?cs" j] reply r
    show ?case by (simp add: thread_of_def)
  qed
qed

text \<open>Every row of a thread is live and on the post of its root.\<close>

lemma in_thread_same_post:
  assumes "comments_wf (db w)" "in_thread (live_comment w) i k" "live_comment w i = Some c0"
  shows "\<exists>c. live_comment w k = Some c \<and> cmt_post c = cmt_post c0"
  using assms(2)
proof induction
  case (root c)
  with assms(3) show ?case by auto
next
  case (reply j k c)
  from reply.hyps(2) obtain r where r: "r \<in> set (comments (db w))" "c = plain_comment r" by (rule in_thread_row_live)
  from reply.IH obtain cj where cj: "live_comment w j = Some cj" "cmt_post cj = cmt_post c0" by blast
  then obtain rj where rj: "rj \<in> set (comments (db w))" "cr_id rj = j" "cj = plain_comment rj" by (auto elim: in_thread_row_live)
  have "cr_parent r = Some j" using reply.hyps(3) r(2) by simp
  moreover have "comment_row_wf (db w) r" using assms(1) r(1) by (simp add: comments_wf_def)
  ultimately obtain q where q: "q \<in> set (comments (db w))" "cr_id q = j" "cr_post q = cr_post r"
    by (auto simp: comment_row_wf_def)
  have "distinct (map cr_id (comments (db w)))" using assms(1) by (simp add: comments_wf_def)
  from comment_key.key_unique [OF this q(1) rj(1)] q rj cj r reply.hyps(2) show ?case by simp
qed

section \<open>The statements keep the tables well formed\<close>

lemma comment_row_of_simps [simp]:
  "cr_id (comment_row_of c t) = cmt_id c" "cr_post (comment_row_of c t) = cmt_post c"
  "cr_parent (comment_row_of c t) = parent_id c" "cr_author (comment_row_of c t) = cmt_author c"
  "comment_live (comment_row_of c t)" "cr_created (comment_row_of c t) = t" "cr_updated (comment_row_of c t) = t"
  by (simp_all add: comment_row_of_def comment_live_def)

lemma plain_comment_row_of:
  "cmt_author_summary c = None \<Longrightarrow> plain_comment (comment_row_of c t) = c\<lparr>cmt_created := t, cmt_updated := t\<rparr>"
  by (cases c) (simp add: plain_comment_def comment_row_of_def)

lemma insert_comment_Inr:
  assumes "insert_comment c t d = Inr (r, d')"
  shows "r = (t, t)" "d' = d\<lparr>comments := comments d @ [comment_row_of c t]\<rparr>"
    "first_violated (comments_checks (comment_row_of c t)) = None"
    "cmt_id c \<notin> cr_id ` set (comments d)" "cmt_author c \<in> user_id ` set (users d)"
    "case parent_id c of None \<Rightarrow> True | Some p \<Rightarrow> \<exists>q \<in> set (comments d). cr_id q = p \<and> cr_post q = cmt_post c"
  using assms by (auto simp: insert_comment_def Let_def split: if_splits option.splits)

lemma increment_count_Inr:
  "increment_count i t d = Inr (n, d') \<Longrightarrow> n = count_where (\<lambda>r. pr_id r = i \<and> post_live r) (posts d)
    \<and> d' = d\<lparr>posts := update_where (\<lambda>r. pr_id r = i \<and> post_live r)
        (\<lambda>r. r\<lparr>pr_count := pr_count r + 1, pr_updated := t\<rparr>) (posts d)\<rparr>"
  by (auto simp: increment_count_def split: if_splits)

lemma checks_ignore_count:
  "0 \<le> n \<Longrightarrow> first_violated (posts_checks r) = None \<Longrightarrow> first_violated (posts_checks (r\<lparr>pr_count := n, pr_updated := t\<rparr>)) = None"
  by (simp add: posts_checks_def split: if_splits)

lemma checks_count_non_negative: "first_violated (posts_checks r) = None \<Longrightarrow> 0 \<le> pr_count r"
  by (simp add: posts_checks_def split: if_splits)

text \<open>A change of counters only.\<close>

lemma recount_posts_wf:
  assumes "posts_wf d" and "\<And>r. pr_id r = i \<Longrightarrow> 0 \<le> pr_count r \<Longrightarrow> r \<in> set (posts d) \<Longrightarrow> P r \<Longrightarrow> 0 \<le> f r"
    and "\<And>r. P r \<Longrightarrow> pr_id r = i"
  shows "posts_wf (d\<lparr>posts := update_where P (\<lambda>r. r\<lparr>pr_count := f r, pr_updated := t\<rparr>) (posts d)\<rparr>)"
proof -
  let ?f = "\<lambda>r. r\<lparr>pr_count := f r, pr_updated := t\<rparr>"
  have "map pr_slug (filter post_live (update_where P ?f rows)) = map pr_slug (filter post_live rows)" for rows
    by (induction rows) (auto simp: post_live_def)
  with assms checks_count_non_negative checks_ignore_count show ?thesis
    unfolding posts_wf_def by (simp add: map_update_where update_where_ball)
qed

lemma create_body_wf:
  assumes inc: "increment_count (cmt_post c) t d = Inr (n, d1)" and n: "0 < n"
    and ins: "insert_comment c t d1 = Inr (r, d2)" and wf: "blog_wf d"
  shows "blog_wf d2"
proof -
  let ?P = "\<lambda>r. pr_id r = cmt_post c \<and> post_live r" and ?f = "\<lambda>r. r\<lparr>pr_count := pr_count r + 1, pr_updated := t\<rparr>"
  let ?row = "comment_row_of c t"
  have d1: "d1 = d\<lparr>posts := update_where ?P ?f (posts d)\<rparr>" using increment_count_Inr [OF inc] by simp
  note i = insert_comment_Inr [OF ins]
  have d2: "posts d2 = update_where ?P ?f (posts d)" "comments d2 = comments d @ [?row]" "users d2 = users d"
    using i(2) d1 by simp_all
  have target: "\<exists>r \<in> set (posts d). ?P r"
    using n increment_count_Inr [OF inc] by (simp add: count_where_pos_iff)
  have "posts_wf d1" unfolding d1
    by (rule recount_posts_wf [where i = "cmt_post c"]) (use wf in \<open>auto simp: blog_wf_def\<close>)
  then have p: "posts_wf d2" by (simp add: posts_wf_def i(2))
  have rows: "\<exists>r' \<in> set (posts d2). pr_id r' = pr_id q \<and> (post_live q \<longrightarrow> post_live r')" if "q \<in> set (posts d)" for q
    using that by (intro bexI [of _ "if ?P q then ?f q else q"])
      (auto simp: d2 post_live_def update_where_def intro!: image_eqI [where x = q])
  have "comment_row_wf d2 c0" if c0: "c0 \<in> set (comments d)" for c0
  proof -
    from wf c0 have w0: "comment_row_wf d c0" by (simp add: blog_wf_def comments_wf_def)
    then obtain q where "q \<in> set (posts d)" "pr_id q = cr_post c0" "comment_live c0 \<longrightarrow> post_live q"
      by (auto simp: comment_row_wf_def)
    with rows [of q] w0 show ?thesis
      by (intro comment_row_wf_step [OF w0]) (auto simp: d2 comment_row_wf_def)
  qed
  moreover have "comment_row_wf d2 ?row"
  proof -
    from target rows obtain r' where "r' \<in> set (posts d2)" "pr_id r' = cmt_post c" "post_live r'" by metis
    then show ?thesis
      using i(3,5,6) d1 by (auto simp: comment_row_wf_def d2 split: option.splits)
  qed
  ultimately have k: "comments_wf d2"
    using wf i(4,6) d1 unfolding comments_wf_def d2
    by (auto simp: blog_wf_def comments_wf_def parents_first_append split: option.splits)
  have "counts_agree d2"
    using wf unfolding blog_wf_def counts_agree_def d2 update_where_ball
    by (auto simp: live_comments_of_def post_live_def)
  with p k show ?thesis by (simp add: blog_wf_def)
qed

lemma update_content_cases:
  assumes "update_content i s t d = Inr (c, d')"
  obtains (none) "live_comment_row d i = None" "c = None" "d' = d"
  | (row) r where "live_comment_row d i = Some r"
      "c = join_author scanComment cr_author d (r\<lparr>cr_content := s, cr_updated := t\<rparr>)"
      "d' = d\<lparr>comments := update_where (\<lambda>q. cr_id q = i \<and> comment_live q)
          (\<lambda>q. q\<lparr>cr_content := s, cr_updated := t\<rparr>) (comments d)\<rparr>"
      "first_violated (comments_checks (r\<lparr>cr_content := s, cr_updated := t\<rparr>)) = None"
  using assms by (auto simp: update_content_def split: if_splits option.splits)

lemma comments_change_wf:
  assumes wf: "comments_wf d" and ps: "posts d' = posts d" "users d' = users d"
    and cs: "comments d' = update_where P f (comments d)"
    and f: "\<And>c. cr_id (f c) = cr_id c" "\<And>c. cr_post (f c) = cr_post c" "\<And>c. cr_author (f c) = cr_author c"
      "\<And>c. cr_parent (f c) = cr_parent c" "\<And>c. comment_live (f c) \<Longrightarrow> comment_live c"
    and chk: "\<And>c. c \<in> set (comments d) \<Longrightarrow> P c \<Longrightarrow> first_violated (comments_checks (f c)) = None"
  shows "comments_wf d'"
proof -
  have keep: "\<exists>q' \<in> set (comments d'). cr_id q' = cr_id q \<and> cr_post q' = cr_post q" if "q \<in> set (comments d)" for q
    using that by (intro bexI [of _ "if P q then f q else q"]) (auto simp: cs f update_where_def)
  have "comment_row_wf d' (if P c then f c else c)" if c: "c \<in> set (comments d)" for c
  proof -
    from wf c have w0: "comment_row_wf d c" by (simp add: comments_wf_def)
    then obtain r where "r \<in> set (posts d)" "pr_id r = cr_post c" "comment_live c \<longrightarrow> post_live r"
      by (auto simp: comment_row_wf_def)
    then show ?thesis
      using w0 f chk [OF c] keep by (intro comment_row_wf_step [OF w0]) (auto simp: ps comment_row_wf_def)
  qed
  with wf f show ?thesis
    unfolding comments_wf_def cs update_where_ball by (simp add: map_update_where parents_first_update)
qed

lemma update_content_wf:
  assumes "update_content i s t d = Inr (c, d')" and "blog_wf d"
  shows "blog_wf d'"
  using assms(1)
proof (cases rule: update_content_cases)
  case none
  with assms(2) show ?thesis by simp
next
  case (row r)
  have ids: "distinct (map cr_id (comments d))" using assms(2) by (simp add: blog_wf_def comments_wf_def)
  have the_row: "c = r" if "c \<in> set (comments d)" "cr_id c = i" for c
    using comment_key.key_unique [OF ids that(1)] live_comment_row_Some [OF row(1)] that(2) by auto
  have "comments_wf d'"
  proof (rule comments_change_wf)
    show "comments_wf d" using assms(2) by (simp add: blog_wf_def)
    show "comments d' = update_where (\<lambda>q. cr_id q = i \<and> comment_live q)
          (\<lambda>q. q\<lparr>cr_content := s, cr_updated := t\<rparr>) (comments d)" using row(3) by simp
  qed (use row(3,4) the_row in \<open>auto simp: comment_live_def\<close>)
  moreover have "count_where (live_comments_of j) (comments d') = count_where (live_comments_of j) (comments d)" for j
    unfolding row(3) by (simp, rule count_update_where_same) (simp add: live_comments_of_def comment_live_def)
  ultimately show ?thesis
    using assms(2) row(3) by (simp add: blog_wf_def posts_wf_def counts_agree_def)
qed

lemma decrement_count_cases:
  assumes "decrement_count i n t d = Inr (k, d')"
  obtains (none) "first_row (\<lambda>r. pr_id r = i) (posts d) = None" "d' = d"
  | (row) r where "first_row (\<lambda>r. pr_id r = i) (posts d) = Some r" "int n \<le> pr_count r"
      "d' = d\<lparr>posts := update_where (\<lambda>r. pr_id r = i) (\<lambda>r. r\<lparr>pr_count := pr_count r - int n, pr_updated := t\<rparr>) (posts d)\<rparr>"
  using assms checks_count_non_negative [of "r\<lparr>pr_count := pr_count r - int n, pr_updated := t\<rparr>" for r]
  by (auto simp: decrement_count_def split: option.splits)

lemma soft_delete_thread_Inr:
  "soft_delete_thread i t d = Inr (n, d') \<Longrightarrow> n = count_where (\<lambda>c. cr_id c \<in> set (thread_of (comments d) i)) (comments d)
    \<and> d' = d\<lparr>comments := update_where (\<lambda>c. cr_id c \<in> set (thread_of (comments d) i))
        (\<lambda>c. c\<lparr>cr_deleted := Some t, cr_updated := t\<rparr>) (comments d)\<rparr>"
  by (auto simp: soft_delete_thread_def Let_def)

lemma thread_row:
  assumes "comments_wf (db w)" "c \<in> set (comments (db w))" "cr_id c \<in> set (thread_of (comments (db w)) i)"
    and "live_comment w i = Some c0"
  shows "live_comments_of (cmt_post c0) c"
proof -
  from assms(3) have "in_thread (live_comment w) i (cr_id c)" by (simp add: thread_of_iff [OF assms(1)])
  from in_thread_same_post [OF assms(1) this assms(4)] obtain k where
      k: "live_comment w (cr_id c) = Some k" "cmt_post k = cmt_post c0" by blast
  then obtain r where r: "r \<in> set (comments (db w))" "cr_id r = cr_id c" "comment_live r" "k = plain_comment r"
    by (auto elim: in_thread_row_live)
  have "distinct (map cr_id (comments (db w)))" using assms(1) by (simp add: comments_wf_def)
  from comment_key.key_unique [OF this r(1) assms(2) r(2)] r k show ?thesis by (simp add: live_comments_of_def)
qed

lemma delete_body_wf:
  assumes del: "soft_delete_thread i t (db w) = Inr (n, d1)" and dec: "decrement_count q n t' d1 = Inr (k, d2)"
    and wf: "blog_wf (db w)" and c0: "live_comment w i = Some c0" "cmt_post c0 = q"
  shows "blog_wf d2"
proof -
  let ?d = "db w" and ?T = "\<lambda>c. cr_id c \<in> set (thread_of (comments (db w)) i)"
  let ?f = "\<lambda>c. c\<lparr>cr_deleted := Some t, cr_updated := t\<rparr>"
  let ?g = "\<lambda>r. r\<lparr>pr_count := pr_count r - int n, pr_updated := t'\<rparr>"
  note s = soft_delete_thread_Inr [OF del]
  have d1: "posts d1 = posts ?d" "users d1 = users ?d" "comments d1 = update_where ?T ?f (comments ?d)"
    and n: "n = count_where ?T (comments ?d)" using s by simp_all
  have cwf: "comments_wf ?d" and pwf: "posts_wf ?d" and cnt: "counts_agree ?d" using wf by (simp_all add: blog_wf_def)
  have inT: "live_comments_of q c" if "c \<in> set (comments ?d)" "?T c" for c
    using thread_row [OF cwf that c0(1)] c0(2) by simp
  have c1: "comments_wf d1"
    by (rule comments_change_wf [OF cwf d1]) (use cwf in \<open>auto simp: comment_live_def comments_wf_def comment_row_wf_def\<close>)
  have less: "count_where (live_comments_of q) (comments d1) + n = count_where (live_comments_of q) (comments ?d)"
    unfolding d1 n by (rule count_update_where_off) (use inT in \<open>auto simp: live_comments_of_def comment_live_def\<close>)
  have same: "count_where (live_comments_of j) (comments d1) = count_where (live_comments_of j) (comments ?d)" if "j \<noteq> q" for j
    unfolding d1 by (rule count_update_where_same) (use inT that in \<open>auto simp: live_comments_of_def\<close>)
  from dec show ?thesis
  proof (cases rule: decrement_count_cases)
    case none
    then have "q \<notin> pr_id ` set (posts ?d)" by (auto simp: d1 first_row_None)
    moreover from c0 obtain r where r: "r \<in> set (comments ?d)" "cr_post r = q" by (auto elim: in_thread_row_live)
    moreover have "comment_row_wf ?d r" using cwf r(1) by (simp add: comments_wf_def)
    then obtain p where "p \<in> set (posts ?d)" "pr_id p = cr_post r" by (auto simp: comment_row_wf_def)
    ultimately show ?thesis by (metis image_eqI)
  next
    case (row r)
    have ids: "distinct (map pr_id (posts ?d))" using pwf by (simp add: posts_wf_def)
    have the_row: "p = r" if "p \<in> set (posts ?d)" "pr_id p = q" for p
      using post_key.key_unique [OF ids that(1)] first_row_Some [OF row(1)] that(2) by (auto simp: d1)
    have d2: "posts d2 = update_where (\<lambda>r. pr_id r = q) ?g (posts ?d)" "comments d2 = comments d1" "users d2 = users ?d"
      using row(3) d1 by simp_all
    have "posts_wf (?d\<lparr>posts := update_where (\<lambda>r. pr_id r = q) ?g (posts ?d)\<rparr>)"
      by (rule recount_posts_wf [OF pwf, where i = q]) (use row(2) the_row in auto)
    then have p2: "posts_wf d2" by (simp add: posts_wf_def d2)
    have "\<exists>r' \<in> set (posts d2). pr_id r' = pr_id p \<and> (post_live p \<longrightarrow> post_live r')" if "p \<in> set (posts d1)" for p
      using that by (intro bexI [of _ "if pr_id p = q then ?g p else p"])
        (auto simp: d2 d1 post_live_def update_where_def intro!: image_eqI [where x = p])
    then have "comments_wf d2"
      by (intro comments_wf_posts [OF c1]) (auto simp: d2 d1(2))
    moreover have "counts_agree d2"
      unfolding counts_agree_def d2 update_where_ball
    proof (intro ballI impI)
      fix p assume p: "p \<in> set (posts ?d)" "post_live (if pr_id p = q then ?g p else p)"
      then have lp: "post_live p" by (auto simp: post_live_def split: if_splits)
      with cnt p have c: "pr_count p = int (count_where (live_comments_of (pr_id p)) (comments ?d))"
        by (simp add: counts_agree_def)
      show "pr_count (if pr_id p = q then ?g p else p)
          = int (count_where (live_comments_of (pr_id (if pr_id p = q then ?g p else p))) (comments d1))"
        using c less same [of "pr_id p"] by (cases "pr_id p = q") auto
    qed
    ultimately show ?thesis using p2 by (simp add: blog_wf_def)
  qed
qed

section \<open>The comment contract holds\<close>

lemma comment_repository_simps [simp]:
  "cs_Create comment_repository = comment_Create" "cs_ByID comment_repository = comment_ByID"
  "cs_AuthorAndPostOf comment_repository = comment_AuthorAndPostOf"
  "cs_ListByPost comment_repository = comment_ListByPost" "cs_Update comment_repository = comment_Update"
  "cs_Delete comment_repository = comment_Delete"
  by (simp_all add: comment_repository_def)

lemma comment_ByID_execute:
  "comment_ByID i w = (r, w') \<Longrightarrow> \<exists>r1. execute (select_comment i) w = (r1, w') \<and> (\<forall>c. r = Inr c \<longrightarrow> r1 = Inr c)"
  by (cases "execute (select_comment i) w") (auto simp: comment_ByID_def split: sum.splits)

lemma comment_owner_execute:
  "comment_AuthorAndPostOf i w = (r, w') \<Longrightarrow> \<exists>r1. execute (select_comment_owner i) w = (r1, w') \<and> (\<forall>c. r = Inr c \<longrightarrow> r1 = Inr c)"
  by (cases "execute (select_comment_owner i) w") (auto simp: comment_AuthorAndPostOf_def split: sum.splits)

lemma comment_list_execute:
  "comment_ListByPost i pg w = (r, w') \<Longrightarrow> \<exists>r1. execute (select_comments i pg) w = (r1, w') \<and> (\<forall>c. r = Inr c \<longrightarrow> r1 = Inr c)"
  by (cases "execute (select_comments i pg) w") (auto simp: comment_ListByPost_def split: sum.splits)

lemma comment_update_execute:
  "comment_Update i s w = (r, w') \<Longrightarrow> \<exists>r1. execute (update_content i s) w = (r1, w') \<and> (\<forall>c. r = Inr c \<longrightarrow> r1 = Inr (Some c))"
  by (cases "execute (update_content i s) w") (auto simp: comment_Update_def split: sum.splits option.splits)

lemma select_comment_Inr:
  "select_comment i t d = Inr (c, d') \<Longrightarrow> d' = d \<and> (\<exists>r. live_comment_row d i = Some r \<and> plain c = plain_comment r)"
  by (auto simp: select_comment_def join_author_def plain_def split: option.splits)

lemma select_comment_owner_Inr:
  "select_comment_owner i t d = Inr (p, d') \<Longrightarrow> d' = d \<and> (\<exists>r. live_comment_row d i = Some r \<and> p = (cr_author r, cr_post r))"
  by (auto simp: select_comment_owner_def split: option.splits)

lemma select_comments_Inr:
  assumes "select_comments i pg t d = Inr ((cs, n), d')"
  shows "d' = d" and "cs = List.map_filter (join_author scanComment cr_author d) (slice pg (thread_rows i d))"
    and "n = (if slice pg (thread_rows i d) = [] then 0 else int (length (thread_rows i d)))"
  using assms by (auto simp: select_comments_def Let_def split: if_splits)

lemma joined_comments:
  assumes "\<forall>r \<in> set rows. author_row d (cr_author r) \<noteq> None"
  shows "map plain (List.map_filter (join_author scanComment cr_author d) rows) = map plain_comment rows"
  using assms by (induction rows) (auto simp: join_author_def plain_def map_filter_simps)

lemma thread_rows_set:
  "r \<in> set (thread_rows i d) \<longleftrightarrow> r \<in> set (comments d) \<and> live_comments_of i r \<and> author_row d (cr_author r) \<noteq> None"
  by (auto simp: thread_rows_def)

lemma thread_rows_listing:
  assumes "comments_wf (db w)"
  shows "thread_listing (live_comment w) i (map plain_comment (thread_rows i (db w)))"
  unfolding thread_listing_def
proof (intro conjI allI)
  have ids: "distinct (map cr_id (comments (db w)))" using assms by (simp add: comments_wf_def)
  then have "distinct (map cr_id (thread_rows i (db w)))"
    by (simp add: thread_rows_def distinct_map_filter distinct_map) (auto intro: inj_on_subset)
  then show "distinct (map cmt_id (map plain_comment (thread_rows i (db w))))" by (simp add: comp_def)
  show "sorted (map comment_sort_key (map plain_comment (thread_rows i (db w))))"
    by (simp add: thread_rows_def comp_def comment_sort_key_def)
  have auth: "author_row (db w) (cr_author r) \<noteq> None" if "r \<in> set (comments (db w))" for r
    using assms that author_row_exists by (auto simp: comments_wf_def comment_row_wf_def)
  fix c
  show "(c \<in> set (map plain_comment (thread_rows i (db w)))) = (live_comment w (cmt_id c) = Some c \<and> cmt_post c = i)"
  proof
    assume "c \<in> set (map plain_comment (thread_rows i (db w)))"
    then obtain r where r: "c = plain_comment r" "r \<in> set (comments (db w))" "live_comments_of i r"
      by (auto simp: thread_rows_set)
    with live_comment_row [OF ids r(2)] show "live_comment w (cmt_id c) = Some c \<and> cmt_post c = i"
      by (simp add: live_comments_of_def)
  next
    assume l: "live_comment w (cmt_id c) = Some c \<and> cmt_post c = i"
    then obtain r where r: "r \<in> set (comments (db w))" "comment_live r" "c = plain_comment r"
      by (auto elim: in_thread_row_live)
    with l auth have "r \<in> set (thread_rows i (db w))" by (simp add: thread_rows_set live_comments_of_def)
    with r(3) show "c \<in> set (map plain_comment (thread_rows i (db w)))" by simp
  qed
qed

lemma create_body_Inr:
  assumes "comment_create_body c w = (Inr c', w')"
  obtains n d1 where "increment_count (cmt_post c) (db_now w) (db w) = Inr (n, d1)" "0 < n"
    "insert_comment c (db_now w) d1 = Inr ((db_now w, db_now w), db w')"
    "c' = c\<lparr>cmt_created := db_now w, cmt_updated := db_now w\<rparr>"
proof -
  from assms obtain n w1 a b where e: "execute (increment_count (cmt_post c)) w = (Inr n, w1)" "0 < n"
      "execute (insert_comment c) w1 = (Inr (a, b), w')" "c' = c\<lparr>cmt_created := a, cmt_updated := b\<rparr>"
    by (auto simp: comment_create_body_def split: sum.splits prod.splits if_splits)
  with execute_ok [OF e(1)] execute_ok [OF e(3)] execute_frame [OF e(1)] insert_comment_Inr(1) that
  show ?thesis by (metis Pair_inject)
qed

lemma delete_body_Inr:
  assumes "comment_delete_body i q w = (Inr un, w')"
  obtains n d1 k where "soft_delete_thread i (db_now w) (db w) = Inr (n, d1)" "0 < n"
    "decrement_count q n (db_now w) d1 = Inr (k, db w')"
proof -
  from assms obtain n w1 k where e: "execute (soft_delete_thread i) w = (Inr n, w1)" "0 < n"
      "execute (decrement_count q n) w1 = (Inr k, w')"
    by (auto simp: comment_delete_body_def split: sum.splits prod.splits if_splits)
  with execute_ok [OF e(1)] execute_ok [OF e(3)] execute_frame [OF e(1)] that show ?thesis by simp
qed

lemma comment_bodies_same_process:
  "comment_create_body c w = (r, w') \<Longrightarrow> same_process w w'"
  "comment_delete_body i q w = (r1, w') \<Longrightarrow> same_process w w'"
  by (auto simp: comment_create_body_def comment_delete_body_def split: sum.splits prod.splits if_splits
      dest: execute_same_process intro: same_process_trans)

lemma live_row_recount:
  assumes "posts d' = update_where P (\<lambda>r. r\<lparr>pr_count := f r, pr_updated := t\<rparr>) (posts d)"
  shows "live_row d' j = map_option (\<lambda>r. if P r then r\<lparr>pr_count := f r, pr_updated := t\<rparr> else r) (live_row d j)"
  unfolding live_row_def assms by (rule first_row_update) (simp add: post_live_def)

lemma plain_recount:
  "plain_post (r\<lparr>pr_count := n, pr_updated := t\<rparr>) = (plain_post r)\<lparr>comment_count := n, post_updated := t\<rparr>"
  by (simp add: plain_post_def)

lemma live_comment_on_live_post:
  assumes "blog_wf (db w)" "live_comment w i = Some c"
  shows "live_post w (cmt_post c) \<noteq> None"
proof -
  from assms(2) obtain r where r: "r \<in> set (comments (db w))" "comment_live r" "c = plain_comment r"
    by (auto elim: in_thread_row_live)
  have "comment_row_wf (db w) r" using assms(1) r(1) by (simp add: blog_wf_def comments_wf_def)
  then obtain q where q: "q \<in> set (posts (db w))" "pr_id q = cr_post r" "post_live q"
    using r(2) by (auto simp: comment_row_wf_def)
  have "distinct (map pr_id (posts (db w)))" using assms(1) by (simp add: blog_wf_def posts_wf_def)
  from live_row_unique [OF this q(1,3)] q(2) r(3) show ?thesis by (simp add: live_post_def)
qed

lemma create_body_spec:
  assumes b: "comment_create_body c w = (Inr c', w')" and wf: "blog_wf (db w)" and a: "cmt_author_summary c = None"
  shows "live_comment w (cmt_id c) = None" "c' = c\<lparr>cmt_created := db_now w, cmt_updated := db_now w\<rparr>"
    "live_comment w' = (live_comment w)(cmt_id c \<mapsto> c')"
    "\<exists>p. live_post w (cmt_post c) = Some p
       \<and> live_post w' = (live_post w)(cmt_post c \<mapsto> p\<lparr>comment_count := comment_count p + 1, post_updated := db_now w\<rparr>)"
    "blog_wf (db w')"
proof -
  from b obtain n d1 where inc: "increment_count (cmt_post c) (db_now w) (db w) = Inr (n, d1)" and n: "0 < n"
      and ins: "insert_comment c (db_now w) d1 = Inr ((db_now w, db_now w), db w')"
      and c': "c' = c\<lparr>cmt_created := db_now w, cmt_updated := db_now w\<rparr>"
    by (rule create_body_Inr)
  show "blog_wf (db w')" by (rule create_body_wf [OF inc n ins wf])
  show "c' = c\<lparr>cmt_created := db_now w, cmt_updated := db_now w\<rparr>" by (rule c')
  note i = insert_comment_Inr [OF ins] and k = increment_count_Inr [OF inc]
  have cs: "comments (db w') = comments (db w) @ [comment_row_of c (db_now w)]"
      "cmt_id c \<notin> cr_id ` set (comments (db w))"
    using i(2,4) k by simp_all
  have row: "live_comment_row (db w') j = (if j = cmt_id c then Some (comment_row_of c (db_now w)) else live_comment_row (db w) j)" for j
  proof -
    have "live_comment_row (db w) (cmt_id c) = None"
      using cs(2) unfolding live_comment_row_def first_row_None by (metis (no_types, lifting) image_eqI)
    then show ?thesis
      by (cases "live_comment_row (db w) j") (auto simp: live_comment_row_def cs(1) first_row_append)
  qed
  then show "live_comment w' = (live_comment w)(cmt_id c \<mapsto> c')"
    by (auto simp: live_comment_def fun_eq_iff plain_comment_row_of [OF a] c')
  show "live_comment w (cmt_id c) = None"
    using cs(2) live_comment_row_Some [of "db w" "cmt_id c"]
    by (cases "live_comment_row (db w) (cmt_id c)") (auto simp: live_comment_def image_iff)
  have ps: "posts (db w') = update_where (\<lambda>r. pr_id r = cmt_post c \<and> post_live r)
      (\<lambda>r. r\<lparr>pr_count := pr_count r + 1, pr_updated := db_now w\<rparr>) (posts (db w))"
    using i(2) k by simp
  have "live_row (db w) (cmt_post c) \<noteq> None"
    using n k by (simp add: live_row_def first_row_None count_where_pos_iff)
  then obtain r where r: "live_row (db w) (cmt_post c) = Some r" by blast
  have "live_post w' j = ((live_post w)(cmt_post c \<mapsto>
      (plain_post r)\<lparr>comment_count := comment_count (plain_post r) + 1, post_updated := db_now w\<rparr>)) j" for j
    using live_row_Some [of "db w" j] r
    by (cases "live_row (db w) j") (auto simp: live_post_def live_row_recount [OF ps] plain_recount)
  with r show "\<exists>p. live_post w (cmt_post c) = Some p
       \<and> live_post w' = (live_post w)(cmt_post c \<mapsto> p\<lparr>comment_count := comment_count p + 1, post_updated := db_now w\<rparr>)"
    by (intro exI [of _ "plain_post r"]) (auto simp: live_post_def fun_eq_iff)
qed

lemma count_where_card:
  assumes "distinct (map key rows)" "S \<subseteq> key ` set rows"
  shows "count_where (\<lambda>r. key r \<in> S) rows = card S"
proof -
  have "distinct (map key (filter (\<lambda>r. key r \<in> S) rows))" using assms(1) by (rule distinct_map_filter)
  from distinct_card [OF this] have "count_where (\<lambda>r. key r \<in> S) rows = card (set (map key (filter (\<lambda>r. key r \<in> S) rows)))"
    by (simp add: count_where_def)
  also have "set (map key (filter (\<lambda>r. key r \<in> S) rows)) = S" using assms(2) by auto
  finally show ?thesis .
qed

lemma delete_body_spec:
  assumes b: "comment_delete_body i q w = (Inr un, w')" and wf: "blog_wf (db w)"
    and c: "live_comment w i = Some c" "cmt_post c = q"
  shows "live_comment w' = (\<lambda>j. if in_thread (live_comment w) i j then None else live_comment w j)"
    "\<exists>p. live_post w q = Some p \<and> live_post w' = (live_post w)(q \<mapsto>
       p\<lparr>comment_count := comment_count p - int (card {j. in_thread (live_comment w) i j}), post_updated := db_now w\<rparr>)"
    "blog_wf (db w')"
proof -
  from b obtain n d1 k where del: "soft_delete_thread i (db_now w) (db w) = Inr (n, d1)" "0 < n"
      and dec: "decrement_count q n (db_now w) d1 = Inr (k, db w')"
    by (rule delete_body_Inr)
  show wf': "blog_wf (db w')" by (rule delete_body_wf [OF del(1) dec wf c])
  have cwf: "comments_wf (db w)" using wf by (simp add: blog_wf_def)
  let ?T = "set (thread_of (comments (db w)) i)"
  have T: "?T = {j. in_thread (live_comment w) i j}" using thread_of_iff [OF cwf] by blast
  note s = soft_delete_thread_Inr [OF del(1)]
  obtain r where r: "live_row (db w) q = Some r"
    using live_comment_on_live_post [OF wf c(1)] c(2) by (auto simp: live_post_def)
  have ex: "first_row (\<lambda>r. pr_id r = q) (posts d1) \<noteq> None"
    using live_row_Some [OF r] s by (auto simp: first_row_None)
  from dec have ps: "posts (db w') = update_where (\<lambda>r. pr_id r = q)
      (\<lambda>r. r\<lparr>pr_count := pr_count r - int n, pr_updated := db_now w\<rparr>) (posts (db w))"
    and cs: "comments (db w') = update_where (\<lambda>c. cr_id c \<in> ?T)
        (\<lambda>c. c\<lparr>cr_deleted := Some (db_now w), cr_updated := db_now w\<rparr>) (comments (db w))"
    using s ex by (cases rule: decrement_count_cases, simp, simp)+
  have "live_comment_row (db w') j = (if j \<in> ?T then None else live_comment_row (db w) j)" for j
  proof -
    have "live_comment_row (db w') j = first_row (\<lambda>c. (cr_id c = j \<and> comment_live c) \<and> \<not> cr_id c \<in> ?T) (comments (db w))"
      unfolding live_comment_row_def cs by (rule first_row_update_off) (simp add: comment_live_def)
    also have "(\<lambda>c. (cr_id c = j \<and> comment_live c) \<and> \<not> cr_id c \<in> ?T)
        = (\<lambda>c. if j \<in> ?T then False else cr_id c = j \<and> comment_live c)" by (auto simp: fun_eq_iff)
    finally show ?thesis by (simp add: live_comment_row_def first_row_None)
  qed
  then show "live_comment w' = (\<lambda>j. if in_thread (live_comment w) i j then None else live_comment w j)"
    using T by (auto simp: live_comment_def fun_eq_iff)
  have sub: "?T \<subseteq> cr_id ` set (comments (db w))"
  proof
    fix j assume "j \<in> ?T"
    then obtain cj where "live_comment w j = Some cj" using T in_thread_live by fastforce
    then show "j \<in> cr_id ` set (comments (db w))" by (auto elim: in_thread_row_live)
  qed
  have ids: "distinct (map cr_id (comments (db w)))" using cwf by (simp add: comments_wf_def)
  have n: "n = card {j. in_thread (live_comment w) i j}"
    using s count_where_card [OF ids sub] T by simp
  have "live_post w' j = ((live_post w)(q \<mapsto>
      (plain_post r)\<lparr>comment_count := comment_count (plain_post r) - int n, post_updated := db_now w\<rparr>)) j" for j
    using live_row_Some [of "db w" j] r
    by (cases "live_row (db w) j") (auto simp: live_post_def live_row_recount [OF ps] plain_recount)
  with r n show "\<exists>p. live_post w q = Some p \<and> live_post w' = (live_post w)(q \<mapsto>
       p\<lparr>comment_count := comment_count p - int (card {j. in_thread (live_comment w) i j}), post_updated := db_now w\<rparr>)"
    by (intro exI [of _ "plain_post r"]) (auto simp: live_post_def fun_eq_iff)
qed

lemma comment_missing_NotFoundOr [simp]:
  "errors_is e ErrNoRows \<Longrightarrow> comment_missing (NotFoundOr (Wrapf m [e]) ''comment'')"
  by (simp add: comment_missing_def NotFoundOr_def IsNoRows_def client_view_def api_constructors)

lemma execute_kept_wf:
  "execute st w = (r, w') \<Longrightarrow> blog_wf (db w) \<Longrightarrow>
    (\<And>a d. st (db_now w) (db w) = Inr (a, d) \<Longrightarrow> blog_wf d) \<Longrightarrow> blog_wf (db w')"
  by (rule execute_invariant)

interpretation comment_rows: comment_contract comment_repository live_comment live_post "\<lambda>w. blog_wf (db w)"
proof (unfold_locales, unfold comment_repository_simps, goal_cases)
  case (1 w i c)
  then show ?case by (auto simp: live_comment_def dest: live_comment_row_Some)
next
  case (2 w i c)
  then show ?case by (rule live_comment_on_live_post)
next
  case (3 w' w)
  then show ?case by (simp add: live_same [of w' w])
next
  case (4 c w r w')
  then show ?case unfolding comment_Create_def
    by (rule InTx_same_process) (rule comment_bodies_same_process(1))
next
  case (5 c w r w')
  from 5(1) 5(2) show ?case unfolding comment_Create_def
    by (rule InTx_invariant [where I = blog_wf]) (auto elim!: create_body_Inr dest: create_body_wf)
next
  case (6 c w c' w')
  from 6(1) obtain w1 w2 where b: "comment_create_body c w1 = (Inr c', w2)" "db w1 = db w" "db w' = db w2" "db_now w1 = db_now w"
    unfolding comment_Create_def by (cases rule: InTx_cases) auto
  have l: "live_comment w1 = live_comment w" "live_post w1 = live_post w" "live_comment w' = live_comment w2"
      "live_post w' = live_post w2"
    using live_same [of w1 w] live_same [of w' w2] b by simp_all
  from create_body_spec [OF b(1) _ 6(3)] 6(2) b l show ?case by simp
next
  case (7 c w e w')
  from 7 show ?case unfolding comment_Create_def
    by (rule InTx_refused) (rule comment_bodies_same_process(1))
next
  case (8 i w r w')
  from comment_ByID_execute [OF this] obtain r1 where e: "execute (select_comment i) w = (r1, w')" by auto
  then have "db w' = db w" by (rule execute_read_only) (auto dest: select_comment_Inr)
  with e show ?case by (auto dest: execute_same_process)
next
  case (9 i w c w')
  from comment_ByID_execute [OF 9] have "execute (select_comment i) w = (Inr c, w')" by auto
  from select_comment_Inr [OF execute_ok [OF this]] show ?case by (auto simp: live_comment_def)
next
  case (10 w i)
  then have "live_comment_row (db w) i = None" by (simp add: live_comment_def)
  with 10(1) show ?case by (simp add: comment_ByID_def execute_quiet select_comment_def)
next
  case (11 w i c)
  then obtain r where r: "live_comment_row (db w) i = Some r" "c = plain_comment r" by (auto simp: live_comment_def)
  have "comment_row_wf (db w) r" using 11(2) live_comment_row_Some [OF r(1)] by (simp add: blog_wf_def comments_wf_def)
  then obtain u where "author_row (db w) (cr_author r) = Some u"
    using author_row_exists by (auto simp: comment_row_wf_def)
  with r 11(1) show ?case
    by (simp add: comment_ByID_def execute_quiet select_comment_def join_author_def plain_def)
next
  case (12 i w r w')
  from comment_owner_execute [OF this] obtain r1 where e: "execute (select_comment_owner i) w = (r1, w')" by auto
  then have "db w' = db w" by (rule execute_read_only) (auto dest: select_comment_owner_Inr)
  with e show ?case by (auto dest: execute_same_process)
next
  case (13 i w a q w')
  from comment_owner_execute [OF 13] have "execute (select_comment_owner i) w = (Inr (a, q), w')" by auto
  from select_comment_owner_Inr [OF execute_ok [OF this]] show ?case by (auto simp: live_comment_def)
next
  case (14 i pg w r w')
  from comment_list_execute [OF this] obtain r1 where e: "execute (select_comments i pg) w = (r1, w')" by auto
  then have "db w' = db w" by (rule execute_read_only) (auto dest: select_comments_Inr(1))
  with e show ?case by (auto dest: execute_same_process)
next
  case (15 i pg w cs n w')
  then have "select_comments i pg (db_now w) (db w) = Inr ((cs, n), db w')"
    by (auto dest!: comment_list_execute execute_ok)
  note sel = select_comments_Inr [OF this]
  let ?rows = "thread_rows i (db w)"
  have "\<forall>r \<in> set (slice pg ?rows). author_row (db w) (cr_author r) \<noteq> None"
    using slice_set [of pg ?rows] thread_rows_set by fastforce
  then have cs: "map plain cs = map plain_comment (slice pg ?rows)" using joined_comments sel(2) by simp
  then have "cs = [] \<longleftrightarrow> slice pg ?rows = []" by (metis map_is_Nil_conv)
  with cs sel(3) thread_rows_listing [of w i] 15(2) show ?case
    by (intro exI [of _ "map plain_comment ?rows"]) (simp add: blog_wf_def slice_def take_map drop_map)
next
  case (16 i s w r w')
  then show ?case by (auto dest!: comment_update_execute execute_same_process)
next
  case (17 i s w r w')
  from comment_update_execute [OF 17(1)] obtain r1 where "execute (update_content i s) w = (r1, w')" by auto
  then show ?case using 17(2) by (rule execute_kept_wf) (use 17(2) update_content_wf in auto)
next
  case (18 i s w c' w')
  from comment_update_execute [OF 18(1)] have "execute (update_content i s) w = (Inr (Some c'), w')" by auto
  from execute_ok [OF this] show ?case
  proof (cases rule: update_content_cases)
    case (row r)
    let ?f = "\<lambda>q. q\<lparr>cr_content := s, cr_updated := db_now w\<rparr>"
    have pl: "plain_comment (?f q) = (plain_comment q)\<lparr>cmt_content := s, cmt_updated := db_now w\<rparr>" for q
      by (simp add: plain_comment_def)
    have c': "plain c' = plain_comment (?f r)"
      using row(2) by (cases "author_row (db w) (cr_author r)") (auto simp: join_author_def plain_def)
    have cs: "comments (db w') = update_where (\<lambda>q. cr_id q = i \<and> comment_live q) ?f (comments (db w))"
        "posts (db w') = posts (db w)" by (simp_all add: row(3))
    have "live_comment_row (db w') j = map_option (\<lambda>q. if cr_id q = i \<and> comment_live q then ?f q else q) (live_comment_row (db w) j)" for j
      unfolding live_comment_row_def cs by (rule first_row_update) (simp add: comment_live_def)
    then have "live_comment w' j = ((live_comment w)(i \<mapsto> (plain_comment r)\<lparr>cmt_content := s, cmt_updated := db_now w\<rparr>)) j" for j
      using live_comment_row_Some [of "db w" j] row(1)
      by (cases "live_comment_row (db w) j") (auto simp: live_comment_def pl)
    moreover have "live_post w' = live_post w" using cs(2) by (simp add: live_post_def live_row_def fun_eq_iff)
    ultimately show ?thesis
      using c' row(1) by (intro exI [of _ "plain_comment r"]) (auto simp: live_comment_def fun_eq_iff pl)
  qed simp
next
  case (19 i q w r w')
  then show ?case unfolding comment_Delete_def
    by (rule InTx_same_process) (rule comment_bodies_same_process(2))
next
  case (20 i q w r w' c)
  from 20(1) show ?case unfolding comment_Delete_def
  proof (cases rule: InTx_cases)
    case (committed a w1 w2)
    then show ?thesis using delete_body_spec(3) [OF committed(2)] 20(2-4) live_same(2) [of w1 w] by simp
  next
    case (in_doubt a f w1 w2)
    then show ?thesis using delete_body_spec(3) [OF in_doubt(2)] 20(2-4) live_same(2) [of w1 w] by simp
  qed (use 20(2) in simp_all)
next
  case (21 i q w un w' c)
  from 21(1) obtain w1 w2 where b: "comment_delete_body i q w1 = (Inr un, w2)" "db w1 = db w" "db w' = db w2" "db_now w1 = db_now w"
    unfolding comment_Delete_def by (cases rule: InTx_cases) auto
  have l: "live_comment w1 = live_comment w" "live_post w1 = live_post w" "live_comment w' = live_comment w2"
      "live_post w' = live_post w2"
    using live_same [of w1 w] live_same [of w' w2] b by simp_all
  from delete_body_spec(1,2) [OF b(1)] 21(2-4) b l show ?case by (simp cong: if_cong)
next
  case (22 i q w e w')
  from 22 show ?case unfolding comment_Delete_def
    by (rule InTx_refused) (rule comment_bodies_same_process(2))
qed

end
