(* ===== verification/Comment_Service.thy ===== *)
theory Comment_Service
  imports Post_Service Comment_Repo
begin

text \<open>
  \<open>internal/comment/service.go\<close>: comments under the visibility rule of their post. The service
  knows posts only through the reader interface, which the post service provides (a \<open>sublocale\<close> of
  the post contract); its lemmas are proved from that contract and the comment contract.
\<close>

section \<open>The service\<close>

type_synonym post_reader = "actor option \<Rightarrow> uuid \<Rightarrow> post prog"

record create_comment_input =
  cc_post :: uuid
  cc_parent :: "uuid option"
  cc_content :: string

definition comment_svc_Create :: "ext \<Rightarrow> comment_store \<Rightarrow> post_reader \<Rightarrow> actor \<Rightarrow> create_comment_input \<Rightarrow> cmt prog" where
  "comment_svc_Create x st read a i w =
    (case read (Some a) (cc_post i) w of
       (Inl e, w1) \<Rightarrow> (Inl e, w1)
     | (Inr p, w1) \<Rightarrow>
        (case new_uuid w1 of (cid, w2) \<Rightarrow>
          (let c = \<lparr>cmt_id = cid, cmt_post = cc_post i, cmt_author = actor_id a, parent_id = cc_parent i,
                    cmt_content = trim_space (cc_content i), cmt_created = 0, cmt_updated = 0,
                    cmt_author_summary = None\<rparr> in
           (case cs_Create st c w2 of
              (Inl e, w3) \<Rightarrow> (Inl (if errors_is e ErrPostNotFound then NotFound ''post'' else e), w3)
            | (Inr c', w3) \<Rightarrow>
               (Inr c', publish ((post_event x ''comment.created'' a (cmt_id c'))
                  \<lparr>ev_attrs := [(''post_id'', uuid_string x (cmt_post c'))]\<rparr>) w3)))))"

definition comment_svc_ByID :: "comment_store \<Rightarrow> post_reader \<Rightarrow> actor option \<Rightarrow> uuid \<Rightarrow> cmt prog" where
  "comment_svc_ByID st read a i w =
    (case cs_ByID st i w of
       (Inl e, w1) \<Rightarrow> (Inl e, w1)
     | (Inr c, w1) \<Rightarrow>
        (case read a (cmt_post c) w1 of
           (Inl e, w2) \<Rightarrow> (Inl (NotFound ''comment''), w2)
         | (Inr p, w2) \<Rightarrow> (Inr c, w2)))"

definition comment_svc_ListByPost :: "comment_store \<Rightarrow> post_reader \<Rightarrow> actor option \<Rightarrow> uuid \<Rightarrow> page_request \<Rightarrow> (cmt list \<times> int) prog" where
  "comment_svc_ListByPost st read a i pg w =
    (case read a i w of
       (Inl e, w1) \<Rightarrow> (Inl e, w1)
     | (Inr p, w1) \<Rightarrow> cs_ListByPost st i pg w1)"

definition comment_svc_Update :: "ext \<Rightarrow> comment_store \<Rightarrow> actor \<Rightarrow> uuid \<Rightarrow> string \<Rightarrow> cmt prog" where
  "comment_svc_Update x st a i content w =
    (case cs_AuthorAndPostOf st i w of
       (Inl e, w1) \<Rightarrow> (Inl e, w1)
     | (Inr (authorID, postID), w1) \<Rightarrow>
        if \<not> CanModify a authorID then (Inl (Forbidden ''you may only modify your own comments''), w1)
        else (case cs_Update st i (trim_space content) w1 of
           (Inl e, w2) \<Rightarrow> (Inl e, w2)
         | (Inr c, w2) \<Rightarrow> (Inr c, publish (post_event x ''comment.updated'' a i) w2)))"

definition comment_svc_Delete :: "ext \<Rightarrow> comment_store \<Rightarrow> actor \<Rightarrow> uuid \<Rightarrow> unit prog" where
  "comment_svc_Delete x st a i w =
    (case cs_AuthorAndPostOf st i w of
       (Inl e, w1) \<Rightarrow> (Inl e, w1)
     | (Inr (authorID, postID), w1) \<Rightarrow>
        if \<not> CanModify a authorID then (Inl (Forbidden ''you may only delete your own comments''), w1)
        else (case cs_Delete st i postID w1 of
           (Inl e, w2) \<Rightarrow> (Inl e, w2)
         | (Inr u, w2) \<Rightarrow>
            (Inr (), publish ((post_event x ''comment.deleted'' a i)
               \<lparr>ev_attrs := [(''post_id'', uuid_string x postID)]\<rparr>) w2)))"

section \<open>The post service as a reader\<close>

sublocale post_contract \<subseteq> reader: post_reader_contract "post_svc_ByID st" live inv canView
proof
  fix a i w r w'
  assume r: "post_svc_ByID st a i w = (r, w')"
  show "same_process w w' \<and> db w' = db w"
    using r by (auto simp: post_svc_ByID_def split: sum.splits prod.splits if_splits dest: byid_frame)
next
  fix a i w p w'
  assume "post_svc_ByID st a i w = (Inr p, w')"
  from ByID_visible [OF this] show "\<exists>q. live w i = Some q \<and> canView a q" by auto
next
  fix w i q a
  assume q: "outcomes w = []" "inv w" "live w i = Some q" "canView a q"
  from byid_quiet [OF q(1-3)] obtain p where "ps_ByID st i w = (Inr p, w)" "without_author p = q" by blast
  with q(4) show "\<exists>p. post_svc_ByID st a i w = (Inr p, w)"
    by (auto simp: post_svc_ByID_def)
next
  fix w i a
  assume q: "outcomes w = []" "inv w" and h: "case live w i of None \<Rightarrow> True | Some q \<Rightarrow> \<not> canView a q"
  show "\<exists>e. post_svc_ByID st a i w = (Inl e, w) \<and> client_view e = (CodeNotFound, 404, ''post not found'', [])"
  proof (cases "live w i")
    case None
    from byid_missing [OF q(1) None] show ?thesis by (auto simp: post_svc_ByID_def post_missing_def)
  next
    case (Some p)
    from byid_quiet [OF q Some] obtain p' where "ps_ByID st i w = (Inr p', w)" "without_author p' = p" by blast
    with h Some show ?thesis by (auto simp: post_svc_ByID_def client_view_def api_constructors)
  qed
qed

section \<open>Client lemmas\<close>

locale comment_service =
  R: post_reader_contract read livep inv canView +
  C: comment_contract st live livep inv
  for read :: post_reader and st :: comment_store and live :: "world \<Rightarrow> uuid \<Rightarrow> cmt option"
    and livep :: "world \<Rightarrow> uuid \<Rightarrow> post option" and inv :: "world \<Rightarrow> bool"
begin

lemma step: "db w' = db w \<Longrightarrow> live w' = live w \<and> livep w' = livep w \<and> inv w' = inv w"
  by (rule C.view_db)

lemma Create_ok:
  assumes "inv w" and r: "comment_svc_Create x st read a i w = (Inr c, w')"
  shows "\<exists>p. livep w (cc_post i) = Some p \<and> canView (Some a) p
    \<and> live w (cmt_id c) = None \<and> cmt_post c = cc_post i \<and> cmt_author c = actor_id a
    \<and> parent_id c = cc_parent i \<and> cmt_content c = trim_space (cc_content i)
    \<and> live w' = (live w)(cmt_id c \<mapsto> c)
    \<and> (\<exists>t. livep w' = (livep w)(cc_post i \<mapsto> p\<lparr>comment_count := comment_count p + 1, post_updated := t\<rparr>))"
proof -
  from r obtain p0 w1 cid w2 c0 w3 e where rd: "read (Some a) (cc_post i) w = (Inr p0, w1)"
      and nu: "new_uuid w1 = (cid, w2)" and c0: "c0 = \<lparr>cmt_id = cid, cmt_post = cc_post i,
          cmt_author = actor_id a, parent_id = cc_parent i, cmt_content = trim_space (cc_content i),
          cmt_created = 0, cmt_updated = 0, cmt_author_summary = None\<rparr>"
      and cr: "cs_Create st c0 w2 = (Inr c, w3)" and w': "w' = publish e w3"
    by (auto simp: comment_svc_Create_def Let_def split: sum.splits prod.splits)
  have db: "db w2 = db w" using R.read_frame [OF rd] new_uuid_frame [OF nu] by simp
  have same: "live w2 = live w" "livep w2 = livep w" "inv w2" "live w' = live w3" "livep w' = livep w3"
    using step [OF db] step [of w' w3] assms(1) w' by simp_all
  have s0: "cmt_author_summary c0 = None" using c0 by simp
  note ok = C.create_ok [OF cr same(3) s0]
  from R.read_ok [OF rd] obtain q where q: "livep w (cc_post i) = Some q" "canView (Some a) q" by blast
  from ok same c0 q show ?thesis by (intro exI [of _ q]) auto
qed

lemma hidden_thread:
  assumes q: "outcomes w = []" "inv w" and h: "hidden_from (Some a) (livep w i)"
    and c: "live w j = Some c" "cmt_post c = i"
  shows "(\<exists>e. comment_svc_ByID st read (Some a) j w = (Inl e, w) \<and> comment_missing e)
    \<and> (\<exists>e. comment_svc_ListByPost st read (Some a) i pg w = (Inl e, w) \<and> post_missing e)
    \<and> (cc_post ci = i \<longrightarrow> (\<exists>e. comment_svc_Create x st read a ci w = (Inl e, w) \<and> post_missing e))"
proof -
  from h have "case livep w i of None \<Rightarrow> True | Some q \<Rightarrow> \<not> canView (Some a) q" by (simp add: hidden_from_def)
  from R.read_hidden [OF q this] obtain e where e: "read (Some a) i w = (Inl e, w)" "post_missing e"
    by (auto simp: post_missing_def)
  from C.byid_quiet [OF q c(1)] obtain c' where c': "cs_ByID st j w = (Inr c', w)" "plain c' = c" by blast
  have "cmt_post c' = i" using c'(2) c(2) by (auto simp: plain_def)
  with e c'(1) show ?thesis
    by (simp add: comment_svc_ByID_def comment_svc_ListByPost_def comment_svc_Create_def comment_missing_def
        client_view_def api_constructors)
qed

lemma Update_ok:
  assumes "inv w" and r: "comment_svc_Update x st a i s w = (Inr c', w')"
  shows "\<exists>c t. live w i = Some c \<and> CanModify a (cmt_author c)
    \<and> live w' = (live w)(i \<mapsto> c\<lparr>cmt_content := trim_space s, cmt_updated := t\<rparr>) \<and> livep w' = livep w"
proof -
  from r obtain au po w1 w2 e where ow: "cs_AuthorAndPostOf st i w = (Inr (au, po), w1)" and can: "CanModify a au"
      and up: "cs_Update st i (trim_space s) w1 = (Inr c', w2)" and w': "w' = publish e w2"
    by (auto simp: comment_svc_Update_def split: sum.splits prod.splits if_splits)
  have db: "db w1 = db w" using C.owner_frame [OF ow] by simp
  from C.owner_ok [OF ow] obtain c where c: "live w i = Some c" "cmt_author c = au" by blast
  from C.update_ok [OF up] step [OF db] step [of w' w2] assms(1) w' c can show ?thesis by auto
qed

lemma Delete_ok:
  assumes "inv w" and r: "comment_svc_Delete x st a i w = (Inr un, w')"
  shows "\<exists>c p t. live w i = Some c \<and> CanModify a (cmt_author c)
    \<and> live w' = (\<lambda>j. if in_thread (live w) i j then None else live w j)
    \<and> livep w (cmt_post c) = Some p
    \<and> livep w' = (livep w)(cmt_post c \<mapsto>
        p\<lparr>comment_count := comment_count p - int (card {j. in_thread (live w) i j}), post_updated := t\<rparr>)"
proof -
  from r obtain au po w1 w2 e where ow: "cs_AuthorAndPostOf st i w = (Inr (au, po), w1)" and can: "CanModify a au"
      and de: "cs_Delete st i po w1 = (Inr (), w2)" and w': "w' = publish e w2"
    by (auto simp: comment_svc_Delete_def split: sum.splits prod.splits if_splits)
  have db: "db w1 = db w" using C.owner_frame [OF ow] by simp
  from C.owner_ok [OF ow] obtain c where c: "live w i = Some c" "cmt_author c = au" "cmt_post c = po" by blast
  have l: "live w1 = live w" "livep w1 = livep w" "inv w1" "live w' = live w2" "livep w' = livep w2"
    using step [OF db] step [of w' w2] assms(1) w' by simp_all
  have c1: "live w1 i = Some c" using c l by simp
  note ok = C.delete_ok [OF de l(3) c1 c(3)]
  then obtain p where p: "livep w1 po = Some p" "livep w2 = (livep w1)(po \<mapsto>
      p\<lparr>comment_count := comment_count p - int (card {j. in_thread (live w1) i j}), post_updated := db_now w1\<rparr>)" by blast
  have "live w' = (\<lambda>j. if in_thread (live w) i j then None else live w j)" using ok l by (simp cong: if_cong)
  with p l c can show ?thesis by (intro exI [of _ c] exI [of _ p] exI [of _ "db_now w1"]) simp
qed

lemma List_ok:
  assumes "inv w" and r: "comment_svc_ListByPost st read a i pg w = (Inr (cs, n), w')"
  shows "(\<exists>p. livep w i = Some p \<and> canView a p)
    \<and> (\<exists>all. thread_listing (live w) i all \<and> map plain cs = slice pg all
        \<and> n = (if cs = [] then 0 else int (length all)))"
proof -
  from r obtain p0 w1 where rd: "read a i w = (Inr p0, w1)" and li: "cs_ListByPost st i pg w1 = (Inr (cs, n), w')"
    by (auto simp: comment_svc_ListByPost_def split: sum.splits prod.splits)
  have "db w1 = db w" using R.read_frame [OF rd] by simp
  from step [OF this] C.list_ok [OF li] R.read_ok [OF rd] assms(1) show ?thesis by simp
qed

lemma operations_keep_inv:
  "comment_svc_Create x st read a ci w = (r1, w') \<Longrightarrow> inv w \<Longrightarrow> inv w'"
  "comment_svc_Update x st a i s w = (r1, w') \<Longrightarrow> inv w \<Longrightarrow> inv w'"
  "comment_svc_Delete x st a i w = (r2, w') \<Longrightarrow> inv w \<Longrightarrow> inv w'"
proof -
  assume c: "comment_svc_Create x st read a ci w = (r1, w')" "inv w"
  obtain q w1 where rd: "read (Some a) (cc_post ci) w = (q, w1)" by fastforce
  obtain cid w2 where nu: "new_uuid w1 = (cid, w2)" by fastforce
  have "db w2 = db w" "db w1 = db w" using R.read_frame [OF rd] new_uuid_frame [OF nu] by simp_all
  with c(2) have "inv w1" "inv w2" using step [of w1 w] step [of w2 w] by simp_all
  with c(1) rd nu C.create_inv step [of "publish e v" v for e v] show "inv w'"
    by (auto simp: comment_svc_Create_def Let_def split: sum.splits prod.splits)
next
  assume u: "comment_svc_Update x st a i s w = (r1, w')" "inv w"
  obtain q w1 where ow: "cs_AuthorAndPostOf st i w = (q, w1)" by fastforce
  have "inv w1" using C.owner_frame [OF ow] step [of w1 w] u(2) by simp
  with u(1) ow C.update_inv step [of "publish e v" v for e v] show "inv w'"
    by (auto simp: comment_svc_Update_def split: sum.splits prod.splits if_splits)
next
  assume d: "comment_svc_Delete x st a i w = (r2, w')" "inv w"
  obtain q w1 where ow: "cs_AuthorAndPostOf st i w = (q, w1)" by fastforce
  have w1: "inv w1" "live w1 = live w" using C.owner_frame [OF ow] step [of w1 w] d(2) by simp_all
  have "inv w2" if "q = Inr (au, po)" "cs_Delete st i po w1 = (u, w2)" for au po u w2
  proof -
    from C.owner_ok [OF ow [unfolded that(1)]] obtain c where "live w1 i = Some c" "cmt_post c = po"
      using w1(2) by auto
    with C.delete_inv [OF that(2) w1(1)] show ?thesis by blast
  qed
  with d(1) ow w1 step [of "publish e v" v for e v] show "inv w'"
    by (auto simp: comment_svc_Delete_def split: sum.splits prod.splits if_splits)
qed

end

interpretation comment_svc: comment_service "post_svc_ByID (post_repository x)" comment_repository live_comment
  live_post "\<lambda>w. blog_wf (db w)" for x
  by (intro comment_service.intro post_rows.reader.post_reader_contract_axioms comment_rows.comment_contract_axioms)

section \<open>Properties\<close>

text \<open>C10: a created comment is new, by the actor, on a post the actor may see, and the counter of that
  post, and of no other, goes up by one with it.\<close>

theorem created_comment_is_counted:
  assumes "blog_wf (db w)"
    and "comment_svc_Create x comment_repository (post_svc_ByID (post_repository x)) a i w = (Inr c, w')"
  shows "\<exists>p. live_post w (cc_post i) = Some p \<and> canView (Some a) p
    \<and> live_comment w (cmt_id c) = None \<and> cmt_post c = cc_post i \<and> cmt_author c = actor_id a
    \<and> parent_id c = cc_parent i \<and> cmt_content c = trim_space (cc_content i)
    \<and> live_comment w' = (live_comment w)(cmt_id c \<mapsto> c)
    \<and> (\<exists>t. live_post w' = (live_post w)(cc_post i \<mapsto> p\<lparr>comment_count := comment_count p + 1, post_updated := t\<rparr>))"
  by (rule comment_svc.Create_ok [OF assms])

text \<open>C9: deleting a comment, which only its author or an administrator can do, removes the comment and
  everything below it and nothing else, and the counter of its post goes down by exactly the number
  of comments removed.\<close>

theorem deleting_removes_the_thread:
  assumes "blog_wf (db w)" and "comment_svc_Delete x comment_repository a i w = (Inr (), w')"
  shows "\<exists>c p t. live_comment w i = Some c \<and> CanModify a (cmt_author c)
    \<and> live_comment w' = (\<lambda>j. if in_thread (live_comment w) i j then None else live_comment w j)
    \<and> live_post w (cmt_post c) = Some p
    \<and> live_post w' = (live_post w)(cmt_post c \<mapsto>
        p\<lparr>comment_count := comment_count p - int (card {j. in_thread (live_comment w) i j}), post_updated := t\<rparr>)"
  by (rule comment_svc.Delete_ok [OF assms])

text \<open>The thread of a post the actor may not see is as invisible as the post: reading one of its
  comments, listing them and adding one all give a 404 and change nothing.\<close>

theorem thread_of_hidden_post_is_hidden:
  assumes "outcomes w = []" "blog_wf (db w)" "hidden_from (Some a) (live_post w i)"
    and "live_comment w j = Some c" "cmt_post c = i"
  shows "(\<exists>e. comment_svc_ByID comment_repository (post_svc_ByID (post_repository x)) (Some a) j w = (Inl e, w)
        \<and> comment_missing e)
    \<and> (\<exists>e. comment_svc_ListByPost comment_repository (post_svc_ByID (post_repository x)) (Some a) i pg w = (Inl e, w)
        \<and> post_missing e)
    \<and> (cc_post ci = i \<longrightarrow> (\<exists>e. comment_svc_Create x comment_repository (post_svc_ByID (post_repository x)) a ci w = (Inl e, w)
        \<and> post_missing e))"
  by (rule comment_svc.hidden_thread [OF assms])

text \<open>Editing a comment, which only its author or an administrator can do, changes its text and
  nothing else, no counter in particular.\<close>

theorem editing_changes_the_text_only:
  assumes "blog_wf (db w)" and "comment_svc_Update x comment_repository a i s w = (Inr c', w')"
  shows "\<exists>c t. live_comment w i = Some c \<and> CanModify a (cmt_author c)
    \<and> live_comment w' = (live_comment w)(i \<mapsto> c\<lparr>cmt_content := trim_space s, cmt_updated := t\<rparr>)
    \<and> live_post w' = live_post w"
  by (rule comment_svc.Update_ok [OF assms])

section \<open>Witnesses\<close>

definition hi_input :: create_comment_input where
  "hi_input = \<lparr>cc_post = 21, cc_parent = Some 30, cc_content = ''hi''\<rparr>"

lemma hi_text [simp]: "trim_space ''hi'' = ''hi''" "pg_text ''hi''"
  by (simp_all add: trim_space_def trim_both_def is_space_def pg_text_def valid_utf8_def rune_error_def)

lemma reads_news: "post_svc_ByID (post_repository x) (Some a) 21 blog_world = (Inr (scanPost news_row bo), blog_world)"
  by (simp add: post_svc_ByID_def post_ByID_def execute_quiet blog_world_wf select_post_def join_author_def)
     (simp add: author_row_def blog_rows canView_def scanPost_def plain_post_def PostStatusPublished_def)

lemma hi_incremented: "\<exists>d. increment_count 21 t (db blog_world) = Inr (1, d) \<and> comments d = [news_comment]
    \<and> users d = [bo] \<and> map pr_id (posts d) = [20, 21]"
  by (simp add: increment_count_def blog_rows post_live_def int4_def)

lemma hi_commented: "\<exists>c w. comment_svc_Create sample_jwt comment_repository (post_svc_ByID (post_repository sample_jwt))
    bo_actor hi_input blog_world = (Inr c, w)"
proof -
  obtain d where d: "increment_count 21 (db_now blog_world) (db blog_world) = Inr (1, d)" "comments d = [news_comment]"
      "users d = [bo]" "map pr_id (posts d) = [20, 21]"
    using hi_incremented [of "db_now blog_world"] by (elim exE conjE)
  let ?c = "\<lparr>cmt_id = 1, cmt_post = 21, cmt_author = 3, parent_id = Some 30, cmt_content = ''hi'', cmt_created = 0,
    cmt_updated = 0, cmt_author_summary = None\<rparr>"
  have p: "pr_id ` set (posts d) = {20, 21}" using d(4) by (metis list.set(1,2) set_map)
  have i: "\<exists>r d2. insert_comment ?c (db_now blog_world) d = Inr (r, d2)"
    by (simp add: insert_comment_def comment_row_of_def comments_checks_def btrim_def trim_char_def trim_both_def
        sample_lengths d(2,3) p Let_def) (simp add: news_comment_def bo_def)
  have u: "new_uuid blog_world = (1, blog_world\<lparr>uuid_next := Suc 0\<rparr>)"
    by (simp add: new_uuid_def blog_world_def empty_world_def)
  show ?thesis
    using i by (auto simp: comment_svc_Create_def hi_input_def reads_news u comment_Create_def InTx_def begin_tx_def
      comment_create_body_def execute_quiet blog_world_wf d(1) round_trip_no_outcomes Let_def)
qed

theorem created_comment_is_counted_witness:
  "\<exists>c w p. comment_svc_Create sample_jwt comment_repository (post_svc_ByID (post_repository sample_jwt))
      bo_actor hi_input blog_world = (Inr c, w)
    \<and> live_post blog_world 21 = Some p \<and> (\<exists>q. live_post w 21 = Some q \<and> comment_count q = comment_count p + 1)"
proof -
  obtain c w where r: "comment_svc_Create sample_jwt comment_repository (post_svc_ByID (post_repository sample_jwt))
      bo_actor hi_input blog_world = (Inr c, w)"
    using hi_commented by blast
  from created_comment_is_counted [OF blog_world_wf(1) r] r show ?thesis by (auto simp: hi_input_def)
qed

lemma news_comment_row [simp]: "live_comment_row (db blog_world) 30 = Some news_comment"
    "live_comment blog_world 30 = Some (plain_comment news_comment)"
  by (simp_all add: live_comment_def live_comment_row_def blog_rows comment_live_def)

lemma bo_uncomments: "\<exists>w. comment_svc_Delete sample_jwt comment_repository bo_actor 30 blog_world = (Inr (), w)"
proof -
  let ?t = "db_now blog_world"
  have t: "thread_of [news_comment] 30 = [30]"
    by (simp add: thread_of_def live_replies_def news_comment_def comment_live_def)
  have c: "comments (db blog_world) = [news_comment]" "posts (db blog_world) = [draft_row, news_row]" by (simp_all add: blog_world_def)
  have n: "cr_id news_comment = 30" "cr_post news_comment = 21" "CanModify bo_actor (cr_author news_comment)"
    by (simp_all add: CanModify_def news_comment_def)
  obtain cs where del: "soft_delete_thread 30 ?t (db blog_world) = Inr (1, (db blog_world)\<lparr>comments := cs\<rparr>)"
    by (simp add: soft_delete_thread_def c t n)
  obtain d' where dec: "decrement_count 21 (Suc 0) ?t ((db blog_world)\<lparr>comments := cs\<rparr>) = Inr (1, d')"
    by (simp add: decrement_count_def c) (simp add: draft_row_def news_row_def posts_checks_def btrim_def trim_char_def
        trim_both_def sample_lengths posts_slug_format_def slug_pattern_def slug_rune_def PostStatusPublished_def)
  have "\<exists>w. comment_Delete 30 21 blog_world = (Inr (), w)"
    by (simp add: comment_Delete_def InTx_def begin_tx_def comment_delete_body_def execute_quiet blog_world_wf del dec
        round_trip_no_outcomes)
  moreover have "comment_AuthorAndPostOf 30 blog_world = (Inr (cr_author news_comment, 21), blog_world)"
    by (simp add: comment_AuthorAndPostOf_def execute_quiet blog_world_wf select_comment_owner_def n)
  ultimately show ?thesis
    by (auto simp: comment_svc_Delete_def n)
qed

theorem deleting_removes_the_thread_witness:
  "\<exists>w. comment_svc_Delete sample_jwt comment_repository bo_actor 30 blog_world = (Inr (), w)
    \<and> live_comment blog_world 30 \<noteq> None \<and> live_comment w 30 = None"
proof -
  obtain w where r: "comment_svc_Delete sample_jwt comment_repository bo_actor 30 blog_world = (Inr (), w)"
    using bo_uncomments by blast
  have "in_thread (live_comment blog_world) 30 30" by (rule root) simp
  with deleting_removes_the_thread [OF blog_world_wf(1) r] r show ?thesis by auto
qed

definition hidden_world :: world where
  "hidden_world = blog_world\<lparr>db := (db blog_world)\<lparr>posts := [draft_row\<lparr>pr_count := 1\<rparr>], comments := [news_comment\<lparr>cr_post := 20\<rparr>]\<rparr>\<rparr>"

lemma hidden_world_wf: "blog_wf (db hidden_world)" "outcomes hidden_world = []"
  by (simp_all add: hidden_world_def blog_rows blog_wf_def posts_wf_def comments_wf_def comment_row_wf_def counts_agree_def
      live_comments_of_def post_live_def comment_live_def posts_checks_def comments_checks_def btrim_def
      trim_char_def trim_both_def sample_lengths posts_slug_format_def slug_pattern_def slug_rune_def
      PostStatusDraft_def PostStatusPublished_def empty_world_def)

theorem thread_of_hidden_post_is_hidden_witness:
  "\<exists>e. comment_svc_ByID comment_repository (post_svc_ByID (post_repository sample_jwt)) (Some stranger) 30 hidden_world
      = (Inl e, hidden_world) \<and> comment_missing e"
proof -
  have h: "hidden_from (Some stranger) (live_post hidden_world 20)"
    by (simp add: hidden_from_def live_post_def live_row_def hidden_world_def draft_row_def post_live_def canView_def
        CanModify_def IsAdmin_def)
  have c: "live_comment hidden_world 30 = Some (plain_comment (news_comment\<lparr>cr_post := 20\<rparr>))"
    by (simp add: live_comment_def live_comment_row_def hidden_world_def news_comment_def comment_live_def)
  have "cmt_post (plain_comment (news_comment\<lparr>cr_post := 20\<rparr>)) = 20" by simp
  from thread_of_hidden_post_is_hidden [OF hidden_world_wf(2,1) h c this] show ?thesis by blast
qed

theorem editing_changes_the_text_only_witness:
  "\<exists>c w. comment_svc_Update sample_jwt comment_repository bo_actor 30 ''hi'' blog_world = (Inr c, w)
    \<and> live_post w = live_post blog_world"
proof -
  have "CanModify bo_actor (cr_author news_comment)" by (simp add: CanModify_def news_comment_def)
  moreover have "\<exists>c d. update_content 30 ''hi'' (db_now blog_world) (db blog_world) = Inr (Some c, d)"
    by (simp add: update_content_def) (simp add: comments_checks_def btrim_def trim_char_def trim_both_def
        sample_lengths join_author_def author_row_def blog_rows)
  ultimately have "\<exists>c w. comment_svc_Update sample_jwt comment_repository bo_actor 30 ''hi'' blog_world = (Inr c, w)"
    by (auto simp: comment_svc_Update_def comment_AuthorAndPostOf_def execute_quiet blog_world_wf select_comment_owner_def
        comment_Update_def)
  then obtain c w where r: "comment_svc_Update sample_jwt comment_repository bo_actor 30 ''hi'' blog_world = (Inr c, w)" by blast
  from editing_changes_the_text_only [OF blog_world_wf(1) r] r show ?thesis by auto
qed

end
