(* ===== verification/Blog_History.thy ===== *)
theory Blog_History
  imports User_Service Comment_Service
begin

text \<open>
  Every request the API serves as one step relation on the world, and what no sequence of requests
  breaks: the well-formedness of the four tables, whatever the outcomes of the round trips. Account
  requests leave posts and comments alone and only add accounts; blog requests leave accounts and
  sessions alone; \<open>blog_wf\<close> depends on the accounts only through their ids.
\<close>

section \<open>Requests as steps\<close>

inductive api_step :: "ext \<Rightarrow> hasher \<Rightarrow> token_service \<Rightarrow> world \<Rightarrow> world \<Rightarrow> bool" for x h ts where
  account: "account_step x (blog_accounts x h ts) w w' \<Longrightarrow> api_step x h ts w w'"
| expire: "session_DeleteExpired cutoff w = (rn, w') \<Longrightarrow> api_step x h ts w w'"
| create_post: "post_svc_Create x (post_repository x) a ci w = (rp, w') \<Longrightarrow> api_step x h ts w w'"
| update_post: "post_svc_Update x (post_repository x) a i req w = (rp, w') \<Longrightarrow> api_step x h ts w w'"
| delete_post: "post_svc_Delete x (post_repository x) a i w = (ru, w') \<Longrightarrow> api_step x h ts w w'"
| create_comment: "comment_svc_Create x comment_repository (post_svc_ByID (post_repository x)) a cc w = (rc, w')
    \<Longrightarrow> api_step x h ts w w'"
| update_comment: "comment_svc_Update x comment_repository a i s w = (rc, w') \<Longrightarrow> api_step x h ts w w'"
| delete_comment: "comment_svc_Delete x comment_repository a i w = (ru, w') \<Longrightarrow> api_step x h ts w w'"

inductive_cases api_stepE: "api_step x h ts w w'"

definition api_history :: "ext \<Rightarrow> hasher \<Rightarrow> token_service \<Rightarrow> world \<Rightarrow> world \<Rightarrow> bool" where
  "api_history x h ts = (api_step x h ts)\<^sup>*\<^sup>*"

definition sessions_owned :: "database \<Rightarrow> bool" where
  "sessions_owned d \<longleftrightarrow> (\<forall>r \<in> set (tokens d). rt_user r \<in> user_id ` set (users d))"

definition tables_wf :: "database \<Rightarrow> bool" where
  "tables_wf d \<longleftrightarrow> users_wf (users d) \<and> tokens_wf (tokens d) \<and> sessions_owned d \<and> blog_wf d"

section \<open>Account requests beside the blog\<close>

definition beside :: "database \<Rightarrow> database \<Rightarrow> bool" where
  "beside d d' \<longleftrightarrow> posts d' = posts d \<and> comments d' = comments d
     \<and> user_id ` set (users d) \<subseteq> user_id ` set (users d') \<and> (users_wf (users d) \<longrightarrow> users_wf (users d'))
     \<and> (sessions_owned d \<longrightarrow> sessions_owned d')"

lemma beside_trans: "beside d d1 \<Longrightarrow> beside d1 d2 \<Longrightarrow> beside d d2"
  unfolding beside_def by auto

lemma beside_refl [simp, intro]: "beside d d"
  by (simp add: beside_def)

lemma beside_tokens: "posts d' = posts d \<Longrightarrow> comments d' = comments d \<Longrightarrow> users d' = users d
    \<Longrightarrow> (sessions_owned d \<Longrightarrow> sessions_owned d') \<Longrightarrow> beside d d'"
  by (simp add: beside_def)

lemma beside_users: "posts d' = posts d \<Longrightarrow> comments d' = comments d \<Longrightarrow> tokens d' = tokens d
    \<Longrightarrow> user_id ` set (users d) \<subseteq> user_id ` set (users d') \<Longrightarrow> (users_wf (users d) \<Longrightarrow> users_wf (users d'))
    \<Longrightarrow> beside d d'"
  unfolding beside_def sessions_owned_def by (simp add: subset_iff)

lemma account_statements_beside:
  "insert_user x u t d = Inr (r1, d') \<Longrightarrow> beside d d'"
  "update_display_name x i n t d = Inr (r1, d') \<Longrightarrow> beside d d'"
  "insert_token s t d = Inr (r2, d') \<Longrightarrow> beside d d'"
  "revoke_replaced h i t d = Inr (r3, d') \<Longrightarrow> beside d d'"
  "revoke_where P t d = Inr (r3, d') \<Longrightarrow> beside d d'"
  "delete_expired cutoff t d = Inr (r3, d') \<Longrightarrow> beside d d'"
proof -
  assume i: "insert_user x u t d = Inr (r1, d')"
  from insert_user_Inr(2) [OF i] users_wf_insert [OF i] show "beside d d'"
    by (intro beside_users) auto
next
  assume u: "update_display_name x i n t d = Inr (r1, d')"
  then have "map user_id (users d') = map user_id (users d)"
    by (rule update_display_name_Inr) (simp add: map_update_where)
  then have "user_id ` set (users d') = user_id ` set (users d)" by (metis list.set_map)
  with users_wf_update [OF u] u show "beside d d'"
    by (intro beside_users) (auto simp: update_display_name_def split: if_splits option.splits)
qed (auto simp: insert_token_def token_of_def revoke_replaced_def revoke_where_def delete_expired_def Let_def
    sessions_owned_def delete_where_def update_where_ball intro!: beside_tokens split: option.splits if_splits)

lemma execute_beside:
  assumes "execute st w = (r, w')" and "\<And>t d a d'. st t d = Inr (a, d') \<Longrightarrow> beside d d'"
  shows "beside (db w) (db w')"
  using assms(1) by (rule execute_invariant [where I = "beside (db w)"]) (auto intro: assms(2))

lemma account_methods_beside:
  "user_Create x u w = (r1, w') \<Longrightarrow> beside (db w) (db w')"
  "user_UpdateProfile x i n w = (r1, w') \<Longrightarrow> beside (db w) (db w')"
  "session_Create s w = (r2, w') \<Longrightarrow> beside (db w) (db w')"
  "session_Revoke h w = (r3, w') \<Longrightarrow> beside (db w) (db w')"
  "session_RevokeAllForUser i w = (r4, w') \<Longrightarrow> beside (db w) (db w')"
  "session_DeleteExpired cutoff w = (r4, w') \<Longrightarrow> beside (db w) (db w')"
  "session_Rotate h s w = (r2, w') \<Longrightarrow> beside (db w) (db w')"
proof -
  assume r: "session_Rotate h s w = (r2, w')"
  show "beside (db w) (db w')"
    using r unfolding session_Rotate_def
    by (rule InTx_invariant [where I = "beside (db w)"])
      (auto split: sum.splits prod.splits if_splits dest!: execute_ok account_statements_beside intro: beside_trans)
qed (auto simp: user_Create_def user_UpdateProfile_def session_Create_def session_Revoke_def
    session_RevokeAllForUser_def session_DeleteExpired_def split: sum.splits prod.splits
    dest: execute_beside [OF _ account_statements_beside(1)] execute_beside [OF _ account_statements_beside(2)]
      execute_beside [OF _ account_statements_beside(3)] execute_beside [OF _ account_statements_beside(5)]
      execute_beside [OF _ account_statements_beside(6)])

lemma account_reads_beside:
  "IssueAccessToken x ts u rl w = (q1, w') \<Longrightarrow> beside (db w) (db w')"
  "NewRefreshToken x ts w = (q2, w') \<Longrightarrow> beside (db w) (db w')"
  "new_uuid w = (i, w') \<Longrightarrow> beside (db w) (db w')"
  "Hash x h p w = (q3, w') \<Longrightarrow> beside (db w) (db w')"
  "Verify x dg p w = (q4, w') \<Longrightarrow> beside (db w) (db w')"
  "user_ByID j w = (q5, w') \<Longrightarrow> beside (db w) (db w')"
  "user_ByEmail e w = (q5, w') \<Longrightarrow> beside (db w) (db w')"
  "session_ByHash hh w = (q6, w') \<Longrightarrow> beside (db w) (db w')"
  by (auto dest!: IssueAccessToken_frame NewRefreshToken_frame new_uuid_frame Hash_frame Verify_frame
      session_ByHash_db accounts.byid_frame [unfolded user_repository_simps]
      accounts.byemail_frame [unfolded user_repository_simps])

lemmas account_calls_beside = account_methods_beside account_reads_beside

lemma issue_beside: "issue x (blog_accounts x h ts) u ua w = (r, w') \<Longrightarrow> beside (db w) (db w')"
  by (auto simp: issue_def session_repository_def split: sum.splits prod.splits dest!: account_calls_beside
      intro: beside_trans)

lemma account_operations_beside:
  "Register x (blog_accounts x h ts) i w = (r1, w') \<Longrightarrow> beside (db w) (db w')"
  "Login x (blog_accounts x h ts) mail password ua w = (r2, w') \<Longrightarrow> beside (db w) (db w')"
  "Refresh x (blog_accounts x h ts) tok ua w = (r2, w') \<Longrightarrow> beside (db w) (db w')"
  "Logout x (blog_accounts x h ts) tok w = (r3, w') \<Longrightarrow> beside (db w) (db w')"
  "LogoutAll x (blog_accounts x h ts) a w = (r4, w') \<Longrightarrow> beside (db w) (db w')"
  "user_svc_UpdateProfile (blog_accounts x h ts) a name w = (r1, w') \<Longrightarrow> beside (db w) (db w')"
  by (auto simp: Register_def Login_def Refresh_def Logout_def LogoutAll_def user_svc_UpdateProfile_def Let_def
        user_repository_def session_repository_def split: sum.splits prod.splits option.splits if_splits
      dest!: account_calls_beside issue_beside) (meson beside_trans)+

lemma account_step_beside: "account_step x (blog_accounts x h ts) w w' \<Longrightarrow> beside (db w) (db w')"
  by (erule account_stepE) (auto dest: account_operations_beside)

lemma comment_row_wf_beside: "beside d d' \<Longrightarrow> comment_row_wf d c \<Longrightarrow> comment_row_wf d' c"
  by (cases "cr_parent c") (auto simp: beside_def comment_row_wf_def)

lemma blog_wf_beside: "beside d d' \<Longrightarrow> blog_wf d \<Longrightarrow> blog_wf d'"
  using comment_row_wf_beside [of d d']
  by (auto simp: beside_def blog_wf_def posts_wf_def comments_wf_def counts_agree_def)

section \<open>Blog requests beside the accounts\<close>

definition same_accounts :: "database \<Rightarrow> database \<Rightarrow> bool" where
  "same_accounts d d' \<longleftrightarrow> users d' = users d \<and> tokens d' = tokens d"

lemma same_accounts_simps [simp]: "same_accounts d d"
  by (simp add: same_accounts_def)

lemma same_accounts_trans: "same_accounts d d1 \<Longrightarrow> same_accounts d1 d2 \<Longrightarrow> same_accounts d d2"
  by (simp add: same_accounts_def)

lemma blog_statements_same_accounts:
  "insert_post p t d = Inr (r1, d') \<Longrightarrow> same_accounts d d'"
  "update_post i u t d = Inr (r2, d') \<Longrightarrow> same_accounts d d'"
  "soft_delete_post i t d = Inr (r3, d') \<Longrightarrow> same_accounts d d'"
  "soft_delete_comments_of i t d = Inr (r3, d') \<Longrightarrow> same_accounts d d'"
  "increment_count i t d = Inr (r3, d') \<Longrightarrow> same_accounts d d'"
  "insert_comment c t d = Inr (r4, d') \<Longrightarrow> same_accounts d d'"
  "update_content i s t d = Inr (r5, d') \<Longrightarrow> same_accounts d d'"
  "soft_delete_thread i t d = Inr (r3, d') \<Longrightarrow> same_accounts d d'"
  "decrement_count i n t d = Inr (r3, d') \<Longrightarrow> same_accounts d d'"
  by (auto simp: insert_post_def update_post_def soft_delete_post_def soft_delete_comments_of_def
      increment_count_def insert_comment_def update_content_def soft_delete_thread_def decrement_count_def
      same_accounts_def Let_def split: if_splits option.splits)

lemma execute_same_accounts:
  assumes "execute st w = (r, w')" and "\<And>t d a d'. st t d = Inr (a, d') \<Longrightarrow> same_accounts d d'"
  shows "same_accounts (db w) (db w')"
  using assms(1) by (rule execute_invariant [where I = "same_accounts (db w)"]) (auto intro: assms(2))

lemma InTx_same_accounts:
  assumes "InTx fn w = (r, w')" and "\<And>v a v'. fn v = (Inr a, v') \<Longrightarrow> same_accounts (db v) (db v')"
  shows "same_accounts (db w) (db w')"
  using assms(1) by (rule InTx_invariant [where I = "same_accounts (db w)"])
    (auto dest: assms(2) intro: same_accounts_trans)

lemmas executed_same_accounts =
  execute_same_accounts [OF _ blog_statements_same_accounts(1)]
  execute_same_accounts [OF _ blog_statements_same_accounts(2)]
  execute_same_accounts [OF _ blog_statements_same_accounts(7)]

lemma bodies_same_accounts:
  "post_delete_body i w = (Inr u, w') \<Longrightarrow> same_accounts (db w) (db w')"
  "comment_create_body c w = (Inr c', w') \<Longrightarrow> same_accounts (db w) (db w')"
  "comment_delete_body i q w = (Inr u, w') \<Longrightarrow> same_accounts (db w) (db w')"
  by (auto simp: post_delete_body_def comment_create_body_def comment_delete_body_def split: sum.splits prod.splits if_splits
      dest!: execute_ok blog_statements_same_accounts intro: same_accounts_trans)

lemma blog_writes_same_accounts:
  "post_Create p w = (r1, w') \<Longrightarrow> same_accounts (db w) (db w')"
  "post_Update i u w = (r1, w') \<Longrightarrow> same_accounts (db w) (db w')"
  "post_Delete i w = (r2, w') \<Longrightarrow> same_accounts (db w) (db w')"
  "comment_Create c w = (r3, w') \<Longrightarrow> same_accounts (db w) (db w')"
  "comment_Update i s w = (r3, w') \<Longrightarrow> same_accounts (db w) (db w')"
  "comment_Delete i q w = (r2, w') \<Longrightarrow> same_accounts (db w) (db w')"
  by (auto simp: post_Create_def post_Update_def post_Delete_def comment_Create_def comment_Update_def
      comment_Delete_def split: sum.splits prod.splits if_splits option.splits
      dest: executed_same_accounts post_rows.byid_frame [unfolded post_repository_simps]
        InTx_same_accounts [OF _ bodies_same_accounts(1)] InTx_same_accounts [OF _ bodies_same_accounts(2)]
        InTx_same_accounts [OF _ bodies_same_accounts(3)])

lemma blog_reads_same_db:
  "post_svc_ByID (post_repository x) a i w = (r1, w') \<Longrightarrow> db w' = db w"
  "post_AuthorOf i w = (r2, w') \<Longrightarrow> db w' = db w"
  "comment_AuthorAndPostOf i w = (r3, w') \<Longrightarrow> db w' = db w"
  "slug_of_title x t w = (s, w') \<Longrightarrow> db w' = db w"
  "slug_candidate k b w = (s, w') \<Longrightarrow> db w' = db w"
  "new_uuid w = (j, w') \<Longrightarrow> db w' = db w"
  by (auto dest: slug_of_title_frame slug_candidate_frame post_rows.reader.read_frame post_rows.authorof_frame [unfolded post_repository_simps]
        comment_rows.owner_frame [unfolded comment_repository_simps] new_uuid_frame)

lemma create_attempts_same_accounts:
  "create_attempts x (post_repository x) p base n err w = (r, w') \<Longrightarrow> same_accounts (db w) (db w')"
proof (induction n arbitrary: err w)
  case (Suc n)
  from Suc.prems show ?case
    by (auto split: prod.splits sum.splits if_splits dest!: blog_reads_same_db blog_writes_same_accounts(1) Suc.IH
        intro: same_accounts_trans)
qed simp

lemma update_attempts_same_accounts:
  "update_attempts (post_repository x) i u base n err w = (r, w') \<Longrightarrow> same_accounts (db w) (db w')"
proof (induction n arbitrary: err w)
  case (Suc n)
  from Suc.prems show ?case
    by (auto split: prod.splits sum.splits if_splits dest!: blog_reads_same_db blog_writes_same_accounts(2) Suc.IH
        intro: same_accounts_trans)
qed simp

lemma blog_operations_same_accounts:
  "post_svc_Create x (post_repository x) a ci w = (r1, w') \<Longrightarrow> same_accounts (db w) (db w')"
  "post_svc_Update x (post_repository x) a i req w = (r1, w') \<Longrightarrow> same_accounts (db w) (db w')"
  "post_svc_Delete x (post_repository x) a i w = (r2, w') \<Longrightarrow> same_accounts (db w) (db w')"
  "comment_svc_Create x comment_repository (post_svc_ByID (post_repository x)) a cc w = (r3, w')
     \<Longrightarrow> same_accounts (db w) (db w')"
  "comment_svc_Update x comment_repository a i s w = (r3, w') \<Longrightarrow> same_accounts (db w) (db w')"
  "comment_svc_Delete x comment_repository a i w = (r2, w') \<Longrightarrow> same_accounts (db w) (db w')"
proof -
  assume u: "post_svc_Update x (post_repository x) a i req w = (r1, w')"
  then show "same_accounts (db w) (db w')"
    by (auto simp: post_svc_Update_def updateWithSlugRetry_def split: prod.splits sum.splits if_splits option.splits
      dest!: blog_reads_same_db update_of_request_frame blog_writes_same_accounts(2) update_attempts_same_accounts
      intro: same_accounts_trans)
qed (auto simp: post_svc_Create_def post_svc_Delete_def comment_svc_Create_def comment_svc_Update_def
    comment_svc_Delete_def Let_def split: prod.splits sum.splits if_splits option.splits
    dest!: blog_reads_same_db blog_writes_same_accounts create_attempts_same_accounts intro: same_accounts_trans)

section \<open>Histories\<close>

lemma delete_expired_wf: "delete_expired cutoff t d = Inr (k, d') \<Longrightarrow> tokens_wf (tokens d) \<Longrightarrow> tokens_wf (tokens d')"
  by (auto simp: delete_expired_def tokens_wf_def delete_where_def map_update_where distinct_map_filter Let_def)

lemma step_keeps_tables: "api_step x h ts w w' \<Longrightarrow> tables_wf (db w) \<Longrightarrow> tables_wf (db w')"
proof (erule api_stepE, goal_cases)
  case 1
  then have "tokens_wf (tokens (db w'))"
    using account_svc.step_keeps [OF 1(2)] by (simp add: account_svc.keeps_def tables_wf_def)
  with 1 account_step_beside [of x h ts w w'] blog_wf_beside [of "db w" "db w'"] show ?case
    by (auto simp: tables_wf_def beside_def)
next
  case (2 cutoff rn)
  then have "tokens_wf (tokens (db w'))"
    by (auto simp: session_DeleteExpired_def tables_wf_def split: sum.splits prod.splits
      elim!: execute_invariant [where I = "\<lambda>d. tokens_wf (tokens d)"] dest: delete_expired_wf)
  with 2 account_methods_beside(6) [of cutoff w rn w'] blog_wf_beside [of "db w" "db w'"] show ?case
    by (auto simp: tables_wf_def beside_def)
qed (auto simp: tables_wf_def same_accounts_def sessions_owned_def dest: blog_operations_same_accounts
    post_rows.operations_keep_inv comment_svc.operations_keep_inv)

lemma history_keeps_tables: "api_history x h ts w w' \<Longrightarrow> tables_wf (db w) \<Longrightarrow> tables_wf (db w')"
  unfolding api_history_def by (induction rule: rtranclp_induct) (auto dest: step_keeps_tables)

section \<open>Properties\<close>

text \<open>No sequence of requests, by anybody, interleaved with maintenance and with any replies lost or
  unacknowledged on the way, breaks a table: keys stay unique, every session belongs to an account,
  every comment to a post and an author, replies stay on their post, live posts have distinct
  slugs, and the stored counters agree with the comments.\<close>

theorem requests_keep_tables_well_formed:
  assumes "tables_wf (db w)" and "api_history x h ts w w'"
  shows "tables_wf (db w')"
  by (rule history_keeps_tables [OF assms(2,1)])

lemma live_comments_count:
  assumes "distinct (map cr_id (comments (db w)))"
  shows "count_where (live_comments_of i) (comments (db w))
    = card {j. \<exists>c. live_comment w j = Some c \<and> cmt_post c = i}"
proof -
  let ?rows = "filter (live_comments_of i) (comments (db w))"
  have "{j. \<exists>c. live_comment w j = Some c \<and> cmt_post c = i} = cr_id ` set ?rows"
    using live_comment_row_unique [OF assms]
    by (auto simp: live_comment_def live_comments_of_def image_iff dest!: live_comment_row_Some)
  moreover have "distinct (map cr_id ?rows)" using assms by (rule distinct_map_filter)
  ultimately show ?thesis using distinct_card [of ?rows] by (simp add: count_where_def card_image distinct_map)
qed

text \<open>Starting from empty tables, whatever requests are served and whatever replies are lost, the
  comment count a post shows is at every moment the number of its live comments, every live comment
  is on a live post, and two live posts never share a slug.\<close>

theorem served_blog_is_consistent:
  assumes "users (db w0) = []" "tokens (db w0) = []" "posts (db w0) = []" "comments (db w0) = []"
    and "api_history x h ts w0 w"
  shows "(\<forall>i p. live_post w i = Some p \<longrightarrow>
      comment_count p = int (card {j. \<exists>c. live_comment w j = Some c \<and> cmt_post c = i}))
    \<and> (\<forall>j c. live_comment w j = Some c \<longrightarrow> live_post w (cmt_post c) \<noteq> None)
    \<and> (\<forall>i j p q. live_post w i = Some p \<longrightarrow> live_post w j = Some q \<longrightarrow> slug p = slug q \<longrightarrow> i = j)"
proof -
  have "tables_wf (db w0)" using assms(1-4)
    by (simp add: tables_wf_def users_wf_def tokens_wf_def sessions_owned_def empty_blog)
  from history_keeps_tables [OF assms(5) this] have wf: "blog_wf (db w)" by (simp add: tables_wf_def)
  then have d: "distinct (map cr_id (comments (db w)))" by (simp add: blog_wf_def comments_wf_def)
  have row: "r \<in> set (posts (db w)) \<and> post_live r \<and> pr_id r = i \<and> p = plain_post r" if "live_row (db w) i = Some r"
      "live_post w i = Some p" for i r p
    using that by (auto simp: live_post_def dest: live_row_Some)
  show ?thesis
  proof (intro conjI allI impI)
    fix i p assume "live_post w i = Some p"
    then obtain r where "live_row (db w) i = Some r" "p = plain_post r" by (auto simp: live_post_def)
    with wf live_row_Some [of "db w" i r] live_comments_count [OF d, of i]
    show "comment_count p = int (card {j. \<exists>c. live_comment w j = Some c \<and> cmt_post c = i})"
      by (auto simp: blog_wf_def counts_agree_def)
  next
    fix j c assume "live_comment w j = Some c"
    then obtain r where r: "r \<in> set (comments (db w))" "comment_live r" "c = plain_comment r"
      by (auto simp: live_comment_def dest: live_comment_row_Some)
    with wf obtain q where q: "q \<in> set (posts (db w))" "pr_id q = cr_post r" "post_live q"
      by (auto simp: blog_wf_def comments_wf_def comment_row_wf_def)
    with wf live_row_unique [of "db w" q] r show "live_post w (cmt_post c) \<noteq> None"
      by (simp add: live_post_def blog_wf_def posts_wf_def)
  next
    fix i j p q assume "live_post w i = Some p" "live_post w j = Some q" "slug p = slug q"
    then obtain r s where r: "live_row (db w) i = Some r" "live_row (db w) j = Some s" "pr_slug r = pr_slug s"
      by (auto simp: live_post_def)
    have "distinct (map pr_slug (filter post_live (posts (db w))))" using wf by (simp add: blog_wf_def posts_wf_def)
    with live_row_Some [OF r(1)] live_row_Some [OF r(2)] r(3) show "i = j"
      by (auto simp: distinct_map inj_on_def)
  qed
qed

section \<open>Witnesses\<close>

lemma blog_world_tables: "tables_wf (db blog_world)"
  using blog_world_wf(1) by (simp add: tables_wf_def blog_world_def bo_def users_wf_def tokens_wf_def sessions_owned_def
      empty_world_def)

theorem requests_keep_tables_well_formed_witness:
  "\<exists>w. comment_svc_Delete sample_jwt comment_repository bo_actor 30 blog_world = (Inr (), w) \<and> tables_wf (db w)"
proof -
  obtain w where r: "comment_svc_Delete sample_jwt comment_repository bo_actor 30 blog_world = (Inr (), w)"
    using bo_uncomments by blast
  then have "api_history sample_jwt (NewHasher 10) sample_service blog_world w"
    by (auto simp: api_history_def intro: api_step.delete_comment)
  from requests_keep_tables_well_formed [OF blog_world_tables this] r show ?thesis by blast
qed

text \<open>Ann registers on the empty site and posts.\<close>

theorem served_blog_is_consistent_witness:
  "\<exists>u w r w'. Register sample_jwt sample_accounts anns_registration empty_world = (Inr u, w)
    \<and> post_svc_Create sample_jwt (post_repository sample_jwt) \<lparr>actor_id = user_id u, actor_role = role u\<rparr> hello_input w = (r, w')
    \<and> (\<forall>j c. live_comment w' j = Some c \<longrightarrow> live_post w' (cmt_post c) \<noteq> None)"
proof -
  obtain u w where u: "Register sample_jwt sample_accounts anns_registration empty_world = (Inr u, w)"
    using ann_registers by blast
  obtain r w' where p: "post_svc_Create sample_jwt (post_repository sample_jwt)
      \<lparr>actor_id = user_id u, actor_role = role u\<rparr> hello_input w = (r, w')"
    by fastforce
  have h: "api_history sample_jwt (NewHasher 12) sample_service empty_world w'"
    using api_step.account [OF account_step.register [OF u]] api_step.create_post [OF p]
    unfolding api_history_def by (meson converse_rtranclp_into_rtranclp r_into_rtranclp)
  have "users (db empty_world) = []" "tokens (db empty_world) = []" "posts (db empty_world) = []"
      "comments (db empty_world) = []" by (simp_all add: empty_world_def)
  from served_blog_is_consistent [OF this h] u p show ?thesis by blast
qed

end
