(* ===== verification/Thread_Query.thy ===== *)
theory Thread_Query
  imports "HOL-Library.While_Combinator" Blog_History
begin

text \<open>
  The recursive query of \<open>Delete\<close> in \<open>internal/comment/repository.go\<close>, evaluated the way PostgreSQL
  evaluates \<open>WITH RECURSIVE ... UNION ALL\<close>: a working table is replaced by the rows that join it until
  it is empty, and nothing is removed from it as a duplicate, so on a circular chain of replies the
  query would not end. \<open>while_option\<close> makes not ending a value. Lemmas: on well-formed tables it ends,
  lists every comment of the thread exactly once and agrees with \<open>thread_of\<close>.
\<close>

section \<open>The query\<close>

definition union_all :: "('a list \<Rightarrow> 'a list) \<Rightarrow> 'a list \<times> 'a list \<Rightarrow> ('a list \<times> 'a list) option" where
  "union_all join = while_option (\<lambda>(found, working). working \<noteq> []) (\<lambda>(found, working). (found @ working, join working))"

text \<open>The two terms of the union.\<close>

definition thread_root :: "comment_row list \<Rightarrow> uuid \<Rightarrow> uuid list" where
  "thread_root cs i = map cr_id (filter (\<lambda>c. cr_id c = i \<and> comment_live c) cs)"

definition thread_join :: "comment_row list \<Rightarrow> uuid list \<Rightarrow> uuid list" where
  "thread_join cs working = concat (map (\<lambda>t. map cr_id (filter (\<lambda>c. cr_parent c = Some t \<and> comment_live c) cs)) working)"

definition thread_cte :: "comment_row list \<Rightarrow> uuid \<Rightarrow> uuid list option" where
  "thread_cte cs i = map_option fst (union_all (thread_join cs) ([], thread_root cs i))"

lemma union_all_unfold:
  "union_all join (found, working) =
    (if working = [] then Some (found, []) else union_all join (found @ working, join working))"
  unfolding union_all_def by (subst while_option_unfold) simp

lemma thread_join_set: "set (thread_join cs ids) = set (live_replies cs ids)"
  by (auto simp: thread_join_def live_replies_def)

section \<open>Termination\<close>

text \<open>Each round moves at least one position further down the table, which replies follow.\<close>

lemma live_replies_cong: "set a = set b \<Longrightarrow> live_replies cs a = live_replies cs b"
  by (simp add: live_replies_def)

lemma thread_levels_cong: "set a = set b \<Longrightarrow> set (thread_levels n cs a) = set (thread_levels n cs b)"
  by (cases n) (auto simp: live_replies_cong [of a b])

lemma at_or_after_cong: "set a = set b \<Longrightarrow> at_or_after n cs a = at_or_after n cs b"
  by (simp add: at_or_after_def)

lemma thread_join_after:
  assumes "parents_first {} cs" "distinct (map cr_id cs)" "at_or_after n cs ids"
  shows "at_or_after (Suc n) cs (thread_join cs ids)"
  using live_replies_after [OF assms] at_or_after_cong [OF thread_join_set] by simp

lemma union_all_ends:
  assumes "parents_first {} cs" "distinct (map cr_id cs)" and "at_or_after n cs working" "length cs \<le> n + k"
  shows "\<exists>more. union_all (thread_join cs) (found, working) = Some (found @ more, [])
    \<and> set more = set (thread_levels (Suc k) cs working)"
  using assms(3,4)
proof (induction k arbitrary: n found working)
  case 0
  then have "working = []" using at_or_after_end by simp
  then show ?case by (simp add: union_all_unfold)
next
  case (Suc k)
  show ?case
  proof (cases "working = []")
    case False
    from Suc.IH [OF thread_join_after [OF assms(1,2) Suc.prems(1)], of "found @ working"] Suc.prems(2)
    obtain more where more: "union_all (thread_join cs) (found @ working, thread_join cs working) = Some ((found @ working) @ more, [])"
        "set more = set (thread_levels (Suc k) cs (thread_join cs working))" by auto
    have "set (thread_levels (Suc k) cs (thread_join cs working)) = set (thread_levels (Suc k) cs (live_replies cs working))"
      by (rule thread_levels_cong [OF thread_join_set])
    with more False show ?thesis by (simp add: union_all_unfold [of _ found])
  qed (simp add: union_all_unfold)
qed

section \<open>No row twice\<close>

text \<open>What holds of the rows found and the working table for a thread rooted at position \<open>m\<close>: no row is
  there twice, and every row but the root came in through its parent.\<close>

definition union_inv :: "comment_row list \<Rightarrow> nat \<Rightarrow> uuid list \<times> uuid list \<Rightarrow> bool" where
  "union_inv cs m s \<longleftrightarrow> (case s of (found, working) \<Rightarrow> distinct (found @ working)
     \<and> (\<exists>n \<ge> m. at_or_after n cs working)
     \<and> (\<forall>c \<in> set cs. cr_id c \<in> set (found @ working) \<longrightarrow> cr_id c = cr_id (cs ! m) \<or> (\<exists>p \<in> set found. cr_parent c = Some p)))"

lemma thread_join_distinct:
  assumes "distinct (map cr_id cs)" "distinct ids"
  shows "distinct (thread_join cs ids)"
  using assms(2)
proof (induction ids)
  case (Cons t ids)
  let ?of = "\<lambda>t. map cr_id (filter (\<lambda>c. cr_parent c = Some t \<and> comment_live c) cs)"
  have "distinct (?of t)" using assms(1) by (rule distinct_map_filter)
  moreover have "distinct (thread_join cs ids)" using Cons by simp
  moreover have "k \<notin> set (thread_join cs ids)" if k: "k \<in> set (?of t)" for k
  proof
    assume "k \<in> set (thread_join cs ids)"
    then obtain c' u where c': "c' \<in> set cs" "cr_id c' = k" "cr_parent c' = Some u" "u \<in> set ids"
      by (auto simp: thread_join_def)
    from k obtain c where c: "c \<in> set cs" "cr_id c = k" "cr_parent c = Some t" by auto
    have "cr_id c = cr_id c'" using c(2) c'(2) by simp
    from comment_key.key_unique [OF assms(1) c(1) c'(1) this] c(3) c'(3,4) Cons.prems show False by simp
  qed
  moreover have "thread_join cs (t # ids) = ?of t @ thread_join cs ids" by (simp add: thread_join_def)
  ultimately show ?case by auto
qed (simp add: thread_join_def)

lemma union_inv_step:
  assumes wf: "parents_first {} cs" "distinct (map cr_id cs)" and m: "m < length cs"
    and inv: "union_inv cs m (found, working)"
  shows "union_inv cs m (found @ working, thread_join cs working)"
proof -
  from inv obtain n where n: "m \<le> n" "at_or_after n cs working" by (auto simp: union_inv_def)
  from inv have d: "distinct (found @ working)"
    and via: "\<And>c. c \<in> set cs \<Longrightarrow> cr_id c \<in> set (found @ working) \<Longrightarrow>
        cr_id c = cr_id (cs ! m) \<or> (\<exists>p \<in> set found. cr_parent c = Some p)"
    by (auto simp: union_inv_def)
  note after = thread_join_after [OF wf n(2)]
  then have root: "cr_id (cs ! m) \<notin> set (thread_join cs working)"
    using m n(1) by (auto simp: at_or_after_def)
  have joined: "\<exists>c t. c \<in> set cs \<and> cr_id c = k \<and> cr_parent c = Some t \<and> t \<in> set working"
    if "k \<in> set (thread_join cs working)" for k using that by (auto simp: thread_join_def)
  have new: "k \<notin> set (found @ working)" if k: "k \<in> set (thread_join cs working)" for k
  proof
    assume old: "k \<in> set (found @ working)"
    from joined [OF k] obtain c t where c: "c \<in> set cs" "cr_id c = k" "cr_parent c = Some t" "t \<in> set working" by blast
    with via [of c] old root k have "t \<in> set found" by auto
    with d c(4) show False by auto
  qed
  have "distinct working" using d by simp
  then have "distinct ((found @ working) @ thread_join cs working)"
    using d new thread_join_distinct [OF wf(2)] by auto
  moreover have "\<exists>n \<ge> m. at_or_after n cs (thread_join cs working)" using after n(1) by (meson le_SucI)
  moreover have "cr_id c = cr_id (cs ! m) \<or> (\<exists>p \<in> set (found @ working). cr_parent c = Some p)"
    if "c \<in> set cs" "cr_id c \<in> set ((found @ working) @ thread_join cs working)" for c
  proof (cases "cr_id c \<in> set (thread_join cs working)")
    case True
    from joined [OF this] obtain c' t where "c' \<in> set cs" "cr_id c' = cr_id c" "cr_parent c' = Some t" "t \<in> set working" by blast
    with comment_key.key_unique [OF wf(2) this(1) that(1)] show ?thesis by auto
  next
    case False
    with via [OF that(1)] that(2) show ?thesis by auto
  qed
  ultimately show ?thesis unfolding union_inv_def prod.case by blast
qed

lemma union_all_distinct:
  assumes "parents_first {} cs" "distinct (map cr_id cs)" "m < length cs"
    and "union_all (thread_join cs) ([], [cr_id (cs ! m)]) = Some (found, [])"
  shows "distinct found"
proof -
  have "at_or_after m cs [cr_id (cs ! m)]"
    using assms(2,3) by (auto simp: at_or_after_def nth_eq_iff_index_eq distinct_map inj_on_def)
      (metis assms(2) distinct_conv_nth length_map nth_map order.refl)
  then have "union_inv cs m ([], [cr_id (cs ! m)])" by (auto simp: union_inv_def)
  from while_option_rule [where P = "union_inv cs m", OF _ assms(4) [unfolded union_all_def] this] union_inv_step [OF assms(1-3)]
  have "union_inv cs m (found, [])" by auto
  then show ?thesis by (simp add: union_inv_def)
qed

lemma thread_root_cases:
  assumes "distinct (map cr_id cs)"
  obtains "thread_root cs i = []" | m where "m < length cs" "cr_id (cs ! m) = i" "thread_root cs i = [cr_id (cs ! m)]"
proof (cases "\<exists>c \<in> set cs. cr_id c = i \<and> comment_live c")
  case True
  then obtain m where m: "m < length cs" "cr_id (cs ! m) = i" "comment_live (cs ! m)" by (auto simp: in_set_conv_nth)
  have "distinct (thread_root cs i)" unfolding thread_root_def using assms by (rule distinct_map_filter)
  moreover have "set (thread_root cs i) = {i}"
    using True by (auto simp: thread_root_def image_iff)
  ultimately have "thread_root cs i = [i]"
    by (cases "thread_root cs i"; cases "tl (thread_root cs i)") auto
  with m that(2) show thesis by simp
next
  case False
  then have "filter (\<lambda>c. cr_id c = i \<and> comment_live c) cs = []" by (auto simp: filter_empty_conv)
  with that(1) show thesis by (simp add: thread_root_def)
qed

text \<open>A circular reply, which the tables never hold, would keep the query going for ever.\<close>

lemma circular_reply_never_ends:
  assumes "cr_parent c = Some (cr_id c)" "comment_live c"
  shows "thread_cte [c] (cr_id c) = None"
proof (rule ccontr)
  assume "thread_cte [c] (cr_id c) \<noteq> None"
  then obtain r where r: "union_all (thread_join [c]) ([], [cr_id c]) = Some r"
    using assms by (auto simp: thread_cte_def thread_root_def)
  from while_option_rule [where P = "\<lambda>(found, working). working = [cr_id c]", OF _ r [unfolded union_all_def]]
  have "snd r = [cr_id c]" using assms by (auto simp: thread_join_def)
  with while_option_stop [OF r [unfolded union_all_def]] show False by auto
qed

lemma thread_cte_correct:
  assumes "comments_wf (db w)"
  shows "\<exists>ids. thread_cte (comments (db w)) i = Some ids \<and> distinct ids
    \<and> set ids = set (thread_of (comments (db w)) i) \<and> (\<forall>k. k \<in> set ids \<longleftrightarrow> in_thread (live_comment w) i k)"
proof -
  let ?cs = "comments (db w)"
  have wf: "parents_first {} ?cs" "distinct (map cr_id ?cs)" using assms by (simp_all add: comments_wf_def)
  have "set (thread_root ?cs i) \<subseteq> cr_id ` set ?cs" by (auto simp: thread_root_def)
  then have "at_or_after 0 ?cs (thread_root ?cs i)" by (simp add: at_or_after_def)
  from union_all_ends [OF wf this, of "length ?cs" "[]"] obtain ids where
      ids: "union_all (thread_join ?cs) ([], thread_root ?cs i) = Some (ids, [])"
        "set ids = set (thread_of ?cs i)"
    by (auto simp: thread_of_def thread_root_def)
  have "distinct ids"
  proof (rule thread_root_cases [OF wf(2), of i])
    assume "thread_root ?cs i = []"
    with ids(1) show ?thesis by (simp add: union_all_unfold)
  next
    fix m assume "m < length ?cs" "thread_root ?cs i = [cr_id (?cs ! m)]"
    with union_all_distinct [OF wf] ids(1) show ?thesis by simp
  qed
  with ids thread_of_iff [OF assms] show ?thesis by (auto simp: thread_cte_def)
qed

section \<open>Property\<close>

text \<open>C13: after any sequence of API requests the recursive query behind the deletion of a comment ends,
  although it removes no duplicates: it returns every live comment of the thread exactly once and
  nothing else, so at most as many rows as the table has.\<close>

theorem thread_query_ends:
  assumes "tables_wf (db w0)" and "api_history x h ts w0 w"
  shows "\<exists>ids. thread_cte (comments (db w)) i = Some ids \<and> distinct ids
    \<and> (\<forall>k. k \<in> set ids \<longleftrightarrow> in_thread (live_comment w) i k)
    \<and> length ids \<le> length (comments (db w)) \<and> set (thread_of (comments (db w)) i) = set ids"
proof -
  have wf: "comments_wf (db w)"
    using history_keeps_tables [OF assms(2,1)] by (simp add: tables_wf_def blog_wf_def)
  from thread_cte_correct [OF wf, of i] obtain ids where
      ids: "thread_cte (comments (db w)) i = Some ids" "distinct ids" "\<forall>k. k \<in> set ids \<longleftrightarrow> in_thread (live_comment w) i k"
      "set ids = set (thread_of (comments (db w)) i)" by blast
  have "set ids \<subseteq> set (map cr_id (comments (db w)))"
    using ids(3) by (auto dest!: in_thread_live elim!: in_thread_row_live)
  then have "card (set ids) \<le> length (comments (db w))"
    by (metis List.finite_set card_length card_mono le_trans length_map)
  moreover have "length ids = card (set ids)" using ids(2) by (simp add: distinct_card)
  ultimately show ?thesis using ids by auto
qed

theorem thread_query_ends_witness:
  "\<exists>r w. comment_svc_Create sample_jwt comment_repository (post_svc_ByID (post_repository sample_jwt)) bo_actor hi_input blog_world
      = (r, w) \<and> (\<exists>ids. thread_cte (comments (db w)) 30 = Some ids \<and> distinct ids)"
proof -
  obtain r w where c: "comment_svc_Create sample_jwt comment_repository (post_svc_ByID (post_repository sample_jwt))
      bo_actor hi_input blog_world = (r, w)"
    by fastforce
  then have "api_history sample_jwt (NewHasher 10) sample_service blog_world w"
    by (auto simp: api_history_def intro: api_step.create_comment)
  from thread_query_ends [OF blog_world_tables this, of 30] c show ?thesis by blast
qed

end
