(* ===== verification/Decoding.thy ===== *)
theory Decoding
  imports Httpx
begin

text \<open>
  \<open>internal/platform/httpx/request.go\<close>: \<open>DecodeJSON\<close> and \<open>decodeError\<close>, with the parts of
  \<open>mime\<close>, \<open>strconv.Quote\<close> and \<open>encoding/json\<close> they rest on. A destination struct is the list of its
  JSON field names and types; decoding yields the values it sets. Lemmas: a decoding error is always
  the client's fault, and what is decoded went through the declared fields only.
\<close>

section \<open>Media types\<close>

definition tspecial :: "char \<Rightarrow> bool" where
  "tspecial c \<longleftrightarrow> c \<in> set ''()<>@,;:/[]?='' \<or> byte c = 34 \<or> byte c = 92"

definition token_char :: "char \<Rightarrow> bool" where
  "token_char c \<longleftrightarrow> 32 < byte c \<and> byte c < 127 \<and> \<not> tspecial c"

definition trim_left_space :: "string \<Rightarrow> string" where
  "trim_left_space s = concat (map snd (dropWhile (\<lambda>(r, c). is_space r) (chunks s)))"

text \<open>A quoted value from after its opening quote; \<open>None\<close> without a closing quote or with a line break.\<close>

fun quoted_value :: "string \<Rightarrow> string \<Rightarrow> (string \<times> string) option" where
  "quoted_value acc [] = None"
| "quoted_value acc [c] =
    (if byte c = 34 then Some (rev acc, []) else None)"
| "quoted_value acc (c # d # s) =
    (if byte c = 34 then Some (rev acc, d # s)
     else if byte c = 92 \<and> tspecial d then quoted_value (d # acc) s
     else if byte c = 13 \<or> byte c = 10 then None
     else quoted_value (c # acc) (d # s))"

definition media_value :: "string \<Rightarrow> (string \<times> string) option" where
  "media_value s =
    (case s of
       [] \<Rightarrow> None
     | c # s' \<Rightarrow> if byte c = 34 then quoted_value [] s'
        else if token_char c then Some (takeWhile token_char s, dropWhile token_char s) else None)"

text \<open>One parameter: name in lower case, value, rest.\<close>

definition media_param :: "ext \<Rightarrow> string \<Rightarrow> (string \<times> string \<times> string) option" where
  "media_param x v =
    (case trim_left_space v of
       [] \<Rightarrow> None
     | c # rest \<Rightarrow>
        if c \<noteq> CHR '';'' then None
        else (let rest = trim_left_space rest; name = takeWhile token_char rest in
          if name = [] then None
          else (case trim_left_space (dropWhile token_char rest) of
             [] \<Rightarrow> None
           | e # rest \<Rightarrow>
              if e \<noteq> CHR ''='' then None
              else map_option (\<lambda>(value, rest). (to_lower (unicode_lower x) name, value, rest))
                     (media_value (trim_left_space rest)))))"

lemma trim_left_space_length: "length (trim_left_space s) \<le> length s"
proof -
  have "length (concat (map snd (dropWhile P xs))) \<le> length (concat (map snd xs))"
    for P and xs :: "(rune \<times> string) list"
    by (induction xs) auto
  from this [of "\<lambda>(r, c). is_space r" "chunks s"] show ?thesis
    by (simp add: trim_left_space_def concat_chunks)
qed

lemma quoted_value_length: "quoted_value acc s = Some (v, r) \<Longrightarrow> length r < length s"
  by (induction acc s arbitrary: v r rule: quoted_value.induct) (fastforce split: if_splits)+

lemma media_value_length: "media_value s = Some (v, r) \<Longrightarrow> length r < length s"
proof (cases s)
  case (Cons c s')
  assume "media_value s = Some (v, r)"
  with Cons quoted_value_length [of "[]" s' v r] length_dropWhile_le [of token_char s'] show ?thesis
    by (auto simp: media_value_def split: if_splits)
qed (simp add: media_value_def)

lemma media_param_length: "media_param x v = Some (k, a, r) \<Longrightarrow> length r < length v"
proof -
  assume p: "media_param x v = Some (k, a, r)"
  then obtain c r1 e r2 where s: "trim_left_space v = c # r1"
      "trim_left_space (dropWhile token_char (trim_left_space r1)) = e # r2"
      "media_value (trim_left_space r2) = Some (a, r)"
    by (auto simp: media_param_def Let_def split: list.splits if_splits)
  from media_value_length [OF s(3)] trim_left_space_length [of r2] have "length r < length r2" by simp
  moreover have "length r2 < length (dropWhile token_char (trim_left_space r1))"
    using trim_left_space_length [of "dropWhile token_char (trim_left_space r1)"] s(2) by simp
  moreover have "length (dropWhile token_char (trim_left_space r1)) \<le> length r1"
    using length_dropWhile_le [of token_char "trim_left_space r1"] trim_left_space_length [of r1] by simp
  moreover have "length r1 < length v" using trim_left_space_length [of v] s(1) by simp
  ultimately show ?thesis by simp
qed

text \<open>The parameters after the type: whether they parse; a name may come twice only with one value.\<close>

function media_params_ok :: "ext \<Rightarrow> (string \<times> string) list \<Rightarrow> string \<Rightarrow> bool" where
  "media_params_ok x seen v =
    (if trim_left_space v = [] then True
     else (case media_param x v of
        None \<Rightarrow> trim_space v = '';''
      | Some (k, a, r) \<Rightarrow>
         (case map_of seen k of
            Some b \<Rightarrow> a = b \<and> media_params_ok x seen r
          | None \<Rightarrow> media_params_ok x ((k, a) # seen) r)))"
  by pat_completeness auto
termination
  by (relation "measure (\<lambda>(x, seen, v). length v)") (auto dest: media_param_length)

declare media_params_ok.simps [simp del]

text \<open>\<open>mime.ParseMediaType\<close>: the type, when it and its parameters parse.\<close>

definition parse_media_type :: "ext \<Rightarrow> string \<Rightarrow> string option" where
  "parse_media_type x v =
    (case cut (CHR '';'') v of (base, _, _) \<Rightarrow>
      (let mt = trim_space (to_lower (unicode_lower x) base);
           major = takeWhile token_char mt; slash = dropWhile token_char mt;
           type_ok = (major \<noteq> [] \<and> (slash = [] \<or>
             (hd slash = CHR ''/'' \<and> tl slash \<noteq> [] \<and> list_all token_char (tl slash)))) in
       if type_ok \<and> media_params_ok x [] (drop (length base) v) then Some mt else None))"

section \<open>Quoting\<close>

definition hex_digits :: "nat \<Rightarrow> nat \<Rightarrow> string" where
  "hex_digits n v = map (\<lambda>i. ''0123456789abcdef'' ! ((v div 16 ^ i) mod 16)) (rev [0..<n])"

definition escaped_rune :: "ext \<Rightarrow> rune \<Rightarrow> string" where
  "escaped_rune x r =
    (if r = 34 \<or> r = 92 then [CHR 0x5C, char_of r]
     else if (if r < 128 then 32 \<le> r \<and> r < 127 else rune_print x r) then encode_rune r
     else CHR 0x5C #
       (if r = 7 then ''a'' else if r = 8 then ''b'' else if r = 12 then ''f'' else if r = 10 then ''n''
        else if r = 13 then ''r'' else if r = 9 then ''t'' else if r = 11 then ''v''
        else if r < 32 \<or> r = 127 then ''x'' @ hex_digits 2 r
        else if r < 65536 then ''u'' @ hex_digits 4 r
        else ''U'' @ hex_digits 8 r))"

definition quote :: "ext \<Rightarrow> string \<Rightarrow> string" where
  "quote x s = [CHR 0x22] @ concat (map (\<lambda>(r, c).
      if r = rune_error \<and> length c = 1 then [CHR 0x5C] @ ''x'' @ hex_digits 2 (byte (hd c))
      else escaped_rune x r) (chunks s)) @ [CHR 0x22]"

section \<open>Decoding into a struct\<close>

datatype field_type = TString | TStringPtr | TUUIDPtr

fun go_type :: "field_type \<Rightarrow> string" where
  "go_type TString = ''string''"
| "go_type TStringPtr = ''string''"
| "go_type TUUIDPtr = ''*uuid.UUID''"

type_synonym layout = "(string \<times> field_type) list"

datatype field_value = VString string | VUUID uuid

type_synonym decoded = "(string \<times> field_value) list"

text \<open>
  Keys match field names up to the folding of \<open>encoding/json\<close>; on the ASCII names used here only
  ASCII letters, the long s and the Kelvin sign fold onto something in a name.
\<close>

definition fold_key :: "string \<Rightarrow> rune list" where
  "fold_key s = map (\<lambda>r. if 97 \<le> r \<and> r \<le> 122 then r - 32 else if r = 383 then 83
     else if r = 8490 then 75 else r) (runes s)"

definition find_field :: "layout \<Rightarrow> string \<Rightarrow> (string \<times> field_type) option" where
  "find_field l k = find (\<lambda>(n, t). fold_key n = fold_key k) l"

text \<open>One member: the value it sets, an error to remember, or an error that ends the decoding.\<close>

datatype member_result = Sets field_value | Clears | Ignored | Remember gerr | Abort gerr

definition decode_member :: "ext \<Rightarrow> string \<Rightarrow> field_type \<Rightarrow> json \<Rightarrow> member_result" where
  "decode_member x name t v =
    (case v of
       JNull \<Rightarrow> (if t = TString then Ignored else Clears)
     | JStr s \<Rightarrow>
        (if t = TUUIDPtr then (case uuid_parse x s of Inl e \<Rightarrow> Abort e | Inr u \<Rightarrow> Sets (VUUID u))
         else Sets (VString s))
     | _ \<Rightarrow> Remember (JsonError (UnmarshalTypeError name (go_type t))))"

fun decode_members :: "ext \<Rightarrow> layout \<Rightarrow> (string \<times> json) list \<Rightarrow> gerr option \<Rightarrow> decoded \<Rightarrow> gerr + decoded" where
  "decode_members x l [] saved d = (case saved of Some e \<Rightarrow> Inl e | None \<Rightarrow> Inr d)"
| "decode_members x l ((k, v) # ms) saved d =
    (case find_field l k of
       None \<Rightarrow> decode_members x l ms
         (case saved of Some e \<Rightarrow> Some e | None \<Rightarrow> Some (LibError (''json: unknown field '' @ quote x k))) d
     | Some (n, t) \<Rightarrow>
        (case decode_member x n t v of
           Sets fv \<Rightarrow> decode_members x l ms saved (AList.update n fv d)
         | Clears \<Rightarrow> decode_members x l ms saved (AList.delete n d)
         | Ignored \<Rightarrow> decode_members x l ms saved d
         | Remember e \<Rightarrow> decode_members x l ms (case saved of Some e' \<Rightarrow> Some e' | None \<Rightarrow> Some e) d
         | Abort e \<Rightarrow> Inl e))"

definition decode_value :: "ext \<Rightarrow> layout \<Rightarrow> json \<Rightarrow> gerr + decoded" where
  "decode_value x l v =
    (case v of
       JNull \<Rightarrow> Inr []
     | JObj ms \<Rightarrow> decode_members x l ms None []
     | _ \<Rightarrow> Inl (JsonError (UnmarshalTypeError [] ''struct'')))"

text \<open>The next value of the body, as \<open>json.Decoder\<close> reads it.\<close>

fun next_value :: "scan list \<Rightarrow> (gerr + json) \<times> scan list" where
  "next_value [] = (Inl (Sentinel EOF), [])"
| "next_value (ScanFailed e # b) = (Inl e, ScanFailed e # b)"
| "next_value (Scanned v # b) = (Inr v, b)"

definition as_json :: "(json_error \<Rightarrow> 'a option) \<Rightarrow> gerr \<Rightarrow> 'a option" where
  "as_json f e = (case List.map_filter (\<lambda>g. case g of JsonError j \<Rightarrow> f j | _ \<Rightarrow> None) (chain e) of
     [] \<Rightarrow> None | a # _ \<Rightarrow> Some a)"

fun max_bytes :: "json_error \<Rightarrow> int option" where
  "max_bytes (MaxBytesError n) = Some n" | "max_bytes _ = None"
fun syntax_offset :: "json_error \<Rightarrow> int option" where
  "syntax_offset (SyntaxError n) = Some n" | "syntax_offset _ = None"
fun unmarshal_type :: "json_error \<Rightarrow> (string \<times> string) option" where
  "unmarshal_type (UnmarshalTypeError f t) = Some (f, t)" | "unmarshal_type _ = None"
fun invalid_unmarshal :: "json_error \<Rightarrow> unit option" where
  "invalid_unmarshal InvalidUnmarshalError = Some ()" | "invalid_unmarshal _ = None"

definition unknown_field_prefix :: string where "unknown_field_prefix = ''json: unknown field ''"

definition decodeError :: "gerr \<Rightarrow> gerr" where
  "decodeError err =
    (case as_json max_bytes err of
       Some limit \<Rightarrow> WithCause (NewErr CodePayloadTooLarge 413
          (''request body must not exceed '' @ itoa limit @ '' bytes'')) err
     | None \<Rightarrow>
    (case as_json syntax_offset err of
       Some off \<Rightarrow> WithCause (BadRequest (''malformed JSON at byte offset '' @ itoa off)) err
     | None \<Rightarrow>
     if errors_is err UnexpectedEOF
     then WithCause (BadRequest ''malformed JSON: unexpected end of input'') err
     else
    (case as_json unmarshal_type err of
       Some (f, t) \<Rightarrow>
         if f \<noteq> [] then WithCause (Validation [\<lparr>fe_field = f, fe_message = ''must be of type '' @ t\<rparr>]) err
         else WithCause (BadRequest ''request body has the wrong JSON type'') err
     | None \<Rightarrow>
     if errors_is err EOF then WithCause (BadRequest ''request body must not be empty'') err
     else if has_prefix unknown_field_prefix (error_text err)
     then WithCause (Validation [\<lparr>fe_field = trim_char (CHR 0x22) (trim_prefix unknown_field_prefix (error_text err)),
            fe_message = ''unknown field''\<rparr>]) err
     else (case as_json invalid_unmarshal err of
       Some _ \<Rightarrow> Internal err
     | None \<Rightarrow> WithCause (BadRequest ''request body could not be decoded'') err))))"

definition DecodeJSON :: "ext \<Rightarrow> http_request \<Rightarrow> layout \<Rightarrow> gerr + decoded" where
  "DecodeJSON x r l =
    (if hr_header r ''Content-Type'' \<noteq> [] \<and> parse_media_type x (hr_header r ''Content-Type'') \<noteq> Some ''application/json''
     then Inl (NewErr CodeUnsupportedType 415 ''Content-Type must be application/json'')
     else
       (case next_value (hr_body r (hr_limit r)) of
          (Inl e, b) \<Rightarrow> Inl (decodeError e)
        | (Inr v, b) \<Rightarrow>
           (case decode_value x l v of
              Inl e \<Rightarrow> Inl (decodeError e)
            | Inr d \<Rightarrow>
               (case next_value b of
                  (Inl e, b') \<Rightarrow> if errors_is e EOF then Inr d
                    else Inl (BadRequest ''request body must contain exactly one JSON object'')
                | (Inr v', b') \<Rightarrow> Inl (BadRequest ''request body must contain exactly one JSON object'')))))"

section \<open>What is decoded\<close>

fun has_type :: "field_type \<Rightarrow> field_value \<Rightarrow> bool" where
  "has_type TUUIDPtr v = (\<exists>u. v = VUUID u)"
| "has_type t v = (\<exists>s. v = VString s)"

definition typed :: "layout \<Rightarrow> decoded \<Rightarrow> bool" where
  "typed l d \<longleftrightarrow> distinct (map fst d) \<and> (\<forall>k v. map_of d k = Some v \<longrightarrow> (\<exists>t. (k, t) \<in> set l \<and> has_type t v))"

lemma find_field_mem: "find_field l k = Some (n, t) \<Longrightarrow> (n, t) \<in> set l"
  by (auto simp: find_field_def find_Some_iff) (metis nth_mem)

lemma decode_members_typed:
  "decode_members x l ms saved d = Inr d' \<Longrightarrow> typed l d \<Longrightarrow> typed l d'"
proof (induction ms arbitrary: saved d)
  case (Cons m ms)
  obtain k v where m: "m = (k, v)" by fastforce
  show ?case
  proof (cases "find_field l k")
    case None
    with Cons.IH [OF _ Cons.prems(2)] Cons.prems(1) m show ?thesis by simp
  next
    case (Some a)
    obtain n t where a: "a = (n, t)" by fastforce
    note field = find_field_mem [OF Some [unfolded a]]
    show ?thesis
    proof (cases "decode_member x n t v")
      case (Sets fv)
      then have "has_type t fv"
        by (cases t) (auto simp: decode_member_def split: json.splits sum.splits if_splits)
      with Cons.prems(2) field have "typed l (AList.update n fv d)"
        by (auto simp: typed_def distinct_update update_conv')
      with Cons.IH Cons.prems(1) m Some a Sets show ?thesis by simp
    next
      case Clears
      have "typed l (AList.delete n d)"
        using Cons.prems(2) by (auto simp: typed_def distinct_delete delete_conv' split: if_splits)
      with Cons.IH Cons.prems(1) m Some a Clears show ?thesis by simp
    qed (use Cons.IH [OF _ Cons.prems(2)] Cons.prems(1) m Some a in simp_all)
  qed
qed (simp split: option.splits)

lemma DecodeJSON_typed: "DecodeJSON x r l = Inr d \<Longrightarrow> typed l d"
  by (auto simp: DecodeJSON_def decode_value_def typed_def [where d = "[]"]
      split: if_splits prod.splits sum.splits json.splits
      dest!: decode_members_typed)


text \<open>The scanner and the identifier parser do not report a programming error of the caller.\<close>

definition no_programming_error :: "gerr \<Rightarrow> bool" where
  "no_programming_error e \<longleftrightarrow> as_json invalid_unmarshal e = None"

definition scanner_documented :: "ext \<Rightarrow> http_request \<Rightarrow> bool" where
  "scanner_documented x r \<longleftrightarrow> (\<forall>n e. ScanFailed e \<in> set (hr_body r n) \<longrightarrow> no_programming_error e)
     \<and> (\<forall>s e. uuid_parse x s = Inl e \<longrightarrow> no_programming_error e)"

definition clients_fault :: "gerr \<Rightarrow> bool" where
  "clients_fault e \<longleftrightarrow> From (Some e) = Some e \<and> err_status e \<in> {400, 413, 415, 422}"

lemma no_programming_error_simps [simp]:
  "no_programming_error (Sentinel s)" "no_programming_error (LibError m)"
  "no_programming_error (JsonError (UnmarshalTypeError f t))"
  by (simp_all add: no_programming_error_def as_json_def List.map_filter_def)

lemma decodeError_client: "no_programming_error e \<Longrightarrow> clients_fault (decodeError e)"
  by (auto simp: decodeError_def clients_fault_def no_programming_error_def From_def api_constructors
      split: option.splits)

lemma decode_members_errors:
  assumes "\<forall>s e. uuid_parse x s = Inl e \<longrightarrow> no_programming_error e"
  shows "decode_members x l ms saved d = Inl e \<Longrightarrow> \<forall>e. saved = Some e \<longrightarrow> no_programming_error e \<Longrightarrow>
    no_programming_error e"
proof (induction ms arbitrary: saved d)
  case (Cons m ms)
  obtain k v where m: "m = (k, v)" by fastforce
  show ?case
  proof (cases "find_field l k")
    case None
    with Cons.IH [of "case saved of Some e \<Rightarrow> Some e | None \<Rightarrow> Some (LibError (''json: unknown field '' @ quote x k))" d]
      Cons.prems m show ?thesis by (simp split: option.splits)
  next
    case (Some a)
    obtain n t where a: "a = (n, t)" by fastforce
    show ?thesis
    proof (cases "decode_member x n t v")
      case (Remember e')
      then have "no_programming_error e'"
        by (auto simp: decode_member_def split: json.splits sum.splits if_splits)
      with Cons.IH [of "case saved of Some e \<Rightarrow> Some e | None \<Rightarrow> Some e'" d] Cons.prems m Some a Remember
      show ?thesis by (simp split: option.splits)
    next
      case (Abort e')
      with assms have "no_programming_error e'"
        by (auto simp: decode_member_def split: json.splits sum.splits if_splits)
      with Cons.prems m Some a Abort show ?thesis by simp
    qed (use Cons.IH [OF _ Cons.prems(2)] Cons.prems(1) m Some a in simp_all)
  qed
qed (simp split: option.splits)

lemma next_value_error: "next_value b = (Inl e, rest) \<Longrightarrow> e = Sentinel EOF \<or> ScanFailed e \<in> set b"
  by (cases b rule: next_value.cases) auto

lemma DecodeJSON_error:
  assumes "DecodeJSON x r l = Inl e" "scanner_documented x r"
  shows "clients_fault e"
proof -
  have bad: "clients_fault (BadRequest m)" "clients_fault (NewErr CodeUnsupportedType 415 m)" for m
    by (simp_all add: clients_fault_def From_def api_constructors)
  have decoded_err: "no_programming_error e'" if "decode_value x l v = Inl e'" for v e'
    using that assms(2) decode_members_errors [of x l _ None "[]" e']
    by (auto simp: decode_value_def scanner_documented_def split: json.splits)
  have scan: "no_programming_error e'" if "next_value (hr_body r (hr_limit r)) = (Inl e', b)" for e' b
    using next_value_error [OF that] assms(2) by (auto simp: scanner_documented_def)
  from assms(1) show ?thesis
    by (auto simp: DecodeJSON_def bad split: if_splits prod.splits sum.splits
        intro!: decodeError_client dest: decoded_err scan)
qed

section \<open>Properties\<close>

text \<open>C32: whatever a client sends, a body that is not decoded is answered as the client's error: a 400,
  413, 415 or 422 of the API's own error type, never a 500.\<close>

theorem decoding_errors_are_the_clients:
  assumes "DecodeJSON x r l = Inl e" "scanner_documented x r"
  shows "From (Some e) = Some e \<and> err_status e \<in> {400, 413, 415, 422}"
  using DecodeJSON_error [OF assms] by (simp add: clients_fault_def)

definition sample_library :: ext where
  "sample_library = sample_ext [] \<lparr>cl_subject = [], cl_issuer = [], cl_audience = [], cl_issued = 0, cl_not_before = 0,
     cl_expires = 0, cl_id = [], cl_role = []\<rparr>"

definition posted :: "scan list \<Rightarrow> http_request" where
  "posted body = \<lparr>hr_method = ''POST'', hr_path = ''/api/v1/comments'', hr_remote = [], hr_header = (\<lambda>k. []), hr_query = [],
     hr_raw_query = [], hr_params = (\<lambda>k. []), hr_body = (\<lambda>n. body), hr_limit = Some 1048576, hr_deadline = None,
     hr_id = None, hr_actor = None, hr_logger = None\<rparr>"

theorem decoding_errors_are_the_clients_witness:
  "\<exists>e. DecodeJSON sample_library (posted [Scanned (JObj [(''content'', JNum 7)])]) [(''content'', TString)] = Inl e
    \<and> From (Some e) = Some e \<and> err_status e \<in> {400, 413, 415, 422}"
proof -
  let ?r = "posted [Scanned (JObj [(''content'', JNum 7)])]"
  obtain e where e: "DecodeJSON sample_library ?r [(''content'', TString)] = Inl e"
    by (simp add: DecodeJSON_def posted_def decode_value_def find_field_def decode_member_def)
  have "scanner_documented sample_library ?r"
    by (simp add: scanner_documented_def posted_def sample_library_def sample_ext_def parse_bits_def)
  from decoding_errors_are_the_clients [OF e this] e show ?thesis by blast
qed

end
