(* ===== verification/Handlers.thy ===== *)
theory Handlers
  imports Validator Database
begin

text \<open>
  What the endpoints of \<open>internal/user\<close>, \<open>internal/post\<close> and \<open>internal/comment\<close> share: the shape of
  a handler (request, reply so far, world), the error exit, the authentication guard and the
  path-parameter parser. Lemmas: what the writers leave in a reply.
\<close>

type_synonym handler = "http_request \<Rightarrow> reply \<Rightarrow> world \<Rightarrow> reply \<times> world"

definition fail :: "gerr \<Rightarrow> handler" where
  "fail e r rp w = (WriteError r (Some e) rp, w)"

definition authentication_required :: gerr where
  "authentication_required = Unauthorized ''authentication required''"

definition param_uuid :: "ext \<Rightarrow> http_request \<Rightarrow> string \<Rightarrow> gerr + uuid" where
  "param_uuid x r name =
    (case uuid_parse x (hr_params r name) of
       Inl e \<Rightarrow> Inl (WithCause (Validation [\<lparr>fe_field = name, fe_message = ''must be a valid UUID''\<rparr>]) e)
     | Inr i \<Rightarrow> Inr i)"

section \<open>Replies\<close>

text \<open>A reply nothing was written to yet.\<close>

definition unanswered :: "reply \<Rightarrow> bool" where
  "unanswered rp \<longleftrightarrow> rp_status rp = None \<and> rp_body rp = None \<and> \<not> rp_broken rp"

definition blank_reply :: reply where
  "blank_reply = \<lparr>rp_status = None, rp_headers = [], rp_body = None, rp_raw = None, rp_log = [], rp_broken = False\<rparr>"

lemma header_simps [simp]:
  "rp_status (set_header k v rp) = rp_status rp" "rp_body (set_header k v rp) = rp_body rp"
  "rp_broken (set_header k v rp) = rp_broken rp" "rp_log (set_header k v rp) = rp_log rp"
  "rp_status (log_to r l m as rp) = rp_status rp" "rp_body (log_to r l m as rp) = rp_body rp"
  "rp_broken (log_to r l m as rp) = rp_broken rp" "rp_headers (log_to r l m as rp) = rp_headers rp"
  "rp_log (log_to r l m as rp) = rp_log rp @ [\<lparr>ll_level = l, ll_message = m, ll_attrs = FromContext r @ as\<rparr>]"
  "rp_headers (set_header k v rp) = AList.update k v (rp_headers rp)"
  by (simp_all add: set_header_def log_to_def)

lemma unanswered_simps [simp]:
  "unanswered (set_header k v rp) = unanswered rp" "unanswered (log_to r l m as rp) = unanswered rp"
  by (simp_all add: unanswered_def)

lemma WriteJSON_answers:
  assumes "unanswered rp"
  shows "rp_status (WriteJSON r st v rp) = Some (if marshals v then st else 500)"
    and "rp_body (WriteJSON r st v rp) = Some (if marshals v then v else internal_body)"
  using assms by (simp_all add: WriteJSON_def write_header_def write_body_def unanswered_def set_header_def log_to_def Let_def)

lemma error_envelope_marshals [simp]: "marshals (error_envelope e i)"
  by (auto simp: error_envelope_def error_body_def omit_nil_def omit_empty_def json_field_error_def list_all_iff
      split: option.splits)

text \<open>What a reply says of an error: the status and the client-visible part; the cause is in the log.\<close>

lemma WriteError_answers:
  assumes "unanswered rp" and "From (Some e) = Some a"
  shows "rp_status (WriteError r (Some e) rp) = Some (err_status a)"
    and "rp_body (WriteError r (Some e) rp) = Some (error_envelope a (RequestID r))"
    and "rp_log (WriteError r (Some e) rp) = rp_log rp @
      [\<lparr>ll_level = (if err_status a \<ge> 500 then LevelError else LevelDebug),
        ll_message = (if err_status a \<ge> 500 then ''request failed'' else ''request rejected''),
        ll_attrs = FromContext r @ [Attr ''error_code'' (code_string (err_code a)), Attr ''status'' (itoa (err_status a)),
          Attr ''error'' (error_text a)]\<rparr>]"
proof -
  show "rp_status (WriteError r (Some e) rp) = Some (err_status a)"
      "rp_body (WriteError r (Some e) rp) = Some (error_envelope a (RequestID r))"
    using assms by (simp_all add: WriteError_def WriteJSON_answers Let_def)
  show "rp_log (WriteError r (Some e) rp) = rp_log rp @
      [\<lparr>ll_level = (if err_status a \<ge> 500 then LevelError else LevelDebug),
        ll_message = (if err_status a \<ge> 500 then ''request failed'' else ''request rejected''),
        ll_attrs = FromContext r @ [Attr ''error_code'' (code_string (err_code a)), Attr ''status'' (itoa (err_status a)),
          Attr ''error'' (error_text a)]\<rparr>]"
    using assms by (simp add: WriteError_def WriteJSON_def write_header_def write_body_def unanswered_def Let_def)
qed

text \<open>Two errors a client cannot tell apart leave the same status and body.\<close>

lemma WriteError_view:
  assumes "unanswered rp" "is_api a" "is_api b" "client_view a = client_view b"
  shows "rp_status (WriteError r (Some a) rp) = rp_status (WriteError r (Some b) rp)"
    and "rp_body (WriteError r (Some a) rp) = rp_body (WriteError r (Some b) rp)"
proof -
  have "From (Some a) = Some a" "From (Some b) = Some b"
    using assms(2,3) by (cases a; cases b; simp add: From_def)+
  note ab = WriteError_answers [OF assms(1) this(1)] WriteError_answers [OF assms(1) this(2)]
  show "rp_status (WriteError r (Some a) rp) = rp_status (WriteError r (Some b) rp)"
      "rp_body (WriteError r (Some a) rp) = rp_body (WriteError r (Some b) rp)"
    using assms(4) by (simp_all add: ab client_view_def error_envelope_def error_body_def)
qed

end
