(* ===== verification/Middleware.thy ===== *)
theory Middleware
  imports Handlers
begin

text \<open>
  \<open>internal/middleware\<close>: request ids, the access log, panic recovery, the body and time limits, the
  security headers, client addresses (\<open>middleware.go\<close>, \<open>panic.go\<close>) and cross-origin headers
  (\<open>cors.go\<close>). An endpoint may panic; middleware maps endpoints to endpoints, over any state.
  Lemmas: what each layer guarantees whatever it wraps.
\<close>

datatype panic_value = PanicError gerr | PanicOther string

type_synonym 's endpoint = "http_request \<Rightarrow> reply \<Rightarrow> 's \<Rightarrow> panic_value option \<times> reply \<times> 's"

text \<open>A table of routes: method, pattern and endpoint.\<close>

type_synonym 's routes = "(string \<times> string \<times> 's endpoint) list"

definition calm :: "(http_request \<Rightarrow> reply \<Rightarrow> 's \<Rightarrow> reply \<times> 's) \<Rightarrow> 's endpoint" where
  "calm h r rp s = (None, h r rp s)"

definition answer :: "gerr \<Rightarrow> 's endpoint" where
  "answer e r rp s = (None, WriteError r (Some e) rp, s)"

section \<open>Request ids\<close>

definition RequestIDHeader :: string where "RequestIDHeader = ''X-Request-Id''"
definition maxInboundRequestIDLen :: nat where "maxInboundRequestIDLen = 64"

definition safe_rune :: "rune \<Rightarrow> bool" where
  "safe_rune r \<longleftrightarrow> (97 \<le> r \<and> r \<le> 122) \<or> (65 \<le> r \<and> r \<le> 90) \<or> (48 \<le> r \<and> r \<le> 57) \<or> r = 45 \<or> r = 95 \<or> r = 46"

definition sanitizeRequestID :: "string \<Rightarrow> string" where
  "sanitizeRequestID raw =
    (if raw = [] \<or> length raw > maxInboundRequestIDLen then []
     else if list_all safe_rune (runes raw) then raw else [])"

text \<open>\<open>RequestID\<close>; \<open>fresh\<close> draws the text of a new random id from the state.\<close>

definition RequestID_mw :: "('s \<Rightarrow> string \<times> 's) \<Rightarrow> 's endpoint \<Rightarrow> 's endpoint" where
  "RequestID_mw fresh next r rp s =
    (let given = sanitizeRequestID (hr_header r RequestIDHeader);
         (i, s1) = (if given = [] then fresh s else (given, s)) in
     next (WithRequestID r i) (set_header RequestIDHeader i rp) s1)"

section \<open>Client addresses\<close>

definition before_last :: "char \<Rightarrow> string \<Rightarrow> string option" where
  "before_last c s = (if c \<in> set s then Some (rev (tl (dropWhile (\<lambda>x. x \<noteq> c) (rev s)))) else None)"

text \<open>\<open>net.SplitHostPort\<close>: host and port, or \<open>None\<close> where it reports an error.\<close>

definition split_host_port :: "string \<Rightarrow> (string \<times> string) option" where
  "split_host_port s =
    (case before_last (CHR '':'') s of
       None \<Rightarrow> None
     | Some left \<Rightarrow>
        (if s \<noteq> [] \<and> hd s = CHR ''['' then
           (case cut (CHR '']'') (tl s) of (host, rest, found) \<Rightarrow>
             if \<not> found then None
             else if length left \<noteq> Suc (Suc (length host)) then None
             else if CHR ''['' \<in> set (tl s) \<or> CHR '']'' \<in> set rest then None
             else Some (host, drop (Suc (length left)) s))
         else if CHR '':'' \<in> set left then None
         else if CHR ''['' \<in> set s \<or> CHR '']'' \<in> set s then None
         else Some (left, drop (Suc (length left)) s)))"

definition ClientIP :: "http_request \<Rightarrow> bool \<Rightarrow> string" where
  "ClientIP r trustProxy =
    (let remote = (case split_host_port (hr_remote r) of None \<Rightarrow> hr_remote r | Some (h, p) \<Rightarrow> h);
         xff = hr_header r ''X-Forwarded-For'';
         first = trim_space (fst (cut (CHR '','') xff));
         xrip = trim_space (hr_header r ''X-Real-Ip'') in
     if trustProxy then
       (if xff \<noteq> [] \<and> first \<noteq> [] then first else if xrip \<noteq> [] then xrip else remote)
     else remote)"

section \<open>Access log\<close>

text \<open>The attributes bound to the logger of a request.\<close>

definition request_attrs :: "http_request \<Rightarrow> slog_attr list" where
  "request_attrs r = [Attr ''request_id'' (RequestID r), Attr ''method'' (hr_method r), Attr ''path'' (hr_path r)]"

text \<open>The line \<open>Logger\<close> writes; byte count and duration are left out. An endpoint that never wrote a
  status counts as 200.\<close>

definition access_line :: "ext \<Rightarrow> http_request \<Rightarrow> reply \<Rightarrow> log_line" where
  "access_line x r rp =
    (let st = (case rp_status rp of None \<Rightarrow> 200 | Some c \<Rightarrow> c) in
     \<lparr>ll_level = (if st \<ge> 500 then LevelError else if st \<ge> 400 then LevelWarn else LevelInfo),
      ll_message = ''request completed'',
      ll_attrs = request_attrs r @ [Attr ''status'' (itoa st), Attr ''client_ip'' (ClientIP r False), Attr ''query'' (hr_raw_query r)]
        @ (case Actor_of r of (a, ok) \<Rightarrow> if ok then [Attr ''user_id'' (uuid_string x (actor_id a))] else [])\<rparr>)"

definition Logger_mw :: "ext \<Rightarrow> 's endpoint \<Rightarrow> 's endpoint" where
  "Logger_mw x next r rp s =
    (case next (WithLogger r (request_attrs r)) rp s of
       (Some p, rp1, s1) \<Rightarrow> (Some p, rp1, s1)
     | (None, rp1, s1) \<Rightarrow> (None, rp1\<lparr>rp_log := rp_log rp1 @ [access_line x r rp1]\<rparr>, s1))"

section \<open>Panics\<close>

definition errFromPanic :: "panic_value \<Rightarrow> gerr" where
  "errFromPanic p = (case p of PanicError e \<Rightarrow> Wrapf ''panic'' [e] | PanicOther m \<Rightarrow> LibError (''panic: '' @ m))"

fun panic_text :: "panic_value \<Rightarrow> string" where
  "panic_text (PanicError e) = error_text e" | "panic_text (PanicOther m) = m"

definition abort_panic :: "panic_value \<Rightarrow> bool" where
  "abort_panic p = (case p of PanicError e \<Rightarrow> contains_sub ''http: abort Handler'' (error_text e) | PanicOther m \<Rightarrow> False)"

definition Recoverer :: "string \<Rightarrow> 's endpoint \<Rightarrow> 's endpoint" where
  "Recoverer stack next r rp s =
    (case next r rp s of
       (None, rp1, s1) \<Rightarrow> (None, rp1, s1)
     | (Some p, rp1, s1) \<Rightarrow>
        if abort_panic p then (Some p, rp1, s1)
        else (None, WriteError r (Some (Internal (errFromPanic p)))
               (log_to r LevelError ''recovered from panic in handler'' [Attr ''panic'' (panic_text p), Attr ''stack'' stack] rp1), s1))"

section \<open>Limits and headers\<close>

definition BodyLimit :: "int \<Rightarrow> 's endpoint \<Rightarrow> 's endpoint" where
  "BodyLimit maxBytes next r = next (r\<lparr>hr_limit := Some maxBytes\<rparr>)"

text \<open>\<open>context.WithTimeout\<close> keeps an earlier deadline.\<close>

definition Timeout_mw :: "('s \<Rightarrow> time) \<Rightarrow> duration \<Rightarrow> 's endpoint \<Rightarrow> 's endpoint" where
  "Timeout_mw now d next r rp s =
    (let t = now s + d in
     next (r\<lparr>hr_deadline := Some (case hr_deadline r of None \<Rightarrow> t | Some t0 \<Rightarrow> min t0 t)\<rparr>) rp s)"

definition SecurityHeaders :: "'s endpoint \<Rightarrow> 's endpoint" where
  "SecurityHeaders next r rp =
    (let rp1 = set_header ''Referrer-Policy'' ''no-referrer'' (set_header ''X-Frame-Options'' ''DENY''
           (set_header ''X-Content-Type-Options'' ''nosniff'' rp)) in
     next r (if hr_header r ''Authorization'' \<noteq> [] then set_header ''Cache-Control'' ''no-store'' rp1 else rp1))"

section \<open>Cross-origin requests\<close>

record cors_config =
  AllowedOrigins :: "string list"
  AllowCredentials :: bool
  MaxAge :: duration

definition DefaultCORSMaxAge :: duration where "DefaultCORSMaxAge = 600 * second"

definition corsAllowedMethods :: string where "corsAllowedMethods = ''GET, POST, PATCH, DELETE, OPTIONS''"
definition corsAllowedHeaders :: string where "corsAllowedHeaders = ''Authorization, Content-Type, '' @ RequestIDHeader"
definition corsExposedHeaders :: string where "corsExposedHeaders = RequestIDHeader @ '', Retry-After, Location''"

definition add_header :: "string \<Rightarrow> string \<Rightarrow> reply \<Rightarrow> reply" where
  "add_header k v rp = rp\<lparr>rp_headers := rp_headers rp @ [(k, v)]\<rparr>"

definition allow_all :: "cors_config \<Rightarrow> bool" where
  "allow_all cfg \<longleftrightarrow> AllowedOrigins cfg = [''*'']"

definition cors_headers :: "cors_config \<Rightarrow> string \<Rightarrow> reply \<Rightarrow> reply" where
  "cors_headers cfg origin rp =
    (let rp1 = (if allow_all cfg \<and> \<not> AllowCredentials cfg
           then set_header ''Access-Control-Allow-Origin'' ''*'' rp
           else add_header ''Vary'' ''Origin'' (set_header ''Access-Control-Allow-Origin'' origin rp));
         rp2 = (if AllowCredentials cfg then set_header ''Access-Control-Allow-Credentials'' ''true'' rp1 else rp1) in
     set_header ''Access-Control-Expose-Headers'' corsExposedHeaders rp2)"

definition CORS :: "cors_config \<Rightarrow> 's endpoint \<Rightarrow> 's endpoint" where
  "CORS cfg next r rp s =
    (let maxAge = (if MaxAge cfg \<le> 0 then DefaultCORSMaxAge else MaxAge cfg);
         origin = hr_header r ''Origin'' in
     if origin = [] then next r rp s
     else if origin \<notin> set (AllowedOrigins cfg) \<and> \<not> allow_all cfg
     then (if hr_method r = ''OPTIONS'' then (None, write_header 204 rp, s) else next r rp s)
     else if hr_method r = ''OPTIONS'' \<and> hr_header r ''Access-Control-Request-Method'' \<noteq> []
     then (None, write_header 204
            (add_header ''Vary'' ''Access-Control-Request-Headers''
             (add_header ''Vary'' ''Access-Control-Request-Method''
              (set_header ''Access-Control-Max-Age'' (itoa (maxAge div second))
               (set_header ''Access-Control-Allow-Headers'' corsAllowedHeaders
                (set_header ''Access-Control-Allow-Methods'' corsAllowedMethods (cors_headers cfg origin rp)))))), s)
     else next r (cors_headers cfg origin rp) s)"

end
