(* ===== verification/Access.thy ===== *)
theory Access
  imports Middleware
begin

text \<open>
  \<open>internal/middleware/auth.go\<close>: bearer tokens, the \<open>Require\<close> and \<open>Optional\<close> authenticators and
  \<open>RequireAdmin\<close>. The token parser is an argument. Lemmas: what reaches the wrapped endpoint.
\<close>

definition bearerToken :: "http_request \<Rightarrow> gerr + string" where
  "bearerToken r =
    (let header = hr_header r ''Authorization'' in
     if header = [] then Inl (Unauthorized ''authorization header is required'')
     else (case cut (CHR '' '') header of (scheme, token, found) \<Rightarrow>
       if \<not> found \<or> map (\<lambda>c. char_of (lower_rune id (byte c))) scheme \<noteq> ''bearer'' \<or> trim_space token = []
       then Inl (Unauthorized ''authorization header must be of the form: Bearer <token>'')
       else Inr (trim_space token)))"

type_synonym 's token_parser = "string \<Rightarrow> 's \<Rightarrow> gerr + actor"

definition challenge :: string where "challenge = ''Bearer realm='' @ [CHR 0x22] @ ''api'' @ [CHR 0x22]"

definition invalid_challenge :: string where
  "invalid_challenge = challenge @ '', error='' @ [CHR 0x22] @ ''invalid_token'' @ [CHR 0x22]"

definition Require :: "'s token_parser \<Rightarrow> 's endpoint \<Rightarrow> 's endpoint" where
  "Require parse next r rp s =
    (case bearerToken r of
       Inl e \<Rightarrow> answer e r (set_header ''WWW-Authenticate'' challenge rp) s
     | Inr raw \<Rightarrow>
        (case parse raw s of
           Inl e \<Rightarrow> answer e r (set_header ''WWW-Authenticate'' invalid_challenge rp) s
         | Inr a \<Rightarrow> next (WithActor r a) rp s))"

definition Optional :: "'s token_parser \<Rightarrow> 's endpoint \<Rightarrow> 's endpoint" where
  "Optional parse next r rp s =
    (if trim_space (hr_header r ''Authorization'') = [] then next r rp s
     else Require parse next r rp s)"

definition RequireAdmin :: "'s endpoint \<Rightarrow> 's endpoint" where
  "RequireAdmin next r rp s =
    (case Actor_of r of (a, ok) \<Rightarrow>
       if \<not> ok then answer (Unauthorized ''authentication required'') r rp s
       else if \<not> IsAdmin a then answer (Forbidden ''this endpoint requires the admin role'') r rp s
       else next r rp s)"

lemma Require_cases:
  obtains (refused) e k where "Require parse next r rp s = answer e r (set_header ''WWW-Authenticate'' k rp) s"
      "\<forall>raw. bearerToken r = Inr raw \<longrightarrow> parse raw s = Inl e" "\<forall>e'. bearerToken r = Inl e' \<longrightarrow> e' = e"
  | (admitted) raw a where "bearerToken r = Inr raw" "parse raw s = Inr a"
      "Require parse next r rp s = next (WithActor r a) rp s"
proof (cases "bearerToken r")
  case (Inl e)
  then show ?thesis by (intro refused [of e]) (auto simp: Require_def)
next
  case (Inr raw)
  then show ?thesis
    by (cases "parse raw s") (auto simp: Require_def intro: refused admitted)
qed

end
