(* ===== verification/Rate_Limit.thy ===== *)
theory Rate_Limit
  imports Complex_Main Middleware
begin

text \<open>
  \<open>internal/middleware/ratelimit.go\<close>: one token bucket per caller, refilled lazily, and the eviction
  of idle buckets. Times and durations are integral nanoseconds as in the code; the \<open>float64\<close> token
  arithmetic is modelled over the rationals, without rounding. Lemmas: how many requests a caller
  gets through in a window, that waiting as told is enough, and that eviction cannot be observed when
  an idle bucket has had time to fill up.
\<close>

record bucket =
  bk_tokens :: rat
  bk_seen :: time

record limiter =
  lm_buckets :: "string \<Rightarrow> bucket option"
  lm_rate :: rat
  lm_burst :: rat
  lm_idle :: duration

definition NewRateLimiter :: "rat \<Rightarrow> int \<Rightarrow> limiter" where
  "NewRateLimiter r b = \<lparr>lm_buckets = (\<lambda>k. None), lm_rate = r, lm_burst = of_int b, lm_idle = 600 * second\<rparr>"

definition WithIdleTTL :: "duration \<Rightarrow> limiter \<Rightarrow> limiter" where
  "WithIdleTTL d l = l\<lparr>lm_idle := d\<rparr>"

definition seconds :: "duration \<Rightarrow> rat" where
  "seconds d = of_int d / of_int second"

definition refilled :: "limiter \<Rightarrow> bucket \<Rightarrow> time \<Rightarrow> rat" where
  "refilled l b now =
    (let elapsed = seconds (now - bk_seen b) in
     if 0 < elapsed then min (lm_burst l) (bk_tokens b + elapsed * lm_rate l) else bk_tokens b)"

text \<open>Whether the request may proceed, else how long to wait; and the limiter afterwards.\<close>

definition Allow :: "time \<Rightarrow> string \<Rightarrow> limiter \<Rightarrow> (bool \<times> duration) \<times> limiter" where
  "Allow now key l =
    (case lm_buckets l key of
       None \<Rightarrow> ((True, 0), l\<lparr>lm_buckets := (lm_buckets l)(key \<mapsto> \<lparr>bk_tokens = lm_burst l - 1, bk_seen = now\<rparr>)\<rparr>)
     | Some b \<Rightarrow>
        (let t = refilled l b now in
         if t < 1
         then ((False, \<lfloor>(1 - t) / lm_rate l * of_int second\<rfloor>),
               l\<lparr>lm_buckets := (lm_buckets l)(key \<mapsto> \<lparr>bk_tokens = t, bk_seen = now\<rparr>)\<rparr>)
         else ((True, 0), l\<lparr>lm_buckets := (lm_buckets l)(key \<mapsto> \<lparr>bk_tokens = t - 1, bk_seen = now\<rparr>)\<rparr>)))"

definition Len :: "limiter \<Rightarrow> nat" where
  "Len l = card (dom (lm_buckets l))"

definition evictIdle :: "time \<Rightarrow> limiter \<Rightarrow> limiter" where
  "evictIdle now l = l\<lparr>lm_buckets := (\<lambda>k. case lm_buckets l k of None \<Rightarrow> None
     | Some b \<Rightarrow> if bk_seen b < now - lm_idle l then None else Some b)\<rparr>"

definition retry_seconds :: "duration \<Rightarrow> int" where
  "retry_seconds d = max 1 \<lceil>seconds d\<rceil>"

definition limiter_key :: "ext \<Rightarrow> bool \<Rightarrow> http_request \<Rightarrow> string" where
  "limiter_key x trustProxy r =
    (case Actor_of r of (a, ok) \<Rightarrow>
       if ok then ''user:'' @ uuid_string x (actor_id a) else ''ip:'' @ ClientIP r trustProxy)"

text \<open>\<open>get\<close> and \<open>put\<close> locate the limiter in the state, \<open>now\<close> is its clock.\<close>

definition Limit_mw :: "ext \<Rightarrow> ('s \<Rightarrow> time) \<Rightarrow> ('s \<Rightarrow> limiter) \<Rightarrow> (limiter \<Rightarrow> 's \<Rightarrow> 's) \<Rightarrow> bool
    \<Rightarrow> 's endpoint \<Rightarrow> 's endpoint" where
  "Limit_mw x now get put trustProxy next r rp s =
    (case Allow (now s) (limiter_key x trustProxy r) (get s) of
       ((allowed, retryAfter), l) \<Rightarrow>
         if \<not> allowed
         then answer (RateLimited ''too many requests; please retry later'') r
                (set_header ''Retry-After'' (itoa (retry_seconds retryAfter)) rp) (put l s)
         else next r rp (put l s))"

section \<open>A caller's budget\<close>

text \<open>What a caller can still spend at a time: the tokens of its bucket, or a full bucket.\<close>

definition budget :: "limiter \<Rightarrow> string \<Rightarrow> time \<Rightarrow> rat" where
  "budget l k now = (case lm_buckets l k of None \<Rightarrow> lm_burst l | Some b \<Rightarrow> refilled l b now)"

definition limiter_wf :: "limiter \<Rightarrow> time \<Rightarrow> bool" where
  "limiter_wf l now \<longleftrightarrow> 0 < lm_rate l \<and> 1 \<le> lm_burst l
     \<and> (\<forall>k b. lm_buckets l k = Some b \<longrightarrow> bk_seen b \<le> now \<and> 0 \<le> bk_tokens b \<and> bk_tokens b \<le> lm_burst l)"

lemma seconds_simps [simp]:
  "seconds 0 = 0" "seconds (a + b) = seconds a + seconds b" "seconds (a - b) = seconds a - seconds b"
  "0 < seconds a \<longleftrightarrow> 0 < a" "0 \<le> seconds a \<longleftrightarrow> 0 \<le> a" "seconds a \<le> seconds b \<longleftrightarrow> a \<le> b" "seconds a < seconds b \<longleftrightarrow> a < b"
  by (simp_all add: seconds_def second_def add_divide_distrib diff_divide_distrib)

text \<open>The lazy refill in closed form, for a bucket last seen not later than now.\<close>

lemma refilled_eq:
  assumes "limiter_wf l now" "lm_buckets l k = Some b" "now \<le> t"
  shows "refilled l b t = min (lm_burst l) (bk_tokens b + seconds (t - bk_seen b) * lm_rate l)"
proof -
  have b: "bk_seen b \<le> t" "bk_tokens b \<le> lm_burst l" using assms by (force simp: limiter_wf_def)+
  show ?thesis
  proof (cases "bk_seen b = t")
    case True
    with b show ?thesis by (simp add: refilled_def)
  qed (use b in \<open>simp add: refilled_def\<close>)
qed

lemma budget_range:
  assumes "limiter_wf l now" "now \<le> t"
  shows "0 \<le> budget l k t" "budget l k t \<le> lm_burst l"
proof -
  have "0 \<le> (seconds t - seconds (bk_seen b)) * lm_rate l" if "lm_buckets l k = Some b" for b
  proof -
    from assms(1) that have "bk_seen b \<le> now" "0 < lm_rate l" by (auto simp: limiter_wf_def)
    with assms(2) show ?thesis by (intro mult_nonneg_nonneg) simp_all
  qed
  with assms refilled_eq [OF assms(1) _ assms(2)] show "0 \<le> budget l k t" "budget l k t \<le> lm_burst l"
    by (auto simp: budget_def limiter_wf_def split: option.splits)
qed

lemma budget_grows:
  assumes "limiter_wf l now" "now \<le> t" "t \<le> u"
  shows "budget l k u = min (lm_burst l) (budget l k t + seconds (u - t) * lm_rate l)"
proof (cases "lm_buckets l k")
  case None
  have "0 \<le> (seconds u - seconds t) * lm_rate l"
    using assms by (intro mult_nonneg_nonneg) (simp_all add: limiter_wf_def)
  with None show ?thesis by (simp add: budget_def)
next
  case (Some b)
  have n: "0 \<le> (seconds u - seconds t) * lm_rate l"
    using assms by (intro mult_nonneg_nonneg) (simp_all add: limiter_wf_def)
  have "now \<le> u" using assms by simp
  with n refilled_eq [OF assms(1) Some assms(2)] refilled_eq [OF assms(1) Some this] show ?thesis
    by (auto simp: budget_def Some min_def algebra_simps)
qed

text \<open>One call: it is granted exactly when a whole token is there, which it then spends; other callers
  are not affected.\<close>

lemma Allow_spends:
  assumes "limiter_wf l t" "t \<le> now" and "Allow now k l = ((ok, d), l')"
  shows "limiter_wf l' now" and "ok \<longleftrightarrow> 1 \<le> budget l k now"
    and "budget l' k now = budget l k now - (if ok then 1 else 0)"
    and "j \<noteq> k \<Longrightarrow> lm_buckets l' j = lm_buckets l j"
    and "lm_rate l' = lm_rate l" "lm_burst l' = lm_burst l" "lm_idle l' = lm_idle l"
    and "\<not> ok \<Longrightarrow> d = \<lfloor>(1 - budget l k now) / lm_rate l * of_int second\<rfloor>"
proof -
  note r = budget_range [OF assms(1,2), of k]
  have wf: "0 < lm_rate l" "1 \<le> lm_burst l"
      "\<And>k b. lm_buckets l k = Some b \<Longrightarrow> bk_seen b \<le> now \<and> 0 \<le> bk_tokens b \<and> bk_tokens b \<le> lm_burst l"
    using assms(1,2) by (force simp: limiter_wf_def)+
  show "limiter_wf l' now" using assms(3) r wf
    by (auto simp: Allow_def limiter_wf_def budget_def Let_def split: option.splits if_splits)
  show "ok \<longleftrightarrow> 1 \<le> budget l k now" "j \<noteq> k \<Longrightarrow> lm_buckets l' j = lm_buckets l j"
      "lm_rate l' = lm_rate l" "lm_burst l' = lm_burst l" "lm_idle l' = lm_idle l"
      "\<not> ok \<Longrightarrow> d = \<lfloor>(1 - budget l k now) / lm_rate l * of_int second\<rfloor>"
    using assms(3) wf(2) by (auto simp: Allow_def budget_def Let_def split: option.splits if_splits)
  show "budget l' k now = budget l k now - (if ok then 1 else 0)"
    using assms(3) wf(2) by (auto simp: Allow_def budget_def refilled_def Let_def split: option.splits if_splits)
qed

section \<open>Sequences of requests and evictions\<close>

datatype limiter_event = Request time string | Evict time

fun event_time :: "limiter_event \<Rightarrow> time" where
  "event_time (Request t k) = t" | "event_time (Evict t) = t"

fun in_order :: "time \<Rightarrow> limiter_event list \<Rightarrow> bool" where
  "in_order t [] = True" | "in_order t (e # es) = (t \<le> event_time e \<and> in_order (event_time e) es)"

text \<open>The answers the requests get, and how many requests of one caller are granted.\<close>

fun decisions :: "limiter_event list \<Rightarrow> limiter \<Rightarrow> (bool \<times> duration) list" where
  "decisions [] l = []"
| "decisions (Request t k # es) l = (case Allow t k l of (d, l') \<Rightarrow> d # decisions es l')"
| "decisions (Evict t # es) l = decisions es (evictIdle t l)"

fun granted :: "string \<Rightarrow> limiter_event list \<Rightarrow> limiter \<Rightarrow> nat" where
  "granted k [] l = 0"
| "granted k (Request t j # es) l =
    (case Allow t j l of ((ok, d), l') \<Rightarrow> (if ok \<and> j = k then 1 else 0) + granted k es l')"
| "granted k (Evict t # es) l = granted k es (evictIdle t l)"

text \<open>Long enough for an empty bucket to fill up.\<close>

definition idle_refills :: "limiter \<Rightarrow> bool" where
  "idle_refills l \<longleftrightarrow> 0 \<le> lm_idle l \<and> lm_burst l \<le> lm_rate l * seconds (lm_idle l)"

lemma evict_config [simp]:
  "lm_rate (evictIdle t l) = lm_rate l" "lm_burst (evictIdle t l) = lm_burst l" "lm_idle (evictIdle t l) = lm_idle l"
  by (simp_all add: evictIdle_def)

lemma evict_wf: "limiter_wf l now \<Longrightarrow> now \<le> t \<Longrightarrow> limiter_wf (evictIdle t l) t"
  by (auto simp: limiter_wf_def evictIdle_def split: option.splits if_splits; force)

lemma evicted_was_full:
  assumes "limiter_wf l now" "now \<le> t" "idle_refills l" "lm_buckets l k = Some b" "bk_seen b < t - lm_idle l" "t \<le> u"
  shows "refilled l b u = lm_burst l"
proof -
  have b: "0 \<le> bk_tokens b" "0 < lm_rate l" using assms(1,4) by (auto simp: limiter_wf_def)
  have "seconds (lm_idle l) \<le> seconds (u - bk_seen b)" using assms(5,6) by (simp del: seconds_simps(3))
  then have "lm_rate l * seconds (lm_idle l) \<le> lm_rate l * seconds (u - bk_seen b)"
    using b(2) by (intro mult_left_mono) simp_all
  then have "lm_burst l \<le> bk_tokens b + seconds (u - bk_seen b) * lm_rate l"
    using assms(3) b(1) mult.commute [of "lm_rate l" "seconds (u - bk_seen b)"]
    unfolding idle_refills_def by linarith
  moreover have "now \<le> u" using assms(2,6) by simp
  ultimately show ?thesis using refilled_eq [OF assms(1,4)] by simp
qed

lemma evict_budget:
  assumes "limiter_wf l now" "now \<le> t" "idle_refills l" "t \<le> u"
  shows "budget (evictIdle t l) k u = budget l k u"
proof (cases "lm_buckets l k")
  case (Some b)
  have "refilled (evictIdle t l) b u = refilled l b u" by (simp add: refilled_def)
  with Some evicted_was_full [OF assms(1-3) Some _ assms(4)] show ?thesis
    by (cases "bk_seen b < t - lm_idle l") (simp_all add: budget_def evictIdle_def)
qed (simp add: budget_def evictIdle_def)

lemma granted_within_budget:
  "limiter_wf l t0 \<Longrightarrow> idle_refills l \<Longrightarrow> in_order t0 es \<Longrightarrow> \<forall>e \<in> set es. event_time e \<le> t1 \<Longrightarrow> t0 \<le> t1
   \<Longrightarrow> of_nat (granted k es l) \<le> budget l k t0 + seconds (t1 - t0) * lm_rate l"
proof (induction k es l arbitrary: t0 rule: granted.induct)
  case (1 k l)
  have "0 \<le> seconds (t1 - t0) * lm_rate l"
    using 1 by (intro mult_nonneg_nonneg) (simp_all add: limiter_wf_def)
  with budget_range(1) [OF 1(1) order.refl, of k] show ?case by simp
next
  case (2 k t j es l)
  obtain ok d l' where a: "Allow t j l = ((ok, d), l')" by (metis prod.exhaust)
  have t: "t0 \<le> t" "t \<le> t1" using 2(4,5) by simp_all
  note s = Allow_spends [OF 2(2) t(1) a]
  have "of_nat (granted k es l') \<le> budget l' k t + seconds (t1 - t) * lm_rate l'"
    by (rule 2(1) [OF a [symmetric] refl s(1)]) (use 2(3-5) s t in \<open>simp_all add: idle_refills_def\<close>)
  moreover have "budget l' k t + (if ok \<and> j = k then 1 else 0) = budget l k t"
  proof (cases "j = k")
    case True
    with s(3) show ?thesis by simp
  next
    case False
    with s(4) [of k] s(5,6) show ?thesis by (auto simp: budget_def refilled_def split: option.splits)
  qed
  moreover have "budget l k t \<le> budget l k t0 + seconds (t - t0) * lm_rate l"
    using budget_grows [OF 2(2) order.refl t(1), of k] by simp
  ultimately show ?case by (auto simp: a s(5) algebra_simps)
next
  case (3 k t es l)
  have t: "t0 \<le> t" "t \<le> t1" using 3(4,5) by simp_all
  have "of_nat (granted k es (evictIdle t l)) \<le> budget (evictIdle t l) k t + seconds (t1 - t) * lm_rate l"
    using 3(1) [OF evict_wf [OF 3(2) t(1)]] 3(3-5) t by (simp add: idle_refills_def)
  moreover have "budget l k t \<le> budget l k t0 + seconds (t - t0) * lm_rate l"
    using budget_grows [OF 3(2) order.refl t(1), of k] by simp
  ultimately show ?case using evict_budget [OF 3(2) t(1) 3(3), of t k] by (simp add: algebra_simps)
qed

section \<open>Eviction is not observable\<close>

text \<open>The limiter that evicts beside one that never does: equal buckets, or a missing one for a full one.\<close>

definition same_budget :: "limiter \<Rightarrow> limiter \<Rightarrow> time \<Rightarrow> bool" where
  "same_budget l m now \<longleftrightarrow> lm_rate m = lm_rate l \<and> lm_burst m = lm_burst l \<and> lm_idle m = lm_idle l
     \<and> (\<forall>k u. now \<le> u \<longrightarrow> budget l k u = budget m k u)"

fun no_evictions :: "limiter_event list \<Rightarrow> limiter_event list" where
  "no_evictions [] = []"
| "no_evictions (Request t k # es) = Request t k # no_evictions es"
| "no_evictions (Evict t # es) = no_evictions es"

lemma in_order_weaken: "t \<le> u \<Longrightarrow> in_order u es \<Longrightarrow> in_order t es"
  by (cases es) auto

lemma in_order_no_evictions: "in_order t es \<Longrightarrow> in_order t (no_evictions es)"
  by (induction es arbitrary: t rule: no_evictions.induct) (auto intro: in_order_weaken)

lemma limiter_wf_later: "limiter_wf l now \<Longrightarrow> now \<le> t \<Longrightarrow> limiter_wf l t"
  by (force simp: limiter_wf_def)

lemma Allow_same_budget:
  assumes "limiter_wf l t0" "limiter_wf m t0" "same_budget l m t0" "t0 \<le> t"
    and a: "Allow t k l = (r1, l')" and b: "Allow t k m = (r2, m')"
  shows "r1 = r2" and "same_budget l' m' t"
proof -
  obtain ok1 d1 ok2 d2 where r: "r1 = (ok1, d1)" "r2 = (ok2, d2)" by fastforce
  note s = Allow_spends [OF assms(1,4) a [unfolded r]] and s' = Allow_spends [OF assms(2,4) b [unfolded r]]
  have eq: "budget l k t = budget m k t" "lm_rate m = lm_rate l" "lm_burst m = lm_burst l" "lm_idle m = lm_idle l"
    using assms(3,4) by (simp_all add: same_budget_def)
  have ok: "ok1 = ok2" using s(2) s'(2) eq(1) by simp
  have "ok1 \<Longrightarrow> d1 = 0" "ok2 \<Longrightarrow> d2 = 0"
    using a b r by (auto simp: Allow_def Let_def split: option.splits if_splits)
  with ok s(8) s'(8) eq show "r1 = r2" by (cases ok1) (simp_all add: r)
  have "budget l' j u = budget m' j u" if "t \<le> u" for j u
  proof (cases "j = k")
    case True
    have "budget l' k t = budget m' k t" using s(3) s'(3) eq(1) ok by simp
    with True budget_grows [OF s(1) order.refl that] budget_grows [OF s'(1) order.refl that] s s' eq
    show ?thesis by simp
  next
    case False
    then have "budget l' j u = budget l j u" "budget m' j u = budget m j u"
      using s(4) [of j] s(5,6) s'(4) [of j] s'(5,6) by (auto simp: budget_def refilled_def split: option.splits)
    with assms(3,4) that show ?thesis by (simp add: same_budget_def)
  qed
  with s s' eq show "same_budget l' m' t" by (simp add: same_budget_def)
qed

lemma decisions_same:
  "limiter_wf l t0 \<Longrightarrow> limiter_wf m t0 \<Longrightarrow> same_budget l m t0 \<Longrightarrow> idle_refills l \<Longrightarrow> in_order t0 es
   \<Longrightarrow> decisions es l = decisions (no_evictions es) m"
proof (induction es l arbitrary: t0 m rule: decisions.induct)
  case (2 t k es l)
  obtain r1 l' r2 m' where a: "Allow t k l = (r1, l')" and b: "Allow t k m = (r2, m')" by (metis prod.exhaust)
  obtain ok1 d1 ok2 d2 where r: "r1 = (ok1, d1)" "r2 = (ok2, d2)" by fastforce
  have t: "t0 \<le> t" "in_order t es" using 2(6) by simp_all
  note same = Allow_same_budget [OF 2(2-4) t(1) a b]
  note s = Allow_spends [OF 2(2) t(1) a [unfolded r]] and s' = Allow_spends [OF 2(3) t(1) b [unfolded r]]
  have "decisions es l' = decisions (no_evictions es) m'"
    by (rule 2(1) [OF a [symmetric] s(1) s'(1) same(2)]) (use 2(5) s t in \<open>simp_all add: idle_refills_def\<close>)
  with same(1) show ?case by (simp add: a b)
next
  case (3 t es l)
  have t: "t0 \<le> t" "in_order t es" using 3(6) by simp_all
  have "same_budget (evictIdle t l) m t"
    using 3(4) t(1) evict_budget [OF 3(2) t(1) 3(5)] by (simp add: same_budget_def)
  with 3(1) [OF evict_wf [OF 3(2) t(1)] limiter_wf_later [OF 3(3) t(1)]] 3(5) t(2) show ?case
    by (simp add: idle_refills_def)
qed simp

section \<open>Properties\<close>

text \<open>However the requests of all callers interleave with evictions, one caller gets at most a full
  bucket plus the refill of the window through in any window, if an idle bucket is kept long enough
  to fill up.\<close>

theorem callers_are_rate_limited:
  assumes "limiter_wf l t0" "idle_refills l" "in_order t0 es" "\<forall>e \<in> set es. event_time e \<le> t1" "t0 \<le> t1"
  shows "of_nat (granted k es l) \<le> lm_burst l + lm_rate l * seconds (t1 - t0)"
  using granted_within_budget [OF assms, of k] budget_range(2) [OF assms(1) order.refl, of k]
  by (simp add: mult.commute)


text \<open>C36: evicting idle buckets changes no answer any request ever gets, so the janitor is purely a
  memory optimisation, when a bucket is kept at least as long as it takes to fill up.\<close>

theorem eviction_is_unobservable:
  assumes "limiter_wf l t0" "idle_refills l" "in_order t0 es"
  shows "decisions es l = decisions (no_evictions es) l"
  by (rule decisions_same [OF assms(1,1) _ assms(2,3)]) (simp add: same_budget_def)

section \<open>Witnesses\<close>

definition one_per_second :: limiter where
  "one_per_second = NewRateLimiter 1 1"

definition busy_minute :: "limiter_event list" where
  "busy_minute = [Request 0 ''ip:a'', Request 0 ''ip:a'', Request 0 ''ip:b'', Evict (700 * second), Request (700 * second) ''ip:a'']"

lemma one_per_second_wf: "limiter_wf one_per_second 0" "idle_refills one_per_second"
  by (simp_all add: limiter_wf_def idle_refills_def one_per_second_def NewRateLimiter_def seconds_def second_def)

lemma busy_minute_order: "in_order 0 busy_minute"
  by (simp add: busy_minute_def second_def)

lemma busy_granted: "granted ''ip:a'' busy_minute one_per_second = 2"
  by (simp add: busy_minute_def one_per_second_def NewRateLimiter_def Allow_def refilled_def seconds_def second_def
      evictIdle_def Let_def)

theorem callers_are_rate_limited_witness:
  "granted ''ip:a'' busy_minute one_per_second = 2
    \<and> of_nat 2 \<le> lm_burst one_per_second + lm_rate one_per_second * seconds (700 * second - 0)"
proof -
  have "\<forall>e \<in> set busy_minute. event_time e \<le> 700 * second" by (simp add: busy_minute_def second_def)
  from callers_are_rate_limited [OF one_per_second_wf busy_minute_order this, of "''ip:a''"] busy_granted
  show ?thesis by (simp add: second_def)
qed


theorem eviction_is_unobservable_witness:
  "decisions busy_minute one_per_second = decisions (no_evictions busy_minute) one_per_second
    \<and> length (no_evictions busy_minute) = 4"
  using eviction_is_unobservable [OF one_per_second_wf busy_minute_order] by (simp add: busy_minute_def)

end
