(* ===== verification/Health.thy ===== *)
theory Health
  imports Handlers
begin

text \<open>
  \<open>internal/health\<close>: the liveness and readiness probes. A ping is one round trip with an empty
  statement; \<open>now\<close> is read before and after it, and time does not pass inside the model, so the
  latency is the difference the caller supplies.
\<close>

record health_handler =
  he_version :: string
  he_started :: time

definition health_NewHandler :: "string \<Rightarrow> world \<Rightarrow> health_handler" where
  "health_NewHandler version w = \<lparr>he_version = version, he_started = clock w\<rparr>"

definition probeTimeout :: duration where "probeTimeout = 2 * second"

definition ping :: "unit prog" where "ping = execute (\<lambda>t d. Inr ((), d))"

definition json_check :: "string \<Rightarrow> int \<Rightarrow> string \<Rightarrow> json" where
  "json_check st latency_ms err = JObj ((''status'', JStr st)
     # (if latency_ms = 0 then [] else [(''latency_ms'', JNum latency_ms)]) @ omit_empty ''error'' err)"

definition json_health :: "string \<Rightarrow> string \<Rightarrow> int \<Rightarrow> (string \<times> json) list \<Rightarrow> json" where
  "json_health st version uptime checks = JObj ([(''status'', JStr st), (''version'', JStr version),
     (''uptime_seconds'', JNum uptime)] @ (if checks = [] then [] else [(''checks'', JObj checks)]))"

definition uptime :: "health_handler \<Rightarrow> world \<Rightarrow> int" where
  "uptime h w = quot (clock w - he_started h) second"

definition health_live :: "health_handler \<Rightarrow> handler" where
  "health_live h r rp w = (WriteJSON r 200 (json_health ''ok'' (he_version h) (uptime h w) []) rp, w)"

definition health_ready :: "health_handler \<Rightarrow> handler" where
  "health_ready h r rp w =
    (case ping w of (res, w1) \<Rightarrow>
      (let latency = quot (clock w1 - clock w) 1000000 in
       case res of
         Inl e \<Rightarrow> (WriteJSON r 503 (json_health ''degraded'' (he_version h) (uptime h w1)
            [(''database'', json_check ''error'' latency (error_text e))]) rp, w1)
       | Inr _ \<Rightarrow> (WriteJSON r 200 (json_health ''ok'' (he_version h) (uptime h w1)
            [(''database'', json_check ''ok'' latency [])]) rp, w1)))"

text \<open>Liveness does not depend on the database; readiness does.\<close>

lemma health_answers:
  assumes "unanswered rp"
  shows "rp_status (fst (health_live h r rp w)) = Some 200"
    and "rp_status (fst (health_ready h r rp w)) = Some (case outcomes w of [] \<Rightarrow> 200 | Done # _ \<Rightarrow> 200 | _ \<Rightarrow> 503)"
    and "db (snd (health_ready h r rp w)) = db w"
  using assms
  by (simp_all add: health_live_def health_ready_def WriteJSON_answers json_health_def json_check_def omit_empty_def
      ping_def execute_def round_trip_def Let_def split: list.splits outcome.splits)

end
