(* ===== verification/Docs.thy ===== *)
theory Docs
  imports Middleware
begin

text \<open>
  \<open>internal/server/docs.go\<close> and \<open>api/embed.go\<close>: the two documentation routes. The OpenAPI document is a
  file embedded when the program is built, so its bytes are an argument; the page is the constant of
  the source.
\<close>

definition text_lines :: "string list \<Rightarrow> string" where
  "text_lines ls = concat (map (\<lambda>l. l @ [CHR 0x0A]) ls)"

definition swaggerUIPage :: string where
  "swaggerUIPage = text_lines
    [''<!doctype html>'',
     ''<html lang=\"en\">'',
     ''  <head>'',
     ''    <meta charset=\"utf-8\" />'',
     ''    <meta name=\"viewport\" content=\"width=device-width, initial-scale=1\" />'',
     ''    <title>Majoo Blog API '' @ [CHR 0xE2] @ [CHR 0x80] @ [CHR 0x94] @ '' reference</title>'',
     ''    <link rel=\"stylesheet\" href=\"https://cdn.jsdelivr.net/npm/swagger-ui-dist@5.17.14/swagger-ui.css\" />'',
     ''    <style>'',
     ''      body { margin: 0; background: #fafafa; }'',
     ''    </style>'',
     ''  </head>'',
     ''  <body>'',
     ''    <div id=\"swagger-ui\"></div>'',
     ''    <script src=\"https://cdn.jsdelivr.net/npm/swagger-ui-dist@5.17.14/swagger-ui-bundle.js\" crossorigin></script>'',
     ''    <script>'',
     ''      window.onload = function () {'',
     ''        window.ui = SwaggerUIBundle({'',
     ''          url: \"/openapi.yaml\",'',
     ''          dom_id: \"#swagger-ui\",'',
     ''          deepLinking: true,'',
     ''          displayRequestDuration: true,'',
     ''          tryItOutEnabled: true'',
     ''        });'',
     ''      };'',
     ''    </script>'',
     ''  </body>'',
     ''</html>'']"

definition openapi_endpoint :: "string \<Rightarrow> 's endpoint" where
  "openapi_endpoint spec = calm (\<lambda>r rp s. (write_raw spec
     (set_header ''Cache-Control'' ''no-cache'' (set_header ''Content-Type'' ''application/yaml; charset=utf-8'' rp)), s))"

definition docs_endpoint :: "'s endpoint" where
  "docs_endpoint = calm (\<lambda>r rp s. (write_raw swaggerUIPage (set_header ''Content-Type'' ''text/html; charset=utf-8'' rp), s))"

definition registerDocsRoutes :: "string \<Rightarrow> 's routes" where
  "registerDocsRoutes spec = [(''GET'', ''/openapi.yaml'', openapi_endpoint spec), (''GET'', ''/docs'', docs_endpoint)]"

end
