(* ===== verification/Comment_Handler.thy ===== *)
theory Comment_Handler
  imports Post_Handler Comment_Service
begin

text \<open>
  \<open>internal/comment/handler.go\<close> and \<open>dto.go\<close>: request structs with their tags, the comment
  projection and the five endpoints.
\<close>

section \<open>Request and response types\<close>

definition comment_create_layout :: layout where
  "comment_create_layout = [(''content'', TString), (''parent_id'', TUUIDPtr)]"

definition comment_create_tags :: "ext \<Rightarrow> decoded \<Rightarrow> tagged_field list" where
  "comment_create_tags x d =
    [str_field d ''Content'' ''content'' [Required, Min 1, Max 5000],
     \<lparr>tf_name = reported_name ''ParentID'' ''parent_id,omitempty'', tf_rules = [Omitempty], tf_pointer = True,
       tf_value = map_option (uuid_string x) (uuid_ptr d ''parent_id'')\<rparr>]"

definition comment_update_layout :: layout where
  "comment_update_layout = [(''content'', TString)]"

definition comment_update_tags :: "decoded \<Rightarrow> tagged_field list" where
  "comment_update_tags d = [str_field d ''Content'' ''content'' [Required, Min 1, Max 5000]]"

definition newCommentResponse :: "ext \<Rightarrow> cmt \<Rightarrow> json" where
  "newCommentResponse x c = JObj
    ([(''id'', JStr (uuid_string x (cmt_id c))), (''post_id'', JStr (uuid_string x (cmt_post c))),
      (''parent_id'', (case parent_id c of None \<Rightarrow> JNull | Some p \<Rightarrow> JStr (uuid_string x p))),
      (''content'', JStr (cmt_content c))]
     @ omit_nil ''author'' (map_option (json_author x) (cmt_author_summary c))
     @ [(''author_id'', JStr (uuid_string x (cmt_author c))),
        (''created_at'', JTime (cmt_created c)), (''updated_at'', JTime (cmt_updated c))])"

definition newCommentResponses :: "ext \<Rightarrow> cmt list \<Rightarrow> json" where
  "newCommentResponses x cs = JArr (map (newCommentResponse x) cs)"

section \<open>Endpoints\<close>

definition comment_create :: "ext \<Rightarrow> comment_store \<Rightarrow> post_reader \<Rightarrow> handler" where
  "comment_create x st read r rp w =
    (case Actor_of r of (a, ok) \<Rightarrow>
       if \<not> ok then fail authentication_required r rp w
       else (case param_uuid x r ''postID'' of
           Inl e \<Rightarrow> fail e r rp w
         | Inr i \<Rightarrow>
            (case decode_valid x r comment_create_layout (comment_create_tags x) of
               Inl e \<Rightarrow> fail e r rp w
             | Inr d \<Rightarrow>
                (case comment_svc_Create x st read a \<lparr>cc_post = i, cc_parent = uuid_ptr d ''parent_id'',
                      cc_content = str_of d ''content''\<rparr> w of
                   (Inl e, w1) \<Rightarrow> fail e r rp w1
                 | (Inr c, w1) \<Rightarrow>
                    (WriteData r 201 (newCommentResponse x c)
                       (set_header ''Location'' (''/api/v1/comments/'' @ uuid_string x (cmt_id c)) rp), w1)))))"

definition comment_get :: "ext \<Rightarrow> comment_store \<Rightarrow> post_reader \<Rightarrow> handler" where
  "comment_get x st read r rp w =
    (case param_uuid x r ''commentID'' of
       Inl e \<Rightarrow> fail e r rp w
     | Inr i \<Rightarrow>
        (case comment_svc_ByID st read (ActorPtr r) i w of
           (Inl e, w1) \<Rightarrow> fail e r rp w1
         | (Inr c, w1) \<Rightarrow> (WriteData r 200 (newCommentResponse x c) rp, w1)))"

definition comment_listByPost :: "ext \<Rightarrow> comment_store \<Rightarrow> post_reader \<Rightarrow> handler" where
  "comment_listByPost x st read r rp w =
    (case param_uuid x r ''postID'' of
       Inl e \<Rightarrow> fail e r rp w
     | Inr i \<Rightarrow>
        (case ParsePageRequest (hr_query r) of
           Inl e \<Rightarrow> fail e r rp w
         | Inr pg \<Rightarrow>
            (case comment_svc_ListByPost st read (ActorPtr r) i pg w of
               (Inl e, w1) \<Rightarrow> fail e r rp w1
             | (Inr (cs, n), w1) \<Rightarrow>
                (WriteList r (newCommentResponses x cs) (NewPagination pg n) rp, w1))))"

definition comment_update :: "ext \<Rightarrow> comment_store \<Rightarrow> handler" where
  "comment_update x st r rp w =
    (case Actor_of r of (a, ok) \<Rightarrow>
       if \<not> ok then fail authentication_required r rp w
       else (case param_uuid x r ''commentID'' of
           Inl e \<Rightarrow> fail e r rp w
         | Inr i \<Rightarrow>
            (case decode_valid x r comment_update_layout comment_update_tags of
               Inl e \<Rightarrow> fail e r rp w
             | Inr d \<Rightarrow>
                (case comment_svc_Update x st a i (str_of d ''content'') w of
                   (Inl e, w1) \<Rightarrow> fail e r rp w1
                 | (Inr c, w1) \<Rightarrow> (WriteData r 200 (newCommentResponse x c) rp, w1)))))"

definition comment_delete :: "ext \<Rightarrow> comment_store \<Rightarrow> handler" where
  "comment_delete x st r rp w =
    (case Actor_of r of (a, ok) \<Rightarrow>
       if \<not> ok then fail authentication_required r rp w
       else (case param_uuid x r ''commentID'' of
           Inl e \<Rightarrow> fail e r rp w
         | Inr i \<Rightarrow>
            (case comment_svc_Delete x st a i w of
               (Inl e, w1) \<Rightarrow> fail e r rp w1
             | (Inr _, w1) \<Rightarrow> (WriteNoContent rp, w1))))"

end
