(* ===== verification/Router.thy ===== *)
theory Router
  imports Access Rate_Limit Health Docs User_Handler Comment_Handler
begin

text \<open>
  \<open>internal/server/router.go\<close>: the middleware stack and the three route groups over the whole site
  state (tables and both limiters). Which route a method and path select is decided by the chi
  library, a parameter.
  Lemmas: what a protected route does to the site before its token is accepted.
\<close>

record site =
  si_world :: world
  si_global :: limiter
  si_auth :: limiter

definition on_world :: "handler \<Rightarrow> site endpoint" where
  "on_world h = calm (\<lambda>r rp s. case h r rp (si_world s) of (rp1, w1) \<Rightarrow> (rp1, s\<lparr>si_world := w1\<rparr>))"

record router_deps =
  rd_ext :: ext
  rd_origins :: "string list"
  rd_trust_proxy :: bool
  rd_handler_timeout :: duration
  rd_max_body :: int
  rd_limited :: bool
  rd_tokens :: token_service
  rd_accounts :: user_svc
  rd_posts :: post_store
  rd_comments :: comment_store
  rd_reader :: post_reader
  rd_health :: health_handler
  rd_version :: string
  rd_openapi :: string

definition APIBasePath :: string where "APIBasePath = ''/api/v1''"

definition under :: "string \<Rightarrow> 's routes \<Rightarrow> 's routes" where
  "under base = map (\<lambda>(m, p, e). (m, base @ p, e))"

definition guarded :: "('s endpoint \<Rightarrow> 's endpoint) \<Rightarrow> 's routes \<Rightarrow> 's routes" where
  "guarded mw = map (\<lambda>(m, p, e). (m, p, mw e))"

section \<open>Route groups\<close>

definition user_credential_routes :: "router_deps \<Rightarrow> site routes" where
  "user_credential_routes d =
    [(''POST'', ''/auth/register'', on_world (user_register (rd_ext d) (rd_accounts d))),
     (''POST'', ''/auth/login'', on_world (user_login (rd_ext d) (rd_accounts d))),
     (''POST'', ''/auth/refresh'', on_world (user_refresh (rd_ext d) (rd_accounts d)))]"

definition user_public_routes :: "router_deps \<Rightarrow> site routes" where
  "user_public_routes d =
    [(''POST'', ''/auth/logout'', on_world (user_logout (rd_ext d) (rd_accounts d))),
     (''GET'', ''/users/{userID}'', on_world (user_getByID (rd_ext d) (rd_accounts d)))]"

definition user_protected_routes :: "router_deps \<Rightarrow> site routes" where
  "user_protected_routes d =
    [(''POST'', ''/auth/logout-all'', on_world (user_logoutAll (rd_ext d) (rd_accounts d))),
     (''GET'', ''/users/me'', on_world (user_me (rd_ext d) (rd_accounts d))),
     (''PATCH'', ''/users/me'', on_world (user_updateMe (rd_ext d) (rd_accounts d)))]"

definition post_public_routes :: "router_deps \<Rightarrow> site routes" where
  "post_public_routes d =
    [(''GET'', ''/posts'', on_world (post_list (rd_ext d) (rd_posts d))),
     (''GET'', ''/posts/{postID}'', on_world (post_get (rd_ext d) (rd_posts d)))]"

definition post_protected_routes :: "router_deps \<Rightarrow> site routes" where
  "post_protected_routes d =
    [(''POST'', ''/posts'', on_world (post_create (rd_ext d) (rd_posts d))),
     (''PATCH'', ''/posts/{postID}'', on_world (post_update (rd_ext d) (rd_posts d))),
     (''DELETE'', ''/posts/{postID}'', on_world (post_delete (rd_ext d) (rd_posts d)))]"

definition comment_public_routes :: "router_deps \<Rightarrow> site routes" where
  "comment_public_routes d =
    [(''GET'', ''/posts/{postID}/comments'', on_world (comment_listByPost (rd_ext d) (rd_comments d) (rd_reader d))),
     (''GET'', ''/comments/{commentID}'', on_world (comment_get (rd_ext d) (rd_comments d) (rd_reader d)))]"

definition comment_protected_routes :: "router_deps \<Rightarrow> site routes" where
  "comment_protected_routes d =
    [(''POST'', ''/posts/{postID}/comments'', on_world (comment_create (rd_ext d) (rd_comments d) (rd_reader d))),
     (''PATCH'', ''/comments/{commentID}'', on_world (comment_update (rd_ext d) (rd_comments d))),
     (''DELETE'', ''/comments/{commentID}'', on_world (comment_delete (rd_ext d) (rd_comments d)))]"

definition health_routes :: "router_deps \<Rightarrow> site routes" where
  "health_routes d = [(''GET'', ''/healthz'', on_world (health_live (rd_health d))),
     (''GET'', ''/readyz'', on_world (health_ready (rd_health d)))]"

definition index_endpoint :: "router_deps \<Rightarrow> site endpoint" where
  "index_endpoint d = calm (\<lambda>r rp s. (WriteData r 200 (JObj [(''api_base_path'', JStr APIBasePath),
     (''docs'', JStr ''/docs''), (''health'', JStr ''/healthz''), (''openapi'', JStr ''/openapi.yaml''),
     (''readiness'', JStr ''/readyz''), (''service'', JStr ''majoo-blog-api''), (''version'', JStr (rd_version d))]) rp, s))"

definition parse_token :: "router_deps \<Rightarrow> site token_parser" where
  "parse_token d raw s = ParseAccessToken (rd_ext d) (rd_tokens d) (clock (si_world s)) raw"

definition site_clock :: "site \<Rightarrow> time" where "site_clock s = clock (si_world s)"

definition global_limit :: "router_deps \<Rightarrow> site endpoint \<Rightarrow> site endpoint" where
  "global_limit d = (if rd_limited d
     then Limit_mw (rd_ext d) site_clock si_global (\<lambda>l s. s\<lparr>si_global := l\<rparr>) (rd_trust_proxy d) else (\<lambda>e. e))"

definition auth_limit :: "router_deps \<Rightarrow> site endpoint \<Rightarrow> site endpoint" where
  "auth_limit d = (if rd_limited d
     then Limit_mw (rd_ext d) site_clock si_auth (\<lambda>l s. s\<lparr>si_auth := l\<rparr>) (rd_trust_proxy d) else (\<lambda>e. e))"

definition public_routes :: "router_deps \<Rightarrow> site routes" where
  "public_routes d = under APIBasePath (guarded (Optional (parse_token d))
     (user_public_routes d @ post_public_routes d @ comment_public_routes d))"

definition credential_routes :: "router_deps \<Rightarrow> site routes" where
  "credential_routes d = under APIBasePath (guarded (auth_limit d) (user_credential_routes d))"

definition protected_routes :: "router_deps \<Rightarrow> site routes" where
  "protected_routes d = under APIBasePath (guarded (Require (parse_token d))
     (user_protected_routes d @ post_protected_routes d @ comment_protected_routes d))"

definition routes_of :: "router_deps \<Rightarrow> site routes" where
  "routes_of d = health_routes d @ [(''GET'', ''/'', index_endpoint d)] @ registerDocsRoutes (rd_openapi d)
     @ public_routes d @ credential_routes d @ protected_routes d"

section \<open>The router\<close>

datatype mux_result = Matched nat "string \<Rightarrow> string" | NoRoute | WrongMethod

text \<open>chi: the index of the selected route and the path parameters.\<close>

type_synonym mux = "(string \<times> string) list \<Rightarrow> string \<Rightarrow> string \<Rightarrow> mux_result"

definition dispatch_route :: "mux \<Rightarrow> 's routes \<Rightarrow> 's endpoint" where
  "dispatch_route mx rs r =
    (case mx (map (\<lambda>(m, p, e). (m, p)) rs) (hr_method r) (hr_path r) of
       Matched i ps \<Rightarrow>
         (if i < length rs then (snd (snd (rs ! i))) (r\<lparr>hr_params := ps\<rparr>) else answer (NotFound ''endpoint'') r)
     | NoRoute \<Rightarrow> answer (NotFound ''endpoint'') r
     | WrongMethod \<Rightarrow> answer (NewErr CodeBadRequest 405 ''this method is not allowed on this endpoint'') r)"

definition fresh_id :: "router_deps \<Rightarrow> site \<Rightarrow> string \<times> site" where
  "fresh_id d s = (case new_uuid (si_world s) of (u, w1) \<Rightarrow> (uuid_string (rd_ext d) u, s\<lparr>si_world := w1\<rparr>))"

text \<open>The middleware \<open>newRouter\<close> installs, around any endpoint.\<close>

definition with_middleware :: "router_deps \<Rightarrow> string \<Rightarrow> site endpoint \<Rightarrow> site endpoint" where
  "with_middleware d stack E =
    RequestID_mw (fresh_id d)
     (Logger_mw (rd_ext d)
      (Recoverer stack
       (SecurityHeaders
        (CORS \<lparr>AllowedOrigins = rd_origins d, AllowCredentials = False, MaxAge = 0\<rparr>
         (global_limit d
          (Timeout_mw site_clock (rd_handler_timeout d)
           (BodyLimit (rd_max_body d) E)))))))"

definition newRouter :: "router_deps \<Rightarrow> mux \<Rightarrow> string \<Rightarrow> site endpoint" where
  "newRouter d mx stack = with_middleware d stack (dispatch_route mx (routes_of d))"

section \<open>Requests without a valid token\<close>

text \<open>The request is for a protected route and its token, if any, is not accepted at this time.\<close>

definition unauthenticated :: "router_deps \<Rightarrow> mux \<Rightarrow> http_request \<Rightarrow> site \<Rightarrow> bool" where
  "unauthenticated d mx r s \<longleftrightarrow>
    (\<exists>i ps. mx (map (\<lambda>(m, p, e). (m, p)) (routes_of d)) (hr_method r) (hr_path r) = Matched i ps
       \<and> i < length (routes_of d) \<and> routes_of d ! i \<in> set (protected_routes d))
    \<and> (\<forall>raw a. bearerToken r = Inr raw \<longrightarrow>
         ParseAccessToken (rd_ext d) (rd_tokens d) (clock (si_world s)) raw \<noteq> Inr a)"

text \<open>An endpoint that answers such requests with one of the given statuses and touches nothing.\<close>

definition refuses :: "router_deps \<Rightarrow> mux \<Rightarrow> site endpoint \<Rightarrow> bool" where
  "refuses d mx E \<longleftrightarrow> (\<forall>r rp s. unauthenticated d mx r s \<longrightarrow> unanswered rp \<longrightarrow>
     (case E r rp s of (p, rp', s') \<Rightarrow> p = None \<and> rp_status rp' \<in> {Some 401, Some 429, Some 204}
        \<and> db (si_world s') = db (si_world s) \<and> bus_log (si_world s') = bus_log (si_world s)))"

lemma unauthenticated_simps [simp]:
  "unauthenticated d mx (WithRequestID r i) s = unauthenticated d mx r s"
  "unauthenticated d mx (WithLogger r as) s = unauthenticated d mx r s"
  "unauthenticated d mx (r\<lparr>hr_limit := n\<rparr>) s = unauthenticated d mx r s"
  "unauthenticated d mx (r\<lparr>hr_deadline := t\<rparr>) s = unauthenticated d mx r s"
  "unauthenticated d mx r (s\<lparr>si_global := l\<rparr>) = unauthenticated d mx r s"
  by (simp_all add: unauthenticated_def WithRequestID_def WithLogger_def bearerToken_def)

lemma unauthenticated_world:
  "clock w = clock (si_world s) \<Longrightarrow> unauthenticated d mx r (s\<lparr>si_world := w\<rparr>) = unauthenticated d mx r s"
  by (simp add: unauthenticated_def)

lemma refused_tokens:
  "ParseAccessToken x ts now raw = Inl e \<Longrightarrow> From (Some e) = Some e \<and> err_status e = 401"
  "bearerToken r = Inl e \<Longrightarrow> From (Some e) = Some e \<and> err_status e = 401"
  by (auto simp: ParseAccessToken_def unauthorized_def bearerToken_def From_def api_constructors Let_def
      split: sum.splits if_splits prod.splits)

lemma answer_status:
  "unanswered rp \<Longrightarrow> From (Some e) = Some e \<Longrightarrow>
    \<exists>rp'. answer e r rp s = (None, rp', s) \<and> rp_status rp' = Some (err_status e)"
  using WriteError_answers(1) [of rp e e r] by (simp add: answer_def)

lemma Require_refuses:
  assumes "\<forall>raw a. bearerToken r = Inr raw \<longrightarrow> parse raw s \<noteq> Inr a" "unanswered rp"
    and "\<And>raw e. parse raw s = Inl e \<Longrightarrow> From (Some e) = Some e \<and> err_status e = 401"
  shows "\<exists>rp'. Require parse next r rp s = (None, rp', s) \<and> rp_status rp' = Some 401"
proof (cases rule: Require_cases [of parse "next" r rp s])
  case (refused e k)
  have "From (Some e) = Some e \<and> err_status e = 401"
  proof (cases "bearerToken r")
    case (Inl e')
    with refused(3) refused_tokens(2) [of r e] show ?thesis by auto
  next
    case (Inr raw)
    with refused(2) assms(3) show ?thesis by blast
  qed
  with refused(1) assms(2) answer_status [of "set_header ''WWW-Authenticate'' k rp" e r s] show ?thesis by auto
next
  case (admitted raw a)
  with assms(1) show ?thesis by blast
qed

lemma protected_are_guarded:
  "(m, p, e) \<in> set (protected_routes d) \<Longrightarrow> \<exists>next. e = Require (parse_token d) next"
  by (auto simp: protected_routes_def under_def guarded_def)

lemma dispatch_refuses: "refuses d mx (dispatch_route mx (routes_of d))"
  unfolding refuses_def
proof (intro allI impI)
  fix r rp s assume u: "unauthenticated d mx r s" and rp: "unanswered rp"
  from u obtain i ps where m: "mx (map (\<lambda>(m, p, e). (m, p)) (routes_of d)) (hr_method r) (hr_path r) = Matched i ps"
      "i < length (routes_of d)" "routes_of d ! i \<in> set (protected_routes d)"
    by (auto simp: unauthenticated_def)
  obtain me pa e where e: "routes_of d ! i = (me, pa, e)" by (metis prod.exhaust)
  with m(3) protected_are_guarded obtain "next" where n: "e = Require (parse_token d) next" by metis
  let ?r = "r\<lparr>hr_params := ps\<rparr>"
  have "\<forall>raw a. bearerToken ?r = Inr raw \<longrightarrow> parse_token d raw s \<noteq> Inr a"
    using u by (simp add: unauthenticated_def parse_token_def bearerToken_def)
  then obtain rp' where "Require (parse_token d) next ?r rp s = (None, rp', s)" "rp_status rp' = Some 401"
    using Require_refuses [of ?r "parse_token d" s rp] rp refused_tokens(1) by (fastforce simp: parse_token_def)
  with m e n show "case dispatch_route mx (routes_of d) r rp s of (p, rp', s') \<Rightarrow> p = None
      \<and> rp_status rp' \<in> {Some 401, Some 429, Some 204} \<and> db (si_world s') = db (si_world s)
      \<and> bus_log (si_world s') = bus_log (si_world s)"
    by (simp add: dispatch_route_def)
qed

lemma refusesD:
  assumes "refuses d mx E" "unauthenticated d mx r s" "unanswered rp"
  obtains rp' s' where "E r rp s = (None, rp', s')" "rp_status rp' \<in> {Some 401, Some 429, Some 204}"
    "db (si_world s') = db (si_world s)" "bus_log (si_world s') = bus_log (si_world s)"
  using assms unfolding refuses_def by (cases "E r rp s") fastforce

lemma BodyLimit_refuses: "refuses d mx E \<Longrightarrow> refuses d mx (BodyLimit n E)"
  by (simp add: refuses_def BodyLimit_def)

lemma Timeout_refuses: "refuses d mx E \<Longrightarrow> refuses d mx (Timeout_mw now t E)"
  by (simp add: refuses_def Timeout_mw_def Let_def)

lemma limit_refuses:
  assumes "refuses d mx E"
  shows "refuses d mx (global_limit d E)"
proof -
  have "refuses d mx (Limit_mw x now si_global (\<lambda>l s. s\<lparr>si_global := l\<rparr>) tp E)" for x now tp
    unfolding refuses_def
  proof (intro allI impI)
    fix r rp s assume u: "unauthenticated d mx r s" and rp: "unanswered rp"
    obtain ok t l where a: "Allow (now s) (limiter_key x tp r) (si_global s) = ((ok, t), l)" by (metis prod.exhaust)
    show "case Limit_mw x now si_global (\<lambda>l s. s\<lparr>si_global := l\<rparr>) tp E r rp s of (p, rp', s') \<Rightarrow> p = None
      \<and> rp_status rp' \<in> {Some 401, Some 429, Some 204} \<and> db (si_world s') = db (si_world s)
      \<and> bus_log (si_world s') = bus_log (si_world s)"
    proof (cases ok)
      case True
      have "unauthenticated d mx r (s\<lparr>si_global := l\<rparr>)" using u by simp
      from this rp show ?thesis
        by (rule refusesD [OF assms]) (simp add: Limit_mw_def a True)
    next
      case False
      have e: "From (Some (RateLimited m)) = Some (RateLimited m)" "err_status (RateLimited m) = 429" for m
        by (simp_all add: From_def api_constructors)
      from rp have "unanswered (set_header ''Retry-After'' (itoa (retry_seconds t)) rp)" by simp
      from answer_status [OF this e(1), of "''too many requests; please retry later''" r "s\<lparr>si_global := l\<rparr>"] e(2) False
      show ?thesis by (auto simp: Limit_mw_def a)
    qed
  qed
  with assms show ?thesis by (simp add: global_limit_def)
qed

lemma cors_unanswered [simp]: "unanswered (cors_headers cfg o' rp) = unanswered rp" "unanswered (add_header k v rp) = unanswered rp"
  by (simp_all add: cors_headers_def add_header_def unanswered_def set_header_def Let_def)

lemma CORS_refuses:
  assumes "refuses d mx E"
  shows "refuses d mx (CORS cfg E)"
proof -
  have "rp_status (write_header 204 rp) = Some 204" if "unanswered rp" for rp
    using that by (simp add: write_header_def unanswered_def)
  with assms show ?thesis by (auto simp: refuses_def CORS_def Let_def)
qed

lemma SecurityHeaders_refuses: "refuses d mx E \<Longrightarrow> refuses d mx (SecurityHeaders E)"
  by (simp add: refuses_def SecurityHeaders_def Let_def)

lemma Recoverer_refuses:
  assumes "refuses d mx E"
  shows "refuses d mx (Recoverer stack E)"
  unfolding refuses_def
proof (intro allI impI)
  fix r rp s assume "unauthenticated d mx r s" "unanswered rp"
  then show "case Recoverer stack E r rp s of (p, rp', s') \<Rightarrow> p = None
      \<and> rp_status rp' \<in> {Some 401, Some 429, Some 204} \<and> db (si_world s') = db (si_world s)
      \<and> bus_log (si_world s') = bus_log (si_world s)"
    by (rule refusesD [OF assms]) (simp add: Recoverer_def)
qed

lemma Logger_refuses:
  assumes "refuses d mx E"
  shows "refuses d mx (Logger_mw x E)"
  unfolding refuses_def
proof (intro allI impI)
  fix r rp s assume "unauthenticated d mx r s" "unanswered rp"
  then have "unauthenticated d mx (WithLogger r (request_attrs r)) s" "unanswered rp" by simp_all
  then show "case Logger_mw x E r rp s of (p, rp', s') \<Rightarrow> p = None
      \<and> rp_status rp' \<in> {Some 401, Some 429, Some 204} \<and> db (si_world s') = db (si_world s)
      \<and> bus_log (si_world s') = bus_log (si_world s)"
    by (rule refusesD [OF assms]) (simp add: Logger_mw_def)
qed

lemma RequestID_refuses:
  assumes "refuses d mx E"
  shows "refuses d mx (RequestID_mw (fresh_id d) E)"
  unfolding refuses_def
proof (intro allI impI)
  fix r rp s assume u: "unauthenticated d mx r s" "unanswered rp"
  obtain i s1 where f: "(if sanitizeRequestID (hr_header r RequestIDHeader) = [] then fresh_id d s
      else (sanitizeRequestID (hr_header r RequestIDHeader), s)) = (i, s1)" by fastforce
  then have s1: "unauthenticated d mx r s1" "db (si_world s1) = db (si_world s)" "bus_log (si_world s1) = bus_log (si_world s)"
    using u(1) by (auto simp: fresh_id_def unauthenticated_world dest: new_uuid_frame split: if_splits prod.splits)
  have "unauthenticated d mx (WithRequestID r i) s1" "unanswered (set_header RequestIDHeader i rp)" using s1(1) u(2) by simp_all
  then show "case RequestID_mw (fresh_id d) E r rp s of (p, rp', s') \<Rightarrow> p = None
      \<and> rp_status rp' \<in> {Some 401, Some 429, Some 204} \<and> db (si_world s') = db (si_world s)
      \<and> bus_log (si_world s') = bus_log (si_world s)"
    by (rule refusesD [OF assms]) (simp add: RequestID_mw_def Let_def f s1(2,3))
qed

lemma router_refuses: "refuses d mx (newRouter d mx stack)"
  unfolding newRouter_def with_middleware_def
  by (intro RequestID_refuses Logger_refuses Recoverer_refuses SecurityHeaders_refuses CORS_refuses limit_refuses
      Timeout_refuses BodyLimit_refuses dispatch_refuses)

text \<open>The logout route sits behind \<open>Optional\<close>: a bearer token that is no longer accepted is refused before
  the handler sees the refresh token.\<close>

lemma logout_refuses_stale_bearer:
  assumes "bearerToken r = Inr raw" "ParseAccessToken (rd_ext d) (rd_tokens d) (clock (si_world s)) raw = Inl e" "unanswered rp"
    and "trim_space (hr_header r ''Authorization'') \<noteq> []"
  shows "\<exists>rp'. Optional (parse_token d) (on_world (user_logout (rd_ext d) (rd_accounts d))) r rp s = (None, rp', s)
    \<and> rp_status rp' = Some 401"
  using Require_refuses [of r "parse_token d" s rp] assms refused_tokens(1)
  by (fastforce simp: Optional_def parse_token_def)

section \<open>From a login to an authenticated request\<close>

lemma bearer_header:
  assumes "hr_header r ''Authorization'' = ''Bearer '' @ tok" "trim_space tok = tok" "tok \<noteq> []"
  shows "bearerToken r = Inr tok"
  using assms by (simp add: bearerToken_def cut_def lower_rune_def Let_def char_of_def bit_iff_odd)

lemma fresh_token_admits:
  assumes lib: "jwt_complete x" "uuid_documented x" "numeric_date_documented x"
    and login: "Login x (blog_accounts x h ts) mail password ua w = (Inr p, w')"
    and user: "role_Valid (role (tp_user p))"
    and time: "clock w \<le> now" "now + second \<le> clock w + accessTTL ts"
  shows "ParseAccessToken x ts now (tp_access p) = Inr \<lparr>actor_id = user_id (tp_user p), actor_role = role (tp_user p)\<rparr>"
proof (rule account_svc.Login_Inr [OF login])
  fix w1 w2 w3 u
  assume f: "us_ByEmail (sv_users (blog_accounts x h ts)) (NormalizeEmail x mail) w = (Inr u, w1)"
      "Verify x (password_hash u) password w1 = (None, w2)"
      "IssueAccessToken x (sv_tokens (blog_accounts x h ts)) (user_id u) (role u) w2 = (Inr (tp_access p, tp_expires_at p), w3)"
      "tp_user p = u"
  have "clock w2 = clock w"
    using Verify_frame [OF f(2)] accounts.byemail_frame [OF f(1) [unfolded blog_accounts_simps]]
    by (simp add: same_process_def)
  with issue_then_parse [OF lib _ f(3) [unfolded blog_accounts_simps]] f(4) user time show ?thesis by simp
qed

lemma stored_account_shown:
  assumes "outcomes (si_world s) = []" "lookup_account (si_world s) (actor_id a) = Some u" "unanswered rp"
    and "time_marshals (user_created u)" "time_marshals (user_updated u)"
  shows "\<exists>rp'. on_world (user_me x (blog_accounts x h ts)) (WithActor r a) rp s = (None, rp', s)
    \<and> rp_status rp' = Some 200
    \<and> rp_body rp' = Some (json_envelope (json_private_user x (newPrivateUser u)) None (RequestID r))"
proof -
  have "user_svc_ByID (blog_accounts x h ts) (actor_id a) (si_world s) = (Inr u, si_world s)"
    using assms(1,2) by (simp add: user_svc_ByID_def user_ByID_def user_one_def execute_quiet select_user_def lookup_account_def)
  moreover have "marshals (json_envelope (json_private_user x (newPrivateUser u)) None (RequestID r))"
    using assms(4,5) by (simp add: json_envelope_def json_private_user_def newPrivateUser_def omit_nil_def omit_empty_def)
  ultimately show ?thesis
    using WriteJSON_answers [OF assms(3)] by (simp add: on_world_def calm_def user_me_def WriteData_def)
qed

section \<open>Properties\<close>

text \<open>C1: a request for any protected route whose access token is missing, malformed, forged or expired
  is answered with a 401 (or a 429, or as a preflight), never reaches a handler, and leaves the
  tables and the event log untouched, through the whole middleware stack.\<close>

theorem no_token_no_effect:
  assumes "unauthenticated d mx r s" "unanswered rp"
  shows "\<exists>rp' s'. newRouter d mx stack r rp s = (None, rp', s') \<and> rp_status rp' \<in> {Some 401, Some 429, Some 204}
    \<and> db (si_world s') = db (si_world s) \<and> bus_log (si_world s') = bus_log (si_world s)"
  by (rule refusesD [OF router_refuses [of d mx stack] assms]) blast


section \<open>Witnesses\<close>

definition sample_deps :: router_deps where
  "sample_deps = \<lparr>rd_ext = sample_jwt, rd_origins = [], rd_trust_proxy = False, rd_handler_timeout = 10 * second,
     rd_max_body = 1048576, rd_limited = True, rd_tokens = sample_service, rd_accounts = sample_accounts,
     rd_posts = post_repository sample_jwt, rd_comments = comment_repository,
     rd_reader = post_svc_ByID (post_repository sample_jwt), rd_health = \<lparr>he_version = ''dev'', he_started = 0\<rparr>,
     rd_version = ''dev'', rd_openapi = ''openapi: 3.0.3''\<rparr>"

text \<open>A mux that compares whole paths.\<close>

definition exact_mux :: mux where
  "exact_mux rs m p = (let i = length (takeWhile (\<lambda>r. r \<noteq> (m, p)) rs) in
     if i < length rs then Matched i (\<lambda>k. []) else NoRoute)"

definition sample_request :: "string \<Rightarrow> string \<Rightarrow> (string \<times> string) list \<Rightarrow> http_request" where
  "sample_request m p hs = \<lparr>hr_method = m, hr_path = p, hr_remote = ''10.0.0.9:4711'',
     hr_header = (\<lambda>k. case map_of hs k of None \<Rightarrow> [] | Some v \<Rightarrow> v), hr_query = [], hr_raw_query = [],
     hr_params = (\<lambda>k. []), hr_body = (\<lambda>n. []), hr_limit = None, hr_deadline = None, hr_id = None, hr_actor = None,
     hr_logger = None\<rparr>"

definition sample_site :: "world \<Rightarrow> site" where
  "sample_site w = \<lparr>si_world = w, si_global = NewRateLimiter 20 40, si_auth = NewRateLimiter 1 10\<rparr>"


lemma sample_site_world [simp]: "si_world (sample_site w) = w"
  by (simp add: sample_site_def)

lemmas route_tables = routes_of_def registerDocsRoutes_def health_routes_def public_routes_def credential_routes_def protected_routes_def
  under_def guarded_def user_credential_routes_def user_public_routes_def user_protected_routes_def
  post_public_routes_def post_protected_routes_def comment_public_routes_def comment_protected_routes_def APIBasePath_def

lemma posting_is_protected:
  "\<exists>i ps. exact_mux (map (\<lambda>(m, p, e). (m, p)) (routes_of sample_deps)) ''POST'' ''/api/v1/posts'' = Matched i ps
       \<and> i < length (routes_of sample_deps) \<and> routes_of sample_deps ! i \<in> set (protected_routes sample_deps)"
  by (simp add: exact_mux_def route_tables sample_deps_def Let_def)

theorem no_token_no_effect_witness:
  "\<exists>rp s. newRouter sample_deps exact_mux [] (sample_request ''POST'' ''/api/v1/posts'' []) blank_reply (sample_site empty_world)
      = (None, rp, s) \<and> rp_status rp \<in> {Some 401, Some 429, Some 204} \<and> db (si_world s) = db empty_world"
proof -
  have "unauthenticated sample_deps exact_mux (sample_request ''POST'' ''/api/v1/posts'' []) (sample_site empty_world)"
    using posting_is_protected by (simp add: unauthenticated_def sample_request_def bearerToken_def)
  moreover have "unanswered blank_reply" by (simp add: unanswered_def blank_reply_def)
  ultimately have "\<exists>rp' s'. newRouter sample_deps exact_mux [] (sample_request ''POST'' ''/api/v1/posts'' []) blank_reply
      (sample_site empty_world) = (None, rp', s') \<and> rp_status rp' \<in> {Some 401, Some 429, Some 204}
    \<and> db (si_world s') = db (si_world (sample_site empty_world)) \<and> bus_log (si_world s') = bus_log (si_world (sample_site empty_world))"
    by (rule no_token_no_effect)
  then show ?thesis by auto
qed


end
