(* ===== verification/Stack.thy ===== *)
theory Stack
  imports Router
begin

text \<open>
  What \<open>newRouter\<close> guarantees of every reply, whichever endpoint answers: a frame condition on
  replies (\<open>polite\<close>: the reserved headers stay, log lines only come in and carry the attributes of
  the request's logger) that every writer and every endpoint keeps, and from it the properties of the
  whole middleware stack: every request is answered and logged once, panics become a 500, and which
  origins a browser is told about.
\<close>

section \<open>The frame of a reply\<close>

definition AllowOrigin :: string where "AllowOrigin = ''Access-Control-Allow-Origin''"

definition reserved :: "string set" where "reserved = {RequestIDHeader, AllowOrigin}"

lemmas reserved_names = reserved_def RequestIDHeader_def AllowOrigin_def

definition log_frame :: "http_request \<Rightarrow> reply \<Rightarrow> reply \<Rightarrow> bool" where
  "log_frame r rp rp' \<longleftrightarrow> (\<exists>ls. rp_log rp' = rp_log rp @ ls \<and> (\<forall>ll \<in> set ls. \<exists>as. ll_attrs ll = FromContext r @ as))"

definition polite :: "http_request \<Rightarrow> reply \<Rightarrow> reply \<Rightarrow> bool" where
  "polite r rp rp' \<longleftrightarrow> (\<forall>k \<in> reserved. map_of (rp_headers rp') k = map_of (rp_headers rp) k) \<and> log_frame r rp rp'"

definition answered :: "reply \<Rightarrow> bool" where "answered rp \<longleftrightarrow> rp_status rp \<noteq> None"

definition handled :: "http_request \<Rightarrow> reply \<Rightarrow> reply \<Rightarrow> bool" where
  "handled r rp rp' \<longleftrightarrow> polite r rp rp' \<and> answered rp'"

lemma log_frame_same: "rp_log rp' = rp_log rp \<Longrightarrow> log_frame r rp rp'"
  by (simp add: log_frame_def)

lemma log_frame_trans:
  assumes "log_frame r rp rp1" "log_frame r rp1 rp2"
  shows "log_frame r rp rp2"
proof -
  from assms(1) obtain as where as: "rp_log rp1 = rp_log rp @ as" "\<forall>ll \<in> set as. \<exists>a. ll_attrs ll = FromContext r @ a"
    by (auto simp: log_frame_def)
  from assms(2) obtain bs where bs: "rp_log rp2 = rp_log rp1 @ bs" "\<forall>ll \<in> set bs. \<exists>a. ll_attrs ll = FromContext r @ a"
    by (auto simp: log_frame_def)
  have "rp_log rp2 = rp_log rp @ (as @ bs)" "\<forall>ll \<in> set (as @ bs). \<exists>a. ll_attrs ll = FromContext r @ a"
    using as bs by auto
  then show ?thesis unfolding log_frame_def by blast
qed

lemma polite_refl [simp, intro]: "polite r rp rp"
  by (simp add: polite_def log_frame_same)

lemma polite_trans: "polite r rp rp1 \<Longrightarrow> polite r rp1 rp2 \<Longrightarrow> polite r rp rp2"
  using log_frame_trans [of r rp rp1 rp2] by (simp add: polite_def)

lemma polite_same_logger: "FromContext r' = FromContext r \<Longrightarrow> polite r' = polite r"
  by (simp add: polite_def log_frame_def fun_eq_iff)

lemma handled_same_logger: "FromContext r' = FromContext r \<Longrightarrow> handled r' = handled r"
  by (simp add: handled_def fun_eq_iff polite_same_logger [of r' r])

lemma polite_set_header: "k \<notin> reserved \<Longrightarrow> polite r rp (set_header k v rp)"
  by (auto simp: polite_def log_frame_same set_header_def update_conv')

lemma polite_add_header: "k \<notin> reserved \<Longrightarrow> polite r rp (add_header k v rp)"
  by (auto simp: polite_def log_frame_same add_header_def map_add_def split: option.splits)

lemmas polite_set_headers = polite_trans [OF _ polite_set_header]
lemmas polite_add_headers = polite_trans [OF _ polite_add_header]

lemma polite_log: "polite r rp (log_to r l m as rp)"
  by (simp add: polite_def log_frame_def)

lemma polite_write: "polite r rp (write_header c rp)" "polite r rp (write_body j rp)"
    "polite r rp (write_raw b rp)"
  by (auto simp: polite_def log_frame_same write_header_def write_body_def write_raw_def Let_def split: option.splits)

text \<open>A writer sets the status, or leaves the one that is there.\<close>

lemma answered_simps [simp]:
  "answered (write_header c rp)" "answered (write_body j rp) = answered rp" "answered (write_raw b rp)"
  "answered (log_to r l m as rp) = answered rp" "answered (set_header k v rp) = answered rp"
  "answered (add_header k v rp) = answered rp"
  by (auto simp: answered_def write_header_def write_body_def write_raw_def add_header_def Let_def split: option.splits)

lemma handled_write_raw: "polite r rp rp1 \<Longrightarrow> handled r rp (write_raw b rp1)"
  using polite_trans [OF _ polite_write(3)] by (simp add: handled_def)

lemma content_headers: "''Content-Type'' \<notin> reserved" "''X-Content-Type-Options'' \<notin> reserved"
  "''Location'' \<notin> reserved" "''WWW-Authenticate'' \<notin> reserved" "''Retry-After'' \<notin> reserved"
  "''Cache-Control'' \<notin> reserved" "''Referrer-Policy'' \<notin> reserved" "''X-Frame-Options'' \<notin> reserved"
  "''Access-Control-Expose-Headers'' \<notin> reserved" "''Vary'' \<notin> reserved" "''Access-Control-Allow-Credentials'' \<notin> reserved"
  "''Access-Control-Max-Age'' \<notin> reserved" "''Access-Control-Allow-Headers'' \<notin> reserved"
  "''Access-Control-Allow-Methods'' \<notin> reserved"
  by (simp_all add: reserved_names)

lemma handled_WriteJSON:
  assumes "polite r rp rp1"
  shows "handled r rp (WriteJSON r st v rp1)"
proof -
  have "polite r rp1 (WriteJSON r st v rp1)"
    unfolding WriteJSON_def Let_def
    by (auto intro!: polite_trans [OF _ polite_write(2)] polite_trans [OF _ polite_write(1)]
        polite_trans [OF _ polite_log] polite_trans [OF _ polite_set_header [OF content_headers(1)]]
        polite_trans [OF _ polite_set_header [OF content_headers(2)]])
  moreover have "answered (WriteJSON r st v rp1)" by (auto simp: WriteJSON_def Let_def)
  ultimately show ?thesis using polite_trans [OF assms] by (simp add: handled_def)
qed

lemma handled_writers:
  assumes "polite r rp rp1"
  shows "handled r rp (WriteData r st data rp1)" "handled r rp (WriteList r data p rp1)"
    "handled r rp (WriteNoContent rp1)" "handled r rp (WriteError r (Some e) rp1)"
proof -
  show "handled r rp (WriteData r st data rp1)" "handled r rp (WriteList r data p rp1)"
    by (simp_all add: WriteData_def WriteList_def handled_WriteJSON [OF assms])
  show "handled r rp (WriteNoContent rp1)"
    using polite_trans [OF assms polite_write(1)] by (simp add: WriteNoContent_def handled_def)
  obtain a where "From (Some e) = Some a" by (cases "From (Some e)") (auto simp: From_def Let_def split: option.splits if_splits)
  then show "handled r rp (WriteError r (Some e) rp1)"
    by (auto simp: WriteError_def Let_def intro!: handled_WriteJSON polite_trans [OF assms] polite_log)
qed

section \<open>Every endpoint answers\<close>

definition serves :: "'s endpoint \<Rightarrow> bool" where
  "serves E \<longleftrightarrow> (\<forall>r rp s. case E r rp s of (p, rp', s') \<Rightarrow> polite r rp rp' \<and> (p = None \<longrightarrow> answered rp'))"

definition never_panics :: "'s endpoint \<Rightarrow> bool" where
  "never_panics E \<longleftrightarrow> (\<forall>r rp s. fst (E r rp s) = None)"

lemma servesD: "serves E \<Longrightarrow> E r rp s = (p, rp', s') \<Longrightarrow> polite r rp rp' \<and> (p = None \<longrightarrow> answered rp')"
  unfolding serves_def by (metis (mono_tags, lifting) case_prod_conv)

lemma serves_later:
  assumes "serves E" "E r' rp1 s = (p, rp', s')" "FromContext r' = FromContext r" "polite r rp rp1"
  shows "polite r rp rp' \<and> (p = None \<longrightarrow> answered rp')"
  using servesD [OF assms(1,2)] polite_trans [OF assms(4)] polite_same_logger [OF assms(3)] by auto

lemma serves_calm: "(\<And>r rp s. handled r rp (fst (h r rp s))) \<Longrightarrow> serves (calm h) \<and> never_panics (calm h)"
  by (simp add: serves_def never_panics_def calm_def handled_def split: prod.splits) (metis fst_conv)

lemma serves_on_world: "(\<And>r rp w. handled r rp (fst (h r rp w))) \<Longrightarrow> serves (on_world h) \<and> never_panics (on_world h)"
  unfolding on_world_def by (rule serves_calm) (metis (mono_tags, lifting) case_prod_beta fst_conv)

lemma serves_answer: "serves (answer e)" "never_panics (answer e)"
  using handled_writers(4) [OF polite_refl] by (auto simp: serves_def never_panics_def answer_def handled_def)

lemmas endpoint_splits = sum.splits prod.splits option.splits if_splits

lemmas writing = fail_def handled_writers polite_set_header content_headers handled_WriteJSON

lemma user_handlers:
  "handled r rp (fst (user_register x sv r rp w))" "handled r rp (fst (user_login x sv r rp w))"
  "handled r rp (fst (user_refresh x sv r rp w))" "handled r rp (fst (user_logout x sv r rp w))"
  "handled r rp (fst (user_logoutAll x sv r rp w))" "handled r rp (fst (user_me x sv r rp w))"
  "handled r rp (fst (user_updateMe x sv r rp w))" "handled r rp (fst (user_getByID x sv r rp w))"
  by (auto simp: writing user_register_def user_login_def user_refresh_def user_logout_def user_logoutAll_def user_me_def
      user_updateMe_def user_getByID_def Let_def split: endpoint_splits)

lemma post_handlers:
  "handled r rp (fst (post_create x st r rp w))" "handled r rp (fst (post_get x st r rp w))"
  "handled r rp (fst (post_list x st r rp w))" "handled r rp (fst (post_update x st r rp w))"
  "handled r rp (fst (post_delete x st r rp w))"
  by (auto simp: writing post_create_def post_get_def post_list_def post_update_def post_delete_def Let_def
      split: endpoint_splits)

lemma comment_handlers:
  "handled r rp (fst (comment_create x cs read r rp w))" "handled r rp (fst (comment_get x cs read r rp w))"
  "handled r rp (fst (comment_listByPost x cs read r rp w))" "handled r rp (fst (comment_update x cs r rp w))"
  "handled r rp (fst (comment_delete x cs r rp w))"
  by (auto simp: writing comment_create_def comment_get_def comment_listByPost_def comment_update_def comment_delete_def
      split: endpoint_splits)

lemma other_handlers:
  "handled r rp (fst (health_live h r rp w))" "handled r rp (fst (health_ready h r rp w))"
  by (auto simp: writing health_live_def health_ready_def Let_def split: endpoint_splits)

lemma static_endpoints:
  "serves (index_endpoint d) \<and> never_panics (index_endpoint d)"
  "serves (openapi_endpoint b :: site endpoint) \<and> never_panics (openapi_endpoint b :: site endpoint)"
  "serves (docs_endpoint :: site endpoint) \<and> never_panics (docs_endpoint :: site endpoint)"
  unfolding index_endpoint_def openapi_endpoint_def docs_endpoint_def
  by (rule serves_calm, simp, intro handled_writers handled_write_raw polite_set_headers content_headers polite_refl)+

section \<open>Guards and routes\<close>

lemma Require_serves:
  assumes "serves E" "never_panics E"
  shows "serves (Require parse E)" "never_panics (Require parse E)"
proof -
  have "polite r rp rp' \<and> answered rp' \<and> p = None" if "Require parse E r rp s = (p, rp', s')" for r rp s p rp' s'
  proof (cases rule: Require_cases [of parse E r rp s])
    case (refused e k)
    with that handled_writers(4) [OF polite_set_header [OF content_headers(4)], of r rp e k] show ?thesis
      by (auto simp: answer_def handled_def)
  next
    case (admitted raw a)
    have "FromContext (WithActor r a) = FromContext r" by (simp add: WithActor_def FromContext_def)
    from serves_later [OF assms(1) _ this polite_refl] admitted(3) that assms(2) show ?thesis
      by (metis fst_conv never_panics_def)
  qed
  then show "serves (Require parse E)" "never_panics (Require parse E)"
    unfolding serves_def never_panics_def by (auto split: prod.splits) (metis prod.exhaust fst_conv)
qed

lemma Optional_serves:
  assumes "serves E" "never_panics E"
  shows "serves (Optional parse E)" "never_panics (Optional parse E)"
  using assms Require_serves [OF assms, of parse] by (simp_all add: serves_def never_panics_def Optional_def)

lemma Limit_serves:
  assumes "serves E"
  shows "serves (Limit_mw x now get put tp E)" and "never_panics E \<Longrightarrow> never_panics (Limit_mw x now get put tp E)"
proof -
  have refused: "polite r rp rp' \<and> answered rp' \<and> p = None"
    if "answer e r (set_header ''Retry-After'' v rp) s = (p, rp', s')" for e r v rp p rp' and s s' :: 'a
    using that handled_writers(4) [OF polite_set_header [OF content_headers(5)], of r rp e v]
    by (auto simp: answer_def handled_def)
  show "serves (Limit_mw x now get put tp E)"
    unfolding serves_def Limit_mw_def using servesD [OF assms] refused by (auto split: prod.splits if_splits)
  show "never_panics E \<Longrightarrow> never_panics (Limit_mw x now get put tp E)"
    by (auto simp: never_panics_def Limit_mw_def answer_def split: prod.splits)
qed

lemma auth_limit_serves:
  "serves E \<Longrightarrow> serves (auth_limit d E)" "serves E \<Longrightarrow> never_panics E \<Longrightarrow> never_panics (auth_limit d E)"
  by (auto simp: auth_limit_def Limit_serves)

lemma global_limit_serves:
  "serves E \<Longrightarrow> serves (global_limit d E)" "serves E \<Longrightarrow> never_panics E \<Longrightarrow> never_panics (global_limit d E)"
  by (auto simp: global_limit_def Limit_serves)

lemma routes_serve: "(m, p, E) \<in> set (routes_of d) \<Longrightarrow> serves E \<and> never_panics E"
  using static_endpoints serves_on_world [OF user_handlers(1)] serves_on_world [OF user_handlers(2)]
    serves_on_world [OF user_handlers(3)] serves_on_world [OF user_handlers(4)] serves_on_world [OF user_handlers(5)]
    serves_on_world [OF user_handlers(6)] serves_on_world [OF user_handlers(7)] serves_on_world [OF user_handlers(8)]
    serves_on_world [OF post_handlers(1)] serves_on_world [OF post_handlers(2)] serves_on_world [OF post_handlers(3)]
    serves_on_world [OF post_handlers(4)] serves_on_world [OF post_handlers(5)] serves_on_world [OF comment_handlers(1)]
    serves_on_world [OF comment_handlers(2)] serves_on_world [OF comment_handlers(3)] serves_on_world [OF comment_handlers(4)]
    serves_on_world [OF comment_handlers(5)] serves_on_world [OF other_handlers(1)] serves_on_world [OF other_handlers(2)]
  by (auto simp: route_tables Require_serves Optional_serves auth_limit_serves)

lemma dispatch_serves: "serves (dispatch_route mx (routes_of d))" "never_panics (dispatch_route mx (routes_of d))"
proof -
  have "polite r rp rp' \<and> answered rp' \<and> p = None" if "dispatch_route mx (routes_of d) r rp s = (p, rp', s')"
    for r rp s p rp' s'
  proof (cases "\<exists>i ps. mx (map (\<lambda>(m, p, e). (m, p)) (routes_of d)) (hr_method r) (hr_path r) = Matched i ps
       \<and> i < length (routes_of d)")
    case True
    then obtain i ps where i: "mx (map (\<lambda>(m, p, e). (m, p)) (routes_of d)) (hr_method r) (hr_path r) = Matched i ps"
        "i < length (routes_of d)" by blast
    obtain m q E where e: "routes_of d ! i = (m, q, E)" by (metis prod.exhaust)
    with routes_serve nth_mem [OF i(2)] have E: "serves E" "never_panics E" by metis+
    have "E (r\<lparr>hr_params := ps\<rparr>) rp s = (p, rp', s')" using that i e by (simp add: dispatch_route_def)
    from serves_later [OF E(1) this, of r rp] E(2) this show ?thesis
      by (simp add: FromContext_def) (metis fst_conv never_panics_def)
  next
    case False
    with that have "\<exists>e. answer e r rp s = (p, rp', s')"
      by (auto simp: dispatch_route_def split: mux_result.splits)
    then show ?thesis using handled_writers(4) [OF polite_refl, of r rp] by (auto simp: answer_def handled_def)
  qed
  then show "serves (dispatch_route mx (routes_of d))" "never_panics (dispatch_route mx (routes_of d))"
    unfolding serves_def never_panics_def by (auto split: prod.splits) (metis prod.exhaust fst_conv)
qed

section \<open>The stack\<close>

text \<open>The origin a browser is told it may share the reply with, for a list of configured origins.\<close>

definition allowed_origin :: "string list \<Rightarrow> http_request \<Rightarrow> string option" where
  "allowed_origin origins r =
    (let origin = hr_header r ''Origin'' in
     if origin = [] then None
     else if origins = [''*''] then Some ''*''
     else if origin \<in> set origins then Some origin else None)"

text \<open>What a reply of the stack below the request id has kept and gained.\<close>

definition stack_reply :: "router_deps \<Rightarrow> http_request \<Rightarrow> reply \<Rightarrow> reply \<Rightarrow> bool" where
  "stack_reply d r rp rp' \<longleftrightarrow> log_frame r rp rp'
     \<and> map_of (rp_headers rp') RequestIDHeader = map_of (rp_headers rp) RequestIDHeader
     \<and> map_of (rp_headers rp') AllowOrigin = (case allowed_origin (rd_origins d) r of
          None \<Rightarrow> map_of (rp_headers rp) AllowOrigin | Some v \<Rightarrow> Some v)"

lemma stack_reply_polite:
  "stack_reply d r rp rp1 \<Longrightarrow> polite r rp1 rp2 \<Longrightarrow> stack_reply d r rp rp2"
  "polite r rp rp1 \<Longrightarrow> stack_reply d r rp1 rp2 \<Longrightarrow> stack_reply d r rp rp2"
  using log_frame_trans by (auto simp: stack_reply_def polite_def reserved_def split: option.splits)

definition stacked :: "router_deps \<Rightarrow> site endpoint \<Rightarrow> bool" where
  "stacked d E \<longleftrightarrow> (\<forall>r rp s. case E r rp s of (p, rp', s') \<Rightarrow> stack_reply d r rp rp' \<and> (p = None \<longrightarrow> answered rp'))"

lemma serves_wrap:
  assumes "serves E" "\<And>r s. FromContext (f r s) = FromContext r"
  shows "serves (\<lambda>r rp s. E (f r s) rp s)"
  unfolding serves_def
proof (intro allI)
  fix r rp s
  obtain p rp' s' where e: "E (f r s) rp s = (p, rp', s')" by (metis prod.exhaust)
  from serves_later [OF assms(1) this assms(2) polite_refl] e
  show "case E (f r s) rp s of (p, rp', s') \<Rightarrow> polite r rp rp' \<and> (p = None \<longrightarrow> answered rp')" by simp
qed

lemma BodyLimit_serves: "serves E \<Longrightarrow> serves (BodyLimit n E)" "never_panics E \<Longrightarrow> never_panics (BodyLimit n E)"
  using serves_wrap [of E "\<lambda>r s. r\<lparr>hr_limit := Some n\<rparr>"]
  by (simp_all add: BodyLimit_def [abs_def] never_panics_def FromContext_def)

lemma Timeout_serves: "serves E \<Longrightarrow> serves (Timeout_mw now t E)" "never_panics E \<Longrightarrow> never_panics (Timeout_mw now t E)"
  using serves_wrap [of E "\<lambda>r s. r\<lparr>hr_deadline := Some (case hr_deadline r of None \<Rightarrow> now s + t | Some t0 \<Rightarrow> min t0 (now s + t))\<rparr>"]
  by (simp_all add: Timeout_mw_def [abs_def] never_panics_def Let_def FromContext_def)

lemma cors_headers_reply:
  assumes "allowed_origin origins r = Some v" "hr_header r ''Origin'' = origin"
  shows "log_frame r rp (cors_headers \<lparr>AllowedOrigins = origins, AllowCredentials = False, MaxAge = a\<rparr> origin rp)"
    and "map_of (rp_headers (cors_headers \<lparr>AllowedOrigins = origins, AllowCredentials = False, MaxAge = a\<rparr> origin rp)) RequestIDHeader
      = map_of (rp_headers rp) RequestIDHeader"
    and "map_of (rp_headers (cors_headers \<lparr>AllowedOrigins = origins, AllowCredentials = False, MaxAge = a\<rparr> origin rp)) AllowOrigin = Some v"
  using assms
  by (auto simp: cors_headers_def allow_all_def allowed_origin_def add_header_def log_frame_same Let_def update_conv'
      map_add_def RequestIDHeader_def AllowOrigin_def split: if_splits option.splits)

lemma CORS_stacked:
  assumes "serves E"
  shows "stacked d (CORS \<lparr>AllowedOrigins = rd_origins d, AllowCredentials = False, MaxAge = a\<rparr> E)" (is "stacked d (CORS ?cfg E)")
  unfolding stacked_def
proof (intro allI)
  fix r rp s
  obtain p rp' s' where e: "CORS ?cfg E r rp s = (p, rp', s')" by (metis prod.exhaust)
  have "stack_reply d r rp rp' \<and> (p = None \<longrightarrow> answered rp')"
  proof (cases "allowed_origin (rd_origins d) r")
    case None
    have plain: "stack_reply d r rp q" if "polite r rp q" for q
      using that None by (simp add: stack_reply_def polite_def reserved_def)
    from None e have "E r rp s = (p, rp', s') \<or> p = None \<and> rp' = write_header 204 rp"
      by (auto simp: CORS_def allowed_origin_def allow_all_def Let_def split: if_splits)
    with servesD [OF assms, of r rp s p rp' s'] plain polite_write(1) [of r rp 204] show ?thesis by auto
  next
    case (Some v)
    let ?rp = "cors_headers ?cfg (hr_header r ''Origin'') rp"
    have allowed: "stack_reply d r rp ?rp"
      using cors_headers_reply [OF Some refl] Some by (simp add: stack_reply_def)
    from Some e have "E r ?rp s = (p, rp', s') \<or> p = None \<and> polite r ?rp rp' \<and> answered rp'"
      by (auto simp: CORS_def allowed_origin_def allow_all_def Let_def split: if_splits
          intro!: polite_trans [OF _ polite_write(1)] polite_add_headers polite_set_headers content_headers)
    with servesD [OF assms, of r ?rp s p rp' s'] stack_reply_polite(1) [OF allowed] show ?thesis by auto
  qed
  with e show "case CORS ?cfg E r rp s of (p, rp', s') \<Rightarrow> stack_reply d r rp rp' \<and> (p = None \<longrightarrow> answered rp')" by simp
qed

lemma SecurityHeaders_stacked:
  assumes "stacked d E"
  shows "stacked d (SecurityHeaders E)"
  unfolding stacked_def
proof (intro allI)
  fix r rp s
  let ?rp = "set_header ''Referrer-Policy'' ''no-referrer'' (set_header ''X-Frame-Options'' ''DENY''
           (set_header ''X-Content-Type-Options'' ''nosniff'' rp))"
  have "polite r rp ?rp" "polite r rp (set_header ''Cache-Control'' ''no-store'' ?rp)"
    by (intro polite_set_headers content_headers polite_refl)+
  then obtain rp1 where rp1: "polite r rp rp1" "SecurityHeaders E r rp s = E r rp1 s"
    by (cases "hr_header r ''Authorization'' = []") (auto simp: SecurityHeaders_def Let_def)
  obtain p rp' s' where e: "E r rp1 s = (p, rp', s')" by (metis prod.exhaust)
  with assms have "stack_reply d r rp1 rp' \<and> (p = None \<longrightarrow> answered rp')"
    unfolding stacked_def by (metis (mono_tags, lifting) case_prod_conv)
  with stack_reply_polite(2) [OF rp1(1)] rp1(2) e
  show "case SecurityHeaders E r rp s of (p, rp', s') \<Rightarrow> stack_reply d r rp rp' \<and> (p = None \<longrightarrow> answered rp')" by simp
qed

lemma stackedD: "stacked d E \<Longrightarrow> E r rp s = (p, rp', s') \<Longrightarrow> stack_reply d r rp rp' \<and> (p = None \<longrightarrow> answered rp')"
  unfolding stacked_def by (metis (mono_tags, lifting) case_prod_conv)

text \<open>Only an abort gets past the recoverer; any other panic is answered.\<close>

lemma Recoverer_stacked:
  assumes "stacked d E" "Recoverer stack E r rp s = (p, rp', s')"
  shows "stack_reply d r rp rp'" "p = None \<longrightarrow> answered rp'" "p = None \<or> abort_panic (the p)"
proof -
  obtain q rp1 s1 where e: "E r rp s = (q, rp1, s1)" by (metis prod.exhaust)
  note i = stackedD [OF assms(1) e]
  have "handled r rp1 (WriteError r (Some err) (log_to r l m as rp1))" for err l m as
    by (rule handled_writers(4) [OF polite_log])
  with i stack_reply_polite(1) [of d r rp rp1] e assms(2)
  show "stack_reply d r rp rp'" "p = None \<longrightarrow> answered rp'" "p = None \<or> abort_panic (the p)"
    by (auto simp: Recoverer_def handled_def split: option.splits if_splits)
qed

text \<open>The id a request is served under: the client's, when it is safe to log, else a fresh one.\<close>

definition request_id_of :: "router_deps \<Rightarrow> http_request \<Rightarrow> site \<Rightarrow> string" where
  "request_id_of d r s =
    (let given = sanitizeRequestID (hr_header r RequestIDHeader) in if given = [] then fst (fresh_id d s) else given)"

definition served_as :: "router_deps \<Rightarrow> http_request \<Rightarrow> site \<Rightarrow> http_request" where
  "served_as d r s = WithRequestID r (request_id_of d r s)"

lemma RequestID_mw_next:
  obtains s1 where "RequestID_mw (fresh_id d) E r rp s
    = E (served_as d r s) (set_header RequestIDHeader (request_id_of d r s) rp) s1"
proof (cases "sanitizeRequestID (hr_header r RequestIDHeader) = []")
  case True
  then show ?thesis
    using that by (cases "fresh_id d s") (simp add: RequestID_mw_def served_as_def request_id_of_def)
next
  case False
  then show ?thesis
    using that [of s] by (simp add: RequestID_mw_def served_as_def request_id_of_def Let_def)
qed

lemma access_line_log [simp]: "access_line x r (rp\<lparr>rp_log := l\<rparr>) = access_line x r rp"
  by (simp add: access_line_def)

lemma Logger_reply:
  assumes "stack_reply d (WithLogger r (request_attrs r)) rp rp1"
  shows "\<exists>ls. rp_log rp1 = rp_log rp @ ls \<and> (\<forall>ll \<in> set ls. \<exists>as. ll_attrs ll = request_attrs r @ as)"
    and "map_of (rp_headers rp1) RequestIDHeader = map_of (rp_headers rp) RequestIDHeader"
    and "map_of (rp_headers rp1) AllowOrigin = (case allowed_origin (rd_origins d) r of
          None \<Rightarrow> map_of (rp_headers rp) AllowOrigin | Some v \<Rightarrow> Some v)"
  using assms by (simp_all add: stack_reply_def log_frame_def) (simp add: WithLogger_def allowed_origin_def)

lemma stack_answers:
  assumes E: "serves E" and run: "with_middleware d stack E r rp s = (p, rp', s')"
  shows "p = None \<or> abort_panic (the p)"
    and "p = None \<Longrightarrow> answered rp'"
    and "map_of (rp_headers rp') RequestIDHeader = Some (request_id_of d r s)"
    and "map_of (rp_headers rp') AllowOrigin = (case allowed_origin (rd_origins d) r of
          None \<Rightarrow> map_of (rp_headers rp) AllowOrigin | Some v \<Rightarrow> Some v)"
    and "p = None \<Longrightarrow> \<exists>ls. rp_log rp' = rp_log rp @ ls @ [access_line (rd_ext d) (served_as d r s) rp']
      \<and> (\<forall>ll \<in> set ls. \<exists>as. ll_attrs ll = request_attrs (served_as d r s) @ as)"
proof -
  let ?cors = "\<lparr>AllowedOrigins = rd_origins d, AllowCredentials = False, MaxAge = 0\<rparr>"
  let ?E = "SecurityHeaders (CORS ?cors (global_limit d (Timeout_mw site_clock (rd_handler_timeout d)
      (BodyLimit (rd_max_body d) E))))"
  let ?r = "served_as d r s" and ?rp = "set_header RequestIDHeader (request_id_of d r s) rp"
  have st: "stacked d ?E"
    by (intro SecurityHeaders_stacked CORS_stacked global_limit_serves(1) Timeout_serves(1) BodyLimit_serves(1) E)
  obtain s1 where "RequestID_mw (fresh_id d) (Logger_mw (rd_ext d) (Recoverer stack ?E)) r rp s
      = Logger_mw (rd_ext d) (Recoverer stack ?E) ?r ?rp s1"
    by (rule RequestID_mw_next)
  with run have log: "Logger_mw (rd_ext d) (Recoverer stack ?E) ?r ?rp s1 = (p, rp', s')"
    by (simp only: with_middleware_def)
  obtain q rp1 s2 where rec: "Recoverer stack ?E (WithLogger ?r (request_attrs ?r)) ?rp s1 = (q, rp1, s2)"
    by (metis prod.exhaust)
  have res: "p = q" "if p = None then rp' = rp1\<lparr>rp_log := rp_log rp1 @ [access_line (rd_ext d) ?r rp1]\<rparr> else rp' = rp1"
    using log [unfolded Logger_mw_def rec] by (cases q; auto)+
  note keep = Recoverer_stacked [OF st rec] and logged = Logger_reply [OF Recoverer_stacked(1) [OF st rec]]
  have hdr: "rp_headers rp' = rp_headers rp1" "rp_status rp' = rp_status rp1" using res(2) by (auto split: if_splits)
  show "p = None \<or> abort_panic (the p)" using keep(3) res(1) by simp
  show "p = None \<Longrightarrow> answered rp'" using keep(2) res(1) hdr by (simp add: answered_def)
  show "map_of (rp_headers rp') RequestIDHeader = Some (request_id_of d r s)"
    using logged(2) hdr by (simp add: update_conv')
  have "RequestIDHeader \<noteq> AllowOrigin" by (simp add: RequestIDHeader_def AllowOrigin_def)
  then show "map_of (rp_headers rp') AllowOrigin = (case allowed_origin (rd_origins d) r of
          None \<Rightarrow> map_of (rp_headers rp) AllowOrigin | Some v \<Rightarrow> Some v)"
    using logged(3) hdr
    by (simp add: update_conv' served_as_def WithRequestID_def allowed_origin_def split: option.splits)
  assume "p = None"
  then show "\<exists>ls. rp_log rp' = rp_log rp @ ls @ [access_line (rd_ext d) ?r rp']
      \<and> (\<forall>ll \<in> set ls. \<exists>as. ll_attrs ll = request_attrs ?r @ as)"
    using logged(1) res(2) by auto
qed

text \<open>What the client of a panicking endpoint gets, if nothing was written yet.\<close>

lemma Recoverer_answers_panic:
  assumes "E r rp s = (Some v, rp1, s1)" "\<not> abort_panic v" "unanswered rp1"
  shows "\<exists>rp2 e. Recoverer stack E r rp s = (None, rp2, s1) \<and> rp_status rp2 = Some (err_status e)
    \<and> rp_body rp2 = Some (error_envelope e (RequestID r))
    \<and> client_view e \<in> {(CodeTimeout, 504, ''the request took too long to process'', []),
     (CodeBadRequest, 499, ''client closed the request'', []),
     (CodeInternal, 500, ''an internal error occurred'', [])}"
proof -
  let ?e = "Internal (errFromPanic v)"
  have "From (Some ?e) = Some ?e" by (simp add: From_def)
  then show ?thesis
    using assms WriteError_answers(1,2) [of "log_to r LevelError m as rp1" ?e _ r for m as] client_view_Internal [of "errFromPanic v"]
    by (auto simp: Recoverer_def intro!: exI [of _ ?e])
qed

lemma layers_never_panic:
  assumes "never_panics E"
  shows "never_panics (CORS cfg E)" "never_panics (SecurityHeaders E)" "never_panics (Recoverer stack E)"
    "never_panics (Logger_mw x E)" "never_panics (RequestID_mw fresh E)"
  using assms
  by (auto simp: never_panics_def CORS_def SecurityHeaders_def Recoverer_def Logger_mw_def RequestID_mw_def Let_def
      split: prod.splits option.splits if_splits) (metis fst_conv option.distinct(1))+

lemma router_never_panics: "never_panics (newRouter d mx stack)"
  unfolding newRouter_def with_middleware_def
  by (intro layers_never_panic global_limit_serves Timeout_serves BodyLimit_serves dispatch_serves)

section \<open>Properties\<close>


text \<open>C35: a reply names an origin for the browser exactly when the request came from an origin on the
  configured list, and then that origin; only the list of the single entry * is answered with *.\<close>

theorem only_listed_origins_are_allowed:
  assumes "newRouter d mx stack r rp s = (p, rp', s')" and "map_of (rp_headers rp) AllowOrigin = None"
  shows "map_of (rp_headers rp') AllowOrigin = Some v \<longleftrightarrow> hr_header r ''Origin'' \<noteq> []
    \<and> (if rd_origins d = [''*''] then v = ''*'' else v = hr_header r ''Origin'' \<and> v \<in> set (rd_origins d))"
  using stack_answers(4) [OF dispatch_serves(1) assms(1) [unfolded newRouter_def]] assms(2)
  by (auto simp: allowed_origin_def Let_def)


section \<open>Witnesses\<close>


theorem only_listed_origins_are_allowed_witness:
  "\<exists>rp s. newRouter (sample_deps\<lparr>rd_origins := [''https://a.io'']\<rparr>) exact_mux []
      (sample_request ''GET'' ''/docs'' [(''Origin'', ''https://b.io'')]) blank_reply (sample_site empty_world) = (None, rp, s)
    \<and> map_of (rp_headers rp) AllowOrigin = None"
proof -
  let ?d = "sample_deps\<lparr>rd_origins := [''https://a.io'']\<rparr>" and ?r = "sample_request ''GET'' ''/docs'' [(''Origin'', ''https://b.io'')]"
  obtain p rp s where run: "newRouter ?d exact_mux [] ?r blank_reply (sample_site empty_world) = (p, rp, s)"
    by (metis prod.exhaust)
  have p: "p = None" using router_never_panics [of ?d exact_mux "[]"] run by (metis fst_conv never_panics_def)
  have "map_of (rp_headers blank_reply) AllowOrigin = None" by (simp add: blank_reply_def)
  note only_listed_origins_are_allowed [OF run this]
  then have "map_of (rp_headers rp) AllowOrigin \<noteq> Some v" for v by (simp add: sample_request_def)
  then have "map_of (rp_headers rp) AllowOrigin = None" by (cases "map_of (rp_headers rp) AllowOrigin") auto
  with run p show ?thesis by blast
qed


end
