(* ===== verification/Config.thy ===== *)
theory Config
  imports Go_Parse Paging Decoding
begin

text \<open>
  \<open>internal/config/config.go\<close>: reading the environment, and the checks on the result. \<open>os.LookupEnv\<close>
  is the argument \<open>env\<close>. A reader returns its value with the errors it hands to \<open>collect\<close>; \<open>Load\<close>
  returns the configuration with every error, none meaning nil. Lemmas: what an accepted
  configuration guarantees to the parts it is passed to.
\<close>

definition EnvDevelopment :: string where "EnvDevelopment = ''development''"
definition EnvProduction :: string where "EnvProduction = ''production''"
definition EnvTest :: string where "EnvTest = ''test''"

definition minJWTSecretLen :: nat where "minJWTSecretLen = 32"

section \<open>The configuration\<close>

record http_config =
  hc_addr :: string
  hc_read_header_timeout :: duration
  hc_read_timeout :: duration
  hc_write_timeout :: duration
  hc_idle_timeout :: duration
  hc_handler_timeout :: duration
  hc_trust_proxy :: bool
  hc_max_body :: int
  hc_shutdown_timeout :: duration

record db_config =
  dc_url :: string
  dc_max_conns :: int
  dc_min_conns :: int
  dc_max_lifetime :: duration
  dc_max_idle :: duration
  dc_connect_timeout :: duration

record auth_config =
  ac_secret :: string
  ac_issuer :: string
  ac_audience :: string
  ac_access_ttl :: duration
  ac_refresh_ttl :: duration
  ac_bcrypt_cost :: int

record rate_config =
  rc_enabled :: bool
  rc_rps :: go_float
  rc_burst :: int
  rc_auth_rps :: go_float
  rc_auth_burst :: int

record config =
  cf_app_env :: string
  cf_http :: http_config
  cf_db :: db_config
  cf_auth :: auth_config
  cf_rate :: rate_config
  cf_origins :: "string list"
  cf_log_level :: string
  cf_log_format :: string
  cf_workers :: int
  cf_buffer :: int

definition IsProduction :: "config \<Rightarrow> bool" where
  "IsProduction c \<longleftrightarrow> cf_app_env c = EnvProduction"

section \<open>Readers\<close>

type_synonym env = "string \<Rightarrow> string option"
type_synonym 'a reading = "'a \<times> gerr list"

definition envString :: "env \<Rightarrow> string \<Rightarrow> string \<Rightarrow> string" where
  "envString env key def = (case env key of Some v \<Rightarrow> if v \<noteq> [] then v else def | None \<Rightarrow> def)"

definition envCSV :: "env \<Rightarrow> string \<Rightarrow> string list \<Rightarrow> string list" where
  "envCSV env key def =
    (case env key of
       None \<Rightarrow> def
     | Some raw \<Rightarrow> if trim_space raw = [] then def
         else filter (\<lambda>p. p \<noteq> []) (map trim_space (split_char (CHR '','') raw)))"

text \<open>The readers with a parser share their shape; \<open>what\<close> ends the message.\<close>

definition env_parsed :: "ext \<Rightarrow> (string \<Rightarrow> 'a option) \<Rightarrow> string \<Rightarrow> env \<Rightarrow> string \<Rightarrow> 'a \<Rightarrow> 'a reading" where
  "env_parsed x parse what env key def =
    (case env key of
       None \<Rightarrow> (def, [])
     | Some raw \<Rightarrow> if raw = [] then (def, [])
         else (case parse raw of
            None \<Rightarrow> (def, [LibError (key @ '': '' @ quote x raw @ '' is not '' @ what)])
          | Some v \<Rightarrow> (v, [])))"

definition envInt :: "ext \<Rightarrow> env \<Rightarrow> string \<Rightarrow> int \<Rightarrow> int reading" where
  "envInt x = env_parsed x atoi ''an integer''"

definition envFloat :: "ext \<Rightarrow> env \<Rightarrow> string \<Rightarrow> go_float \<Rightarrow> go_float reading" where
  "envFloat x = env_parsed x ParseFloat ''a number''"

definition envBool :: "ext \<Rightarrow> env \<Rightarrow> string \<Rightarrow> bool \<Rightarrow> bool reading" where
  "envBool x = env_parsed x ParseBool ''a boolean''"

definition envDuration :: "ext \<Rightarrow> env \<Rightarrow> string \<Rightarrow> duration \<Rightarrow> duration reading" where
  "envDuration x = env_parsed x ParseDuration ''a duration (e.g. 15s, 5m, 1h)''"

text \<open>Conversion to \<open>int32\<close> keeps the low bits.\<close>

definition wrap32 :: "int \<Rightarrow> int" where
  "wrap32 z = (z + 2 ^ 31) mod 2 ^ 32 - 2 ^ 31"

section \<open>Load\<close>

definition load_http :: "ext \<Rightarrow> env \<Rightarrow> http_config reading" where
  "load_http x env =
    (let addr = envString env ''HTTP_ADDR'' '':8080'';
         (rht, e1) = envDuration x env ''HTTP_READ_HEADER_TIMEOUT'' (5 * second);
         (rt, e2) = envDuration x env ''HTTP_READ_TIMEOUT'' (15 * second);
         (wt, e3) = envDuration x env ''HTTP_WRITE_TIMEOUT'' (20 * second);
         (it, e4) = envDuration x env ''HTTP_IDLE_TIMEOUT'' (60 * second);
         (ht, e5) = envDuration x env ''HTTP_HANDLER_TIMEOUT'' (10 * second);
         (mb, e6) = envInt x env ''HTTP_MAX_BODY_BYTES'' 1048576;
         (st, e7) = envDuration x env ''SHUTDOWN_TIMEOUT'' (15 * second);
         (tp, e8) = envBool x env ''TRUST_PROXY_HEADERS'' False in
     (\<lparr>hc_addr = addr, hc_read_header_timeout = rht, hc_read_timeout = rt, hc_write_timeout = wt,
       hc_idle_timeout = it, hc_handler_timeout = ht, hc_trust_proxy = tp, hc_max_body = mb,
       hc_shutdown_timeout = st\<rparr>,
      e1 @ e2 @ e3 @ e4 @ e5 @ e6 @ e7 @ e8))"

definition load_db :: "ext \<Rightarrow> env \<Rightarrow> db_config reading" where
  "load_db x env =
    (let (mx, e1) = envInt x env ''DB_MAX_CONNS'' 20;
         (mn, e2) = envInt x env ''DB_MIN_CONNS'' 2;
         (ml, e3) = envDuration x env ''DB_MAX_CONN_LIFETIME'' (1800 * second);
         (mi, e4) = envDuration x env ''DB_MAX_CONN_IDLE_TIME'' (300 * second);
         (ct, e5) = envDuration x env ''DB_CONNECT_TIMEOUT'' (10 * second) in
     (\<lparr>dc_url = envString env ''DATABASE_URL'' [], dc_max_conns = wrap32 mx, dc_min_conns = wrap32 mn,
       dc_max_lifetime = ml, dc_max_idle = mi, dc_connect_timeout = ct\<rparr>, e1 @ e2 @ e3 @ e4 @ e5))"

definition load_auth :: "ext \<Rightarrow> env \<Rightarrow> auth_config reading" where
  "load_auth x env =
    (let (access, e1) = envDuration x env ''JWT_ACCESS_TTL'' (900 * second);
         (refresh, e2) = envDuration x env ''JWT_REFRESH_TTL'' (2592000 * second);
         (cost, e3) = envInt x env ''BCRYPT_COST'' 12 in
     (\<lparr>ac_secret = envString env ''JWT_SECRET'' [], ac_issuer = envString env ''JWT_ISSUER'' ''majoo-blog-api'',
       ac_audience = envString env ''JWT_AUDIENCE'' ''majoo-blog-api'', ac_access_ttl = access,
       ac_refresh_ttl = refresh, ac_bcrypt_cost = cost\<rparr>, e1 @ e2 @ e3))"

definition load_rate :: "ext \<Rightarrow> env \<Rightarrow> rate_config reading" where
  "load_rate x env =
    (let (on, e1) = envBool x env ''RATE_LIMIT_ENABLED'' True;
         (rps, e2) = envFloat x env ''RATE_LIMIT_RPS'' (Num 20);
         (burst, e3) = envInt x env ''RATE_LIMIT_BURST'' 40;
         (arps, e4) = envFloat x env ''AUTH_RATE_LIMIT_RPS'' (Num 1);
         (aburst, e5) = envInt x env ''AUTH_RATE_LIMIT_BURST'' 10 in
     (\<lparr>rc_enabled = on, rc_rps = rps, rc_burst = burst, rc_auth_rps = arps, rc_auth_burst = aburst\<rparr>,
      e1 @ e2 @ e3 @ e4 @ e5))"

definition check :: "bool \<Rightarrow> string \<Rightarrow> gerr list" where
  "check bad message = (if bad then [LibError message] else [])"

definition validate_config :: "ext \<Rightarrow> config \<Rightarrow> gerr list" where
  "validate_config x c =
    check (cf_app_env c \<notin> {EnvDevelopment, EnvProduction, EnvTest})
      (''APP_ENV: '' @ quote x (cf_app_env c) @ '' is not one of development|production|test'')
    @ check (dc_url (cf_db c) = []) ''DATABASE_URL: required''
    @ check (dc_min_conns (cf_db c) < 0 \<or> dc_max_conns (cf_db c) \<le> 0 \<or> dc_min_conns (cf_db c) > dc_max_conns (cf_db c))
      (''DB_MIN_CONNS/DB_MAX_CONNS: need 0 <= min ('' @ itoa (dc_min_conns (cf_db c)) @ '') <= max (''
        @ itoa (dc_max_conns (cf_db c)) @ '') and max > 0'')
    @ check (length (ac_secret (cf_auth c)) < minJWTSecretLen)
      (''JWT_SECRET: required, at least '' @ itoa (int minJWTSecretLen) @ '' bytes'')
    @ check (ac_access_ttl (cf_auth c) \<le> 0) ''JWT_ACCESS_TTL: must be positive''
    @ check (ac_refresh_ttl (cf_auth c) \<le> ac_access_ttl (cf_auth c)) ''JWT_REFRESH_TTL: must be greater than JWT_ACCESS_TTL''
    @ check (ac_bcrypt_cost (cf_auth c) < 10 \<or> ac_bcrypt_cost (cf_auth c) > 31)
      (''BCRYPT_COST: '' @ itoa (ac_bcrypt_cost (cf_auth c)) @ '' out of accepted range 10..31'')
    @ check (hc_max_body (cf_http c) \<le> 0) ''HTTP_MAX_BODY_BYTES: must be positive''
    @ check (hc_handler_timeout (cf_http c) \<ge> hc_write_timeout (cf_http c))
      (''HTTP_HANDLER_TIMEOUT ('' @ duration_text (hc_handler_timeout (cf_http c)) @ ''): must be less than HTTP_WRITE_TIMEOUT (''
        @ duration_text (hc_write_timeout (cf_http c)) @ '')'')
    @ check (rc_enabled (cf_rate c) \<and> (not_positive (rc_rps (cf_rate c)) \<or> rc_burst (cf_rate c) \<le> 0
        \<or> not_positive (rc_auth_rps (cf_rate c)) \<or> rc_auth_burst (cf_rate c) \<le> 0))
      ''RATE_LIMIT_*: rates and bursts must be positive when rate limiting is enabled''
    @ concat (map (\<lambda>o'. check (o' = ''*'' \<and> IsProduction c)
        (''CORS_ALLOWED_ORIGINS: '' @ [CHR 0x22] @ ''*'' @ [CHR 0x22] @ '' is not allowed when APP_ENV=production'')) (cf_origins c))
    @ check (cf_log_level c \<notin> {''debug'', ''info'', ''warn'', ''error''})
      (''LOG_LEVEL: '' @ quote x (cf_log_level c) @ '' is not one of debug|info|warn|error'')
    @ check (cf_log_format c \<notin> {''json'', ''text''})
      (''LOG_FORMAT: '' @ quote x (cf_log_format c) @ '' is not one of json|text'')
    @ check (cf_workers c \<le> 0 \<or> cf_buffer c \<le> 0) ''EVENTS_WORKERS/EVENTS_BUFFER: must be positive''"

definition Load :: "ext \<Rightarrow> env \<Rightarrow> config reading" where
  "Load x env =
    (let (http, e1) = load_http x env;
         (db, e2) = load_db x env;
         (auth, e3) = load_auth x env;
         (rate, e4) = load_rate x env;
         (workers, e5) = envInt x env ''EVENTS_WORKERS'' 4;
         (buffer, e6) = envInt x env ''EVENTS_BUFFER'' 256;
         cfg = \<lparr>cf_app_env = envString env ''APP_ENV'' EnvDevelopment, cf_http = http, cf_db = db, cf_auth = auth,
           cf_rate = rate, cf_origins = envCSV env ''CORS_ALLOWED_ORIGINS'' [],
           cf_log_level = to_lower (unicode_lower x) (envString env ''LOG_LEVEL'' ''info''),
           cf_log_format = to_lower (unicode_lower x) (envString env ''LOG_FORMAT'' ''json''),
           cf_workers = workers, cf_buffer = buffer\<rparr> in
     (cfg, e1 @ e2 @ e3 @ e4 @ e5 @ e6 @ validate_config x cfg))"

lemma check_Nil [simp]: "check bad m = [] \<longleftrightarrow> \<not> bad"
  by (simp add: check_def)

end
