(* ===== verification/Pool.thy ===== *)
theory Pool
  imports Config
begin

text \<open>
  \<open>Connect\<close> of \<open>internal/platform/postgres/postgres.go\<close>: the connection pool of both programs. The
  driver (pgxpool) is an argument: how it parses a URL, opens a pool, and pings it within a deadline.
  A result comes with the pools that were closed again. Lemmas: a pool is handed out only after it
  has answered, with the configured limits, and otherwise none is left open.
\<close>

record pool_config =
  pc_max_conns :: int
  pc_min_conns :: int
  pc_max_lifetime :: duration
  pc_max_idle :: duration
  pc_connect_timeout :: duration
  pc_lifetime_jitter :: duration

record 'p pg_driver =
  pd_parse :: "string \<Rightarrow> gerr + pool_config"
  pd_open :: "pool_config \<Rightarrow> gerr + 'p"
  pd_ping :: "'p \<Rightarrow> duration \<Rightarrow> gerr option"

text \<open>What \<open>Connect\<close> sets in the parsed configuration; the division truncates.\<close>

definition configured :: "db_config \<Rightarrow> pool_config \<Rightarrow> pool_config" where
  "configured cfg pc = pc\<lparr>pc_max_conns := dc_max_conns cfg, pc_min_conns := dc_min_conns cfg,
     pc_max_lifetime := dc_max_lifetime cfg, pc_max_idle := dc_max_idle cfg,
     pc_connect_timeout := dc_connect_timeout cfg, pc_lifetime_jitter := quot (dc_max_lifetime cfg) 10\<rparr>"

definition Connect :: "'p pg_driver \<Rightarrow> db_config \<Rightarrow> (gerr + 'p) \<times> 'p list" where
  "Connect d cfg =
    (case pd_parse d (dc_url cfg) of
       Inl e \<Rightarrow> (Inl (Wrapf ''parse DATABASE_URL'' [e]), [])
     | Inr pc \<Rightarrow>
        (case pd_open d (configured cfg pc) of
           Inl e \<Rightarrow> (Inl (Wrapf ''create connection pool'' [e]), [])
         | Inr p \<Rightarrow>
            (case pd_ping d p (dc_connect_timeout cfg) of
               Some e \<Rightarrow> (Inl (Wrapf ''ping database'' [e]), [p])
             | None \<Rightarrow> (Inr p, []))))"

text \<open>The pool \<open>Connect\<close> opens, if it gets that far.\<close>

definition opened :: "'p pg_driver \<Rightarrow> db_config \<Rightarrow> 'p option" where
  "opened d cfg = (case pd_parse d (dc_url cfg) of Inl e \<Rightarrow> None | Inr pc \<Rightarrow>
     (case pd_open d (configured cfg pc) of Inl e \<Rightarrow> None | Inr p \<Rightarrow> Some p))"

lemma Connect_ok:
  assumes "Connect d cfg = (Inr p, released)"
  shows "opened d cfg = Some p" "released = []" "pd_ping d p (dc_connect_timeout cfg) = None"
    and "\<exists>pc. pd_parse d (dc_url cfg) = Inr pc \<and> pd_open d (configured cfg pc) = Inr p"
  using assms by (auto simp: Connect_def opened_def split: sum.splits option.splits)

lemma Connect_error:
  "Connect d cfg = (Inl e, released) \<Longrightarrow> released = (case opened d cfg of None \<Rightarrow> [] | Some p \<Rightarrow> [p])"
  by (auto simp: Connect_def opened_def split: sum.splits option.splits)

end
