(* ===== verification/Event_Bus.thy ===== *)
theory Event_Bus
  imports "HOL-Library.Multiset" "HOL-Library.Sublist" Database
begin

text \<open>
  \<open>internal/platform/events\<close>: the bounded event bus. Its state is the channel, the flags, the counters
  and what its workers hold; publishers, workers and shutdown interleave as steps. Ghost lists record
  which events were accepted, in channel order, and which were handled. What a handler does is its own;
  the bus sees of it only whether it panics. Lemmas: nothing is handled
  twice, out of nowhere or after being dropped, the queue is bounded, and a shutdown that reports
  success has handled every accepted event.
\<close>

section \<open>State and operations\<close>

record bus =
  bu_queue :: "event list"
  bu_capacity :: nat
  bu_workers :: nat
  bu_handlers :: nat
  bu_started :: bool
  bu_closed :: bool
  bu_channel_closed :: bool
  bu_busy :: "event list"
  bu_idle :: nat
  bu_published :: nat
  bu_dropped :: nat
  bu_accepted :: "event list"
  bu_handled :: "(nat \<times> event) list"
  bu_log :: "log_line list"

definition NewBus :: "int \<Rightarrow> int \<Rightarrow> bus" where
  "NewBus workers buffer =
    \<lparr>bu_queue = [], bu_capacity = nat (max 1 buffer), bu_workers = nat (max 1 workers), bu_handlers = 0,
     bu_started = False, bu_closed = False, bu_channel_closed = False, bu_busy = [], bu_idle = 0,
     bu_published = 0, bu_dropped = 0, bu_accepted = [], bu_handled = [], bu_log = []\<rparr>"

text \<open>\<open>None\<close> is a panic.\<close>

definition Subscribe :: "bus \<Rightarrow> bus option" where
  "Subscribe b = (if bu_started b then None else Some (b\<lparr>bu_handlers := Suc (bu_handlers b)\<rparr>))"

definition Start :: "bus \<Rightarrow> bus option" where
  "Start b = (if bu_started b then None else Some (b\<lparr>bu_started := True, bu_idle := bu_workers b\<rparr>))"

definition stamp :: "string \<Rightarrow> time \<Rightarrow> event \<Rightarrow> event" where
  "stamp rid now e = e\<lparr>ev_time := Some (case ev_time e of None \<Rightarrow> now | Some t \<Rightarrow> t),
     ev_request := (if ev_request e = [] then rid else ev_request e)\<rparr>"

text \<open>\<open>Publish\<close> after its check of \<open>closed\<close>: the non-blocking send; on a closed channel it panics and
  the deferred function counts the event as dropped.\<close>

definition drop_event :: "bus \<Rightarrow> bus" where
  "drop_event b = b\<lparr>bu_dropped := Suc (bu_dropped b)\<rparr>"

definition queue_full :: "event \<Rightarrow> bus \<Rightarrow> log_line" where
  "queue_full e b = warn_line ''event dropped: queue full''
     [Attr ''event'' (ev_name e), Attr ''queue_capacity'' (itoa (int (bu_capacity b))),
      Attr ''dropped_total'' (itoa (int (bu_dropped b)))]"

definition send :: "event \<Rightarrow> bus \<Rightarrow> bus" where
  "send e b =
    (if bu_channel_closed b then drop_event b
     else if length (bu_queue b) < bu_capacity b
     then b\<lparr>bu_queue := bu_queue b @ [e], bu_published := Suc (bu_published b), bu_accepted := bu_accepted b @ [e]\<rparr>
     else (drop_event b)\<lparr>bu_log := bu_log b @ [queue_full e (drop_event b)]\<rparr>)"

definition Publish :: "string \<Rightarrow> time \<Rightarrow> event \<Rightarrow> bus \<Rightarrow> bus" where
  "Publish rid now e b = (let e' = stamp rid now e in if bu_closed b then drop_event b else send e' b)"

definition Stats :: "bus \<Rightarrow> nat \<times> nat \<times> nat" where
  "Stats b = (bu_published b, bu_dropped b, length (bu_queue b))"

text \<open>\<open>dispatch\<close>: every handler sees the event, in order of registration; a panicking handler
  (\<open>safeInvoke\<close>) has seen it too, and is logged, and does not keep it from the next. \<open>panics\<close> is the
  value a handler panics with, if it does.\<close>

definition safeInvoke :: "(nat \<Rightarrow> string option) \<Rightarrow> nat \<Rightarrow> event \<Rightarrow> bus \<Rightarrow> bus" where
  "safeInvoke panics h e b = b\<lparr>bu_handled := bu_handled b @ [(h, e)],
     bu_log := bu_log b @ (case panics h of None \<Rightarrow> []
       | Some p \<Rightarrow> [error_line ''event handler panicked'' [Attr ''event'' (ev_name e), Attr ''panic'' p]])\<rparr>"

definition dispatch :: "(nat \<Rightarrow> string option) \<Rightarrow> event \<Rightarrow> bus \<Rightarrow> bus" where
  "dispatch panics e b = fold (\<lambda>h. safeInvoke panics h e) [0..<bu_handlers b] b"

text \<open>What a handler finds in its context: ten seconds, and a logger that names event and request.\<close>

definition handlerTimeout :: duration where "handlerTimeout = 10 * second"

definition handler_logger :: "event \<Rightarrow> logger \<Rightarrow> logger" where
  "handler_logger e = With [Attr ''event'' (ev_name e), Attr ''request_id'' (ev_request e)]"

text \<open>\<open>Shutdown\<close> first stores \<open>closed\<close>, then closes the channel, once; it returns true when all workers
  have exited, and may give up at any time.\<close>

definition mark_closed :: "bus \<Rightarrow> bus" where "mark_closed b = b\<lparr>bu_closed := True\<rparr>"
definition close_channel :: "bus \<Rightarrow> bus" where "close_channel b = b\<lparr>bu_channel_closed := True\<rparr>"

definition drained :: "bus \<Rightarrow> bool" where
  "drained b \<longleftrightarrow> bu_closed b \<and> bu_channel_closed b \<and> bu_idle b = 0 \<and> bu_busy b = []"

text \<open>What \<open>Shutdown\<close> may return when its context has expired or not; both cases may be ready at once.\<close>

definition undrained :: "bus \<Rightarrow> log_line" where
  "undrained b = warn_line ''event bus shutdown timed out before draining''
     [Attr ''events_remaining'' (itoa (int (length (bu_queue b))))]"

definition Shutdown_returns :: "bus \<Rightarrow> bool \<Rightarrow> bool \<Rightarrow> bool" where
  "Shutdown_returns b expired clean \<longleftrightarrow> (if clean then drained b else expired)"

section \<open>Interleavings\<close>

text \<open>
  A publisher that has passed the check of \<open>closed\<close> may send at any later time, so \<open>late_send\<close> needs
  no check of it. A worker takes an event, dispatches it and comes back, or exits on a closed and
  empty channel.
\<close>

inductive worker_step :: "bus \<Rightarrow> bus \<Rightarrow> bool" where
  take: "bu_queue b = e # q \<Longrightarrow> 0 < bu_idle b \<Longrightarrow>
    worker_step b (b\<lparr>bu_queue := q, bu_idle := bu_idle b - 1, bu_busy := bu_busy b @ [e]\<rparr>)"
| finish: "e \<in> set (bu_busy b) \<Longrightarrow>
    worker_step b (dispatch panics e (b\<lparr>bu_busy := remove1 e (bu_busy b), bu_idle := Suc (bu_idle b)\<rparr>))"
| exit: "bu_queue b = [] \<Longrightarrow> bu_channel_closed b \<Longrightarrow> 0 < bu_idle b \<Longrightarrow> worker_step b (b\<lparr>bu_idle := bu_idle b - 1\<rparr>)"

inductive bus_step :: "bus \<Rightarrow> bus \<Rightarrow> bool" where
  subscribe: "Subscribe b = Some b' \<Longrightarrow> bus_step b b'"
| start: "Start b = Some b' \<Longrightarrow> bus_step b b'"
| publish: "bus_step b (Publish rid now e b)"
| late_send: "bus_step b (send e b)"
| work: "worker_step b b' \<Longrightarrow> bus_step b b'"
| close_flag: "bus_step b (mark_closed b)"
| close_queue: "bu_closed b \<Longrightarrow> bus_step b (close_channel b)"

inductive_cases bus_stepE: "bus_step b b'"
inductive_cases worker_stepE: "worker_step b b'"

definition bus_run :: "bus \<Rightarrow> bus \<Rightarrow> bool" where "bus_run = bus_step\<^sup>*\<^sup>*"

section \<open>The invariant\<close>

definition handled_by :: "nat \<Rightarrow> bus \<Rightarrow> event list" where
  "handled_by h b = map snd (filter (\<lambda>(k, e). k = h) (bu_handled b))"

definition bus_inv :: "bus \<Rightarrow> bool" where
  "bus_inv b \<longleftrightarrow> length (bu_queue b) \<le> bu_capacity b \<and> 0 < bu_workers b
     \<and> bu_published b = length (bu_accepted b)
     \<and> bu_idle b + length (bu_busy b) \<le> bu_workers b
     \<and> (bu_channel_closed b \<longrightarrow> bu_closed b)
     \<and> (\<not> bu_started b \<longrightarrow> bu_idle b = 0 \<and> bu_busy b = [] \<and> bu_handled b = [] \<and> bu_accepted b = bu_queue b)
     \<and> (bu_started b \<longrightarrow> bu_idle b + length (bu_busy b) < bu_workers b \<longrightarrow> bu_channel_closed b \<and> bu_queue b = [])
     \<and> (\<forall>h < bu_handlers b. mset (handled_by h b) + mset (bu_busy b) + mset (bu_queue b) = mset (bu_accepted b))
     \<and> (bu_workers b = 1 \<longrightarrow> (\<forall>h < bu_handlers b. handled_by h b @ bu_busy b @ bu_queue b = bu_accepted b))"

lemma dispatch_eq:
  "\<exists>ls. dispatch panics e b = b\<lparr>bu_handled := bu_handled b @ map (\<lambda>h. (h, e)) [0..<bu_handlers b], bu_log := bu_log b @ ls\<rparr>"
proof -
  have "\<exists>ls. fold (\<lambda>h. safeInvoke panics h e) hs b = b\<lparr>bu_handled := bu_handled b @ map (\<lambda>h. (h, e)) hs, bu_log := bu_log b @ ls\<rparr>"
    for hs and b :: bus
  proof (induction hs arbitrary: b)
    case Nil
    show ?case by (intro exI [of _ "[]"]) simp
  next
    case (Cons h hs)
    from Cons [of "safeInvoke panics h e b"] show ?case by (auto simp: safeInvoke_def)
  qed
  then show ?thesis by (simp add: dispatch_def)
qed

lemma dispatch_simps [simp]:
  "bu_queue (dispatch panics e b) = bu_queue b" "bu_capacity (dispatch panics e b) = bu_capacity b"
  "bu_workers (dispatch panics e b) = bu_workers b" "bu_handlers (dispatch panics e b) = bu_handlers b"
  "bu_started (dispatch panics e b) = bu_started b" "bu_closed (dispatch panics e b) = bu_closed b"
  "bu_channel_closed (dispatch panics e b) = bu_channel_closed b" "bu_busy (dispatch panics e b) = bu_busy b"
  "bu_idle (dispatch panics e b) = bu_idle b" "bu_published (dispatch panics e b) = bu_published b"
  "bu_dropped (dispatch panics e b) = bu_dropped b" "bu_accepted (dispatch panics e b) = bu_accepted b"
  "bu_handled (dispatch panics e b) = bu_handled b @ map (\<lambda>h. (h, e)) [0..<bu_handlers b]"
  using dispatch_eq [of panics e b] by auto

lemma handled_by_dispatch:
  "handled_by h (dispatch panics e b) = handled_by h b @ (if h < bu_handlers b then [e] else [])"
proof -
  have "filter (\<lambda>(k, e). k = h) (map (\<lambda>k. (k, e)) [0..<n]) = (if h < n then [(h, e)] else [])" for n
    by (induction n) auto
  then show ?thesis by (simp add: handled_by_def)
qed

lemma handled_by_same: "bu_handled b' = bu_handled b \<Longrightarrow> handled_by h b' = handled_by h b"
  by (simp add: handled_by_def)

lemma bus_inv_new: "bus_inv (NewBus workers buffer)"
  by (auto simp: bus_inv_def NewBus_def handled_by_def)

lemma bus_inv_drop: "bus_inv b \<Longrightarrow> bus_inv (drop_event b)"
  by (simp add: bus_inv_def drop_event_def handled_by_def)

lemma bus_inv_log [simp]: "bus_inv (b\<lparr>bu_log := ls\<rparr>) = bus_inv b"
  by (simp add: bus_inv_def handled_by_def)

lemma bus_inv_queue:
  "bus_inv b \<Longrightarrow> length (bu_queue b) < bu_capacity b \<Longrightarrow> \<not> bu_channel_closed b \<Longrightarrow>
    bus_inv (b\<lparr>bu_queue := bu_queue b @ [e], bu_published := Suc (bu_published b), bu_accepted := bu_accepted b @ [e]\<rparr>)"
  by (auto simp: bus_inv_def handled_by_def)

lemma bus_inv_send: "bus_inv b \<Longrightarrow> bus_inv (send e b)"
  by (simp add: send_def bus_inv_drop bus_inv_queue)

lemma bus_inv_worker: "worker_step b b' \<Longrightarrow> bus_inv b \<Longrightarrow> bus_inv b'"
proof (induction rule: worker_step.induct)
  case (take b e q)
  then have "bu_started b" by (auto simp: bus_inv_def)
  with take show ?case by (auto simp: bus_inv_def handled_by_def)
next
  case (finish e b panics)
  then have s: "bu_started b" by (auto simp: bus_inv_def)
  from finish(1) obtain n where n: "length (bu_busy b) = Suc n" by (cases "bu_busy b") auto
  have m: "mset (bu_busy b) = add_mset e (mset (remove1 e (bu_busy b)))" using finish(1) by simp
  let ?b = "dispatch panics e (b\<lparr>bu_busy := remove1 e (bu_busy b), bu_idle := Suc (bu_idle b)\<rparr>)"
  have f: "bu_queue ?b = bu_queue b" "bu_busy ?b = remove1 e (bu_busy b)" "bu_idle ?b = Suc (bu_idle b)"
      "bu_accepted ?b = bu_accepted b" "bu_published ?b = bu_published b" "bu_started ?b" "bu_workers ?b = bu_workers b"
      "bu_handlers ?b = bu_handlers b" "bu_capacity ?b = bu_capacity b" "bu_closed ?b = bu_closed b"
      "bu_channel_closed ?b = bu_channel_closed b"
    using s by simp_all
  have "handled_by h (b\<lparr>bu_busy := remove1 e (bu_busy b), bu_idle := Suc (bu_idle b)\<rparr>) = handled_by h b" for h
    by (simp add: handled_by_def)
  then have g: "handled_by h ?b = handled_by h b @ [e]" if "h < bu_handlers b" for h
    using that handled_by_dispatch [of h panics e "b\<lparr>bu_busy := remove1 e (bu_busy b), bu_idle := Suc (bu_idle b)\<rparr>"] by simp
  have inv: "length (bu_queue b) \<le> bu_capacity b" "0 < bu_workers b" "bu_published b = length (bu_accepted b)"
      "bu_idle b + length (bu_busy b) \<le> bu_workers b" "bu_channel_closed b \<longrightarrow> bu_closed b"
      "bu_idle b + length (bu_busy b) < bu_workers b \<longrightarrow> bu_channel_closed b \<and> bu_queue b = []"
      "\<And>h. h < bu_handlers b \<Longrightarrow> mset (handled_by h b) + mset (bu_busy b) + mset (bu_queue b) = mset (bu_accepted b)"
      "\<And>h. bu_workers b = 1 \<Longrightarrow> h < bu_handlers b \<Longrightarrow> handled_by h b @ bu_busy b @ bu_queue b = bu_accepted b"
    using finish(2) s unfolding bus_inv_def by blast+
  have l: "length (remove1 e (bu_busy b)) = n" using n finish(1) by (simp add: length_remove1)
  have c: "mset (handled_by h ?b) + mset (bu_busy ?b) + mset (bu_queue ?b) = mset (bu_accepted ?b)"
    if "h < bu_handlers b" for h
  proof -
    have "mset (handled_by h ?b) + mset (bu_busy ?b) = mset (handled_by h b) + mset (bu_busy b)"
      unfolding g [OF that] f m by simp
    with inv(7) [OF that] f show ?thesis by simp
  qed
  have o: "handled_by h ?b @ bu_busy ?b @ bu_queue ?b = bu_accepted ?b"
    if "bu_workers b = 1" "h < bu_handlers b" for h
  proof -
    have "length (bu_busy b) = 1" using inv(4) n that(1) by simp
    then have "bu_busy b = [e]" using finish(1) by (cases "bu_busy b") auto
    with inv(8) [OF that] g [OF that(2)] f show ?thesis by simp
  qed
  show ?case
    unfolding bus_inv_def f(3,5-11) using inv(1-6) n l c o s by (auto simp: f)
next
  case (exit b)
  then have "bu_started b" by (auto simp: bus_inv_def)
  with exit show ?case by (auto simp: bus_inv_def handled_by_def)
qed

lemma bus_inv_step: "bus_step b b' \<Longrightarrow> bus_inv b \<Longrightarrow> bus_inv b'"
proof (induction rule: bus_step.induct)
  case (subscribe b b')
  then show ?case by (auto simp: Subscribe_def bus_inv_def handled_by_def split: if_splits)
next
  case (start b b')
  then show ?case by (auto simp: Start_def bus_inv_def handled_by_def split: if_splits)
next
  case (publish b rid now e)
  then show ?case by (simp add: Publish_def Let_def bus_inv_drop bus_inv_send)
next
  case (late_send b e)
  then show ?case by (rule bus_inv_send)
next
  case (work b b')
  then show ?case by (rule bus_inv_worker)
qed (auto simp: bus_inv_def handled_by_def mark_closed_def close_channel_def)

lemma bus_inv_run: "bus_run b b' \<Longrightarrow> bus_inv b \<Longrightarrow> bus_inv b'"
  unfolding bus_run_def by (induction rule: rtranclp_induct) (auto intro: bus_inv_step)

lemma bus_step_sizes: "bus_step b b' \<Longrightarrow> bu_capacity b' = bu_capacity b \<and> bu_workers b' = bu_workers b"
  by (auto simp: Subscribe_def Start_def Publish_def send_def drop_event_def Let_def mark_closed_def
      close_channel_def split: if_splits elim!: bus_stepE worker_stepE)

lemma bus_run_sizes: "bus_run b b' \<Longrightarrow> bu_capacity b' = bu_capacity b \<and> bu_workers b' = bu_workers b"
  unfolding bus_run_def by (induction rule: rtranclp_induct) (auto dest: bus_step_sizes)

text \<open>Worker steps come to an end, and can only end in a drained bus once the channel is closed.\<close>

definition work_left :: "bus \<Rightarrow> nat" where
  "work_left b = 3 * length (bu_queue b) + 2 * length (bu_busy b) + bu_idle b"

lemma worker_step_decreases: "worker_step b b' \<Longrightarrow> work_left b' < work_left b"
  by (erule worker_stepE) (auto simp: work_left_def length_remove1 dest!: split_list)

lemma worker_steps_bounded: "(worker_step ^^ k) b b' \<Longrightarrow> work_left b' + k \<le> work_left b"
proof (induction k arbitrary: b')
  case (Suc k)
  then obtain c where "(worker_step ^^ k) b c" "worker_step c b'" by auto
  with Suc.IH [of c] worker_step_decreases [of c b'] show ?case by simp
qed simp

lemma worker_steps_keep:
  "(worker_step ^^ k) b b' \<Longrightarrow> bus_inv b \<Longrightarrow> bus_inv b' \<and> bu_started b' = bu_started b
    \<and> bu_closed b' = bu_closed b \<and> bu_channel_closed b' = bu_channel_closed b \<and> bu_accepted b' = bu_accepted b
    \<and> bu_handlers b' = bu_handlers b"
proof (induction k arbitrary: b')
  case (Suc k)
  then obtain c where c: "(worker_step ^^ k) b c" "worker_step c b'" by auto
  from c(2) have "bu_started b' = bu_started c \<and> bu_closed b' = bu_closed c \<and> bu_channel_closed b' = bu_channel_closed c
      \<and> bu_accepted b' = bu_accepted c \<and> bu_handlers b' = bu_handlers c"
    by (elim worker_stepE) auto
  with Suc.IH [OF c(1) Suc.prems(2)] bus_inv_worker [OF c(2)] show ?case by simp
qed simp

lemma stuck_is_drained:
  assumes "bus_inv b" "bu_started b" "bu_channel_closed b" "\<And>c. \<not> worker_step b c"
  shows "drained b"
proof -
  have busy: "bu_busy b = []" using assms(4) worker_step.finish by (metis list.set_intros(1) neq_Nil_conv)
  have "bu_idle b = 0"
  proof (rule ccontr)
    assume "bu_idle b \<noteq> 0"
    with assms(3,4) worker_step.take worker_step.exit show False by (cases "bu_queue b") blast+
  qed
  with busy assms(1,3) show ?thesis by (auto simp: drained_def bus_inv_def)
qed

lemma drained_handled:
  assumes "bus_inv b" "bu_started b" "drained b"
  shows "bu_queue b = []" and "h < bu_handlers b \<Longrightarrow> mset (handled_by h b) = mset (bu_accepted b)"
  using assms by (auto simp: bus_inv_def drained_def)

section \<open>Properties\<close>

text \<open>C16: under every interleaving of publishers, workers and shutdown, the queue and the number of
  events in flight stay within their bounds, a handler sees an accepted event at most once and
  nothing else, and with a single worker it sees them in the order they were accepted.\<close>

theorem events_are_handled_at_most_once:
  assumes "bus_run (NewBus workers buffer) b"
  shows "length (bu_queue b) \<le> nat (max 1 buffer) \<and> length (bu_busy b) \<le> nat (max 1 workers)
    \<and> bu_published b = length (bu_accepted b)
    \<and> (\<forall>h < bu_handlers b. mset (handled_by h b) \<subseteq># mset (bu_accepted b))
    \<and> (workers \<le> 1 \<longrightarrow> (\<forall>h < bu_handlers b. prefix (handled_by h b) (bu_accepted b)))"
proof -
  have i: "bus_inv b" by (rule bus_inv_run [OF assms bus_inv_new])
  have w: "bu_capacity b = nat (max 1 buffer)" "bu_workers b = nat (max 1 workers)"
    using bus_run_sizes [OF assms] by (simp_all add: NewBus_def)
  have "mset (handled_by h b) \<subseteq># mset (bu_accepted b)" if "h < bu_handlers b" for h
  proof -
    have "mset (handled_by h b) + mset (bu_busy b) + mset (bu_queue b) = mset (bu_accepted b)"
      using i that by (simp add: bus_inv_def)
    then show ?thesis by (metis mset_subset_eq_add_left union_assoc)
  qed
  moreover have "prefix (handled_by h b) (bu_accepted b)" if "workers \<le> 1" "h < bu_handlers b" for h
  proof -
    have "handled_by h b @ bu_busy b @ bu_queue b = bu_accepted b" using i that w(2) by (simp add: bus_inv_def)
    then show ?thesis by (metis prefixI)
  qed
  ultimately show ?thesis using i w by (auto simp: bus_inv_def)
qed

text \<open>C14: once the channel of a started bus is closed, the workers finish after a bounded number of
  their steps, in whatever order they take them, and then every handler has seen every accepted event
  exactly as often as it was accepted; a shutdown that reports a clean drain never reports it earlier.\<close>

theorem shutdown_drains_the_bus:
  assumes "bus_run (NewBus workers buffer) b" "bu_started b" "bu_channel_closed b"
    and "(worker_step ^^ k) b b'"
  shows "k \<le> 3 * length (bu_queue b) + 2 * length (bu_busy b) + bu_idle b
    \<and> ((\<forall>c. \<not> worker_step b' c) \<longrightarrow> drained b'
        \<and> (\<forall>h < bu_handlers b. mset (handled_by h b') = mset (bu_accepted b)))
    \<and> (Shutdown_returns b' expired True \<longrightarrow>
        (\<forall>h < bu_handlers b. mset (handled_by h b') = mset (bu_accepted b)))"
proof -
  have i: "bus_inv b" by (rule bus_inv_run [OF assms(1) bus_inv_new])
  note k = worker_steps_keep [OF assms(4) i]
  have "drained b'" if "\<forall>c. \<not> worker_step b' c"
    using that k assms(2,3) by (intro stuck_is_drained) auto
  with k drained_handled [of b'] assms(2) worker_steps_bounded [OF assms(4)] show ?thesis
    by (auto simp: work_left_def Shutdown_returns_def)
qed

section \<open>Witnesses\<close>

definition sample_event :: event where
  "sample_event = \<lparr>ev_name = ''post.created'', ev_actor = ''a'', ev_subject = ''s'', ev_request = [], ev_time = Some 3, ev_attrs = []\<rparr>"

text \<open>One handler, one worker, one event accepted, the bus closed.\<close>

definition closed_bus :: bus where
  "closed_bus = (NewBus 1 2)\<lparr>bu_handlers := 1, bu_started := True, bu_idle := 1, bu_queue := [sample_event],
     bu_published := 1, bu_accepted := [sample_event], bu_closed := True, bu_channel_closed := True\<rparr>"

definition emptied_bus :: bus where
  "emptied_bus = closed_bus\<lparr>bu_queue := [], bu_idle := 0, bu_handled := [(0, sample_event)]\<rparr>"

lemma closed_bus_reached: "bus_run (NewBus 1 2) closed_bus"
proof -
  let ?b1 = "(NewBus 1 2)\<lparr>bu_handlers := 1\<rparr>"
  let ?b2 = "?b1\<lparr>bu_started := True, bu_idle := 1\<rparr>"
  let ?b3 = "?b2\<lparr>bu_queue := [sample_event], bu_published := 1, bu_accepted := [sample_event]\<rparr>"
  let ?b4 = "?b3\<lparr>bu_closed := True\<rparr>"
  have "stamp [] 7 sample_event = sample_event" by (simp add: stamp_def sample_event_def)
  moreover have "bus_step ?b2 (Publish [] 7 sample_event ?b2)" by (rule publish)
  ultimately have published: "bus_step ?b2 ?b3" by (simp add: Publish_def send_def NewBus_def)
  have "bus_step (NewBus 1 2) ?b1" by (rule subscribe) (simp add: Subscribe_def NewBus_def)
  moreover have "bus_step ?b1 ?b2" by (rule start) (simp add: Start_def NewBus_def)
  moreover note published
  moreover have "bus_step ?b3 (mark_closed ?b3)" by (rule close_flag)
  then have "bus_step ?b3 ?b4" by (simp add: mark_closed_def)
  moreover have "bus_step ?b4 (close_channel ?b4)" by (rule close_queue) simp
  then have "bus_step ?b4 closed_bus" by (simp add: close_channel_def closed_bus_def NewBus_def)
  ultimately show ?thesis unfolding bus_run_def by (meson rtranclp.rtrancl_into_rtrancl rtranclp.rtrancl_refl)
qed

lemma emptied_bus_reached: "(worker_step ^^ 3) closed_bus emptied_bus"
proof -
  let ?b1 = "closed_bus\<lparr>bu_queue := [], bu_idle := 0, bu_busy := [sample_event]\<rparr>"
  let ?b2 = "dispatch (\<lambda>_. None) sample_event (?b1\<lparr>bu_busy := [], bu_idle := 1\<rparr>)"
  have "worker_step closed_bus ?b1"
    using take [of closed_bus sample_event "[]"] by (simp add: closed_bus_def NewBus_def)
  moreover have "worker_step ?b1 ?b2" using finish [of sample_event ?b1 "\<lambda>_. None"] by simp
  moreover have "worker_step ?b2 emptied_bus"
    using exit [of ?b2] by (simp add: emptied_bus_def closed_bus_def NewBus_def dispatch_def safeInvoke_def)
  ultimately show ?thesis by (auto simp: numeral_3_eq_3)
qed

theorem events_are_handled_at_most_once_witness:
  "bus_run (NewBus 1 2) closed_bus \<and> mset (handled_by 0 closed_bus) \<subseteq># mset [sample_event]"
  using events_are_handled_at_most_once [OF closed_bus_reached] closed_bus_reached
  by (auto simp: closed_bus_def)

theorem shutdown_drains_the_bus_witness:
  "(\<forall>c. \<not> worker_step emptied_bus c) \<and> drained emptied_bus \<and> handled_by 0 emptied_bus = [sample_event]"
proof -
  have "\<not> worker_step emptied_bus c" for c
    by (auto elim!: worker_stepE simp: emptied_bus_def closed_bus_def NewBus_def)
  moreover have "bu_started closed_bus" "bu_channel_closed closed_bus" by (simp_all add: closed_bus_def)
  ultimately show ?thesis
    using shutdown_drains_the_bus [OF closed_bus_reached _ _ emptied_bus_reached]
    by (auto simp: handled_by_def emptied_bus_def)
qed

end
