(* ===== verification/Janitor.thy ===== *)
theory Janitor
  imports Rate_Limit
begin

text \<open>
  The goroutine of \<open>internal/middleware/ratelimit.go\<close>: a limiter together with its janitor, which
  evicts on every tick until it is told to stop. Requests, ticks and \<open>Close\<close> interleave as steps,
  labelled by what happens. Lemmas: a run of this process answers its requests as the sequence of
  requests and evictions of theory Rate_Limit does, which carries the limits over to it; when \<open>Close\<close>
  has returned no eviction follows.
\<close>

record janitor =
  ja_stop :: bool
  ja_done :: bool

record limiter_process =
  lp_limiter :: limiter
  lp_janitor :: janitor

definition start_limiter :: "limiter \<Rightarrow> limiter_process" where
  "start_limiter l = \<lparr>lp_limiter = l, lp_janitor = \<lparr>ja_stop = False, ja_done = False\<rparr>\<rparr>"

text \<open>\<open>Close\<close> closes the channel unless it is closed, and then waits for the janitor.\<close>

definition request_stop :: "janitor \<Rightarrow> janitor" where
  "request_stop j = (if ja_stop j then j else j\<lparr>ja_stop := True\<rparr>)"

definition close_returns :: "janitor \<Rightarrow> bool" where
  "close_returns j \<longleftrightarrow> ja_stop j \<and> ja_done j"

text \<open>A select between a closed channel and a tick may take either.\<close>

datatype limiter_label = Asked time string "bool \<times> duration" | Ticked time | Stopping | Exited

inductive process_step :: "limiter_process \<Rightarrow> limiter_label \<Rightarrow> limiter_process \<Rightarrow> bool" where
  ask: "Allow now k (lp_limiter p) = (d, l) \<Longrightarrow> process_step p (Asked now k d) (p\<lparr>lp_limiter := l\<rparr>)"
| tick: "\<not> ja_done (lp_janitor p) \<Longrightarrow> process_step p (Ticked now) (p\<lparr>lp_limiter := evictIdle now (lp_limiter p)\<rparr>)"
| close: "process_step p Stopping (p\<lparr>lp_janitor := request_stop (lp_janitor p)\<rparr>)"
| exit: "ja_stop (lp_janitor p) \<Longrightarrow> \<not> ja_done (lp_janitor p) \<Longrightarrow>
    process_step p Exited (p\<lparr>lp_janitor := (lp_janitor p)\<lparr>ja_done := True\<rparr>\<rparr>)"

inductive_cases process_stepE: "process_step p x q"

inductive process_run :: "limiter_process \<Rightarrow> limiter_label list \<Rightarrow> limiter_process \<Rightarrow> bool" where
  stay: "process_run p [] p"
| step: "process_step p x q \<Longrightarrow> process_run q xs r \<Longrightarrow> process_run p (x # xs) r"

inductive_cases process_runE: "process_run p (x # xs) r"
inductive_simps process_run_Nil [simp]: "process_run p [] r"

text \<open>The requests and evictions of a run, and the answers given in it.\<close>

fun limiter_events :: "limiter_label list \<Rightarrow> limiter_event list" where
  "limiter_events [] = []"
| "limiter_events (Asked t k d # xs) = Request t k # limiter_events xs"
| "limiter_events (Ticked t # xs) = Evict t # limiter_events xs"
| "limiter_events (_ # xs) = limiter_events xs"

fun answers_given :: "limiter_label list \<Rightarrow> (bool \<times> duration) list" where
  "answers_given [] = []"
| "answers_given (Asked t k d # xs) = d # answers_given xs"
| "answers_given (_ # xs) = answers_given xs"

lemma run_answers:
  "process_run p xs q \<Longrightarrow> answers_given xs = decisions (limiter_events xs) (lp_limiter p)"
  by (induction rule: process_run.induct) (auto elim!: process_stepE)

lemma done_stays: "process_step p x q \<Longrightarrow> ja_done (lp_janitor p) \<Longrightarrow> ja_done (lp_janitor q) \<and> (\<forall>t. x \<noteq> Ticked t)"
  by (auto elim!: process_stepE simp: request_stop_def)

lemma no_eviction_after_close:
  "process_run p xs q \<Longrightarrow> close_returns (lp_janitor p) \<Longrightarrow> Ticked t \<notin> set xs"
proof (induction rule: process_run.induct)
  case (step p x q xs r)
  then have "close_returns (lp_janitor q)"
    by (auto simp: close_returns_def request_stop_def elim!: process_stepE)
  with step done_stays [OF step.hyps(1)] show ?case by (auto simp: close_returns_def)
qed simp

lemma close_is_idempotent: "request_stop (request_stop j) = request_stop j"
  by (simp add: request_stop_def)

text \<open>With or without its janitor a limiter answers alike, if an idle bucket is kept long enough.\<close>

lemma janitor_is_unobservable:
  assumes "limiter_wf l t0" "idle_refills l" "in_order t0 (limiter_events xs)" "process_run (start_limiter l) xs q"
  shows "answers_given xs = decisions (no_evictions (limiter_events xs)) l"
proof -
  have "answers_given xs = decisions (limiter_events xs) l"
    using run_answers [OF assms(4)] by (simp add: start_limiter_def)
  also have "\<dots> = decisions (no_evictions (limiter_events xs)) l"
    by (rule decisions_same [OF assms(1,1) _ assms(2,3)]) (simp add: same_budget_def)
  finally show ?thesis .
qed

section \<open>An idle time that is too short\<close>

text \<open>
  The idle time is ten minutes whatever the rate and the burst. A bucket that takes longer to fill up
  is forgotten with its debt, and its caller starts over with a full one: one request in a thousand
  seconds is allowed here, and two get through within eleven minutes.
\<close>

lemma slow_buckets_are_forgotten:
  defines "l \<equiv> NewRateLimiter (1 / 1000) 1"
  defines "es \<equiv> [Request 0 ''ip:a'', Evict (601 * second), Request (602 * second) ''ip:a'']"
  shows "granted ''ip:a'' es l = 2" and "in_order 0 es" and "\<not> idle_refills l"
    and "lm_burst l + lm_rate l * seconds (602 * second) < of_nat (granted ''ip:a'' es l)"
proof -
  show g: "granted ''ip:a'' es l = 2"
    by (simp add: l_def es_def NewRateLimiter_def Allow_def evictIdle_def second_def)
  show "in_order 0 es" by (simp add: es_def second_def)
  show "\<not> idle_refills l" by (simp add: idle_refills_def l_def NewRateLimiter_def seconds_def second_def)
  show "lm_burst l + lm_rate l * seconds (602 * second) < of_nat (granted ''ip:a'' es l)"
    unfolding g by (simp add: l_def NewRateLimiter_def seconds_def second_def)
qed

end
