(* ===== verification/Server.thy ===== *)
theory Server
  imports Pool Router Event_Bus Janitor
begin

text \<open>
  \<open>internal/server/server.go\<close> and \<open>cmd/api\<close>: wiring the parts from a configuration, the shutdown
  sequence, the audit log and the self-probe. The listener, the HTTP client and the pool driver are
  the standard library's and the driver's; their results are arguments. A limiter is modelled over
  the rationals, so a server is wired only when its rates are numbers. Lemmas: what an accepted
  configuration makes of the parts; how a run ends and what it logs; what is audited.
\<close>

section \<open>Wiring\<close>

text \<open>The listener's settings; its own errors go to the logger as warnings.\<close>

record http_settings =
  hs_addr :: string
  hs_read_header :: duration
  hs_read :: duration
  hs_write :: duration
  hs_idle :: duration
  hs_error_level :: slog_level

record server =
  sr_deps :: router_deps
  sr_site :: site
  sr_bus :: bus
  sr_janitors :: "janitor list"
  sr_shutdown_timeout :: duration
  sr_http :: http_settings
  sr_log :: "log_line list"

fun rational :: "go_float \<Rightarrow> rat option" where
  "rational (Num q) = Some q" | "rational _ = None"

text \<open>Without rate limiting there are no limiters; the site then holds ones nothing uses.\<close>

definition limiters :: "rate_config \<Rightarrow> (limiter \<times> limiter) option" where
  "limiters c =
    (if \<not> rc_enabled c then Some (NewRateLimiter 0 0, NewRateLimiter 0 0)
     else (case (rational (rc_rps c), rational (rc_auth_rps c)) of
        (Some r, Some a) \<Rightarrow> Some (NewRateLimiter r (rc_burst c), NewRateLimiter a (rc_auth_burst c))
      | _ \<Rightarrow> None))"

definition NewTokenService :: "auth_config \<Rightarrow> token_service" where
  "NewTokenService c = \<lparr>secret = ac_secret c, issuer = ac_issuer c, audience = ac_audience c,
     accessTTL = ac_access_ttl c, refreshTTL = ac_refresh_ttl c\<rparr>"

definition started_bus :: "config \<Rightarrow> bus option" where
  "started_bus cfg = Option.bind (Subscribe (NewBus (cf_workers cfg) (cf_buffer cfg))) Start"

definition New_server :: "ext \<Rightarrow> config \<Rightarrow> string \<Rightarrow> string \<Rightarrow> world \<Rightarrow> server option" where
  "New_server x cfg openapi version w =
    (let tokens = NewTokenService (cf_auth cfg);
         posts = post_repository x in
     case (started_bus cfg, limiters (cf_rate cfg)) of
       (Some b, Some (global, auth)) \<Rightarrow> Some
         \<lparr>sr_deps = \<lparr>rd_ext = x, rd_origins = cf_origins cfg, rd_trust_proxy = hc_trust_proxy (cf_http cfg),
            rd_handler_timeout = hc_handler_timeout (cf_http cfg), rd_max_body = hc_max_body (cf_http cfg),
            rd_limited = rc_enabled (cf_rate cfg), rd_tokens = tokens,
            rd_accounts = user_NewService (user_repository x) session_repository
              (NewHasher (ac_bcrypt_cost (cf_auth cfg))) tokens,
            rd_posts = posts, rd_comments = comment_repository, rd_reader = post_svc_ByID posts,
            rd_health = health_NewHandler version w, rd_version = version, rd_openapi = openapi\<rparr>,
          sr_site = \<lparr>si_world = w, si_global = global, si_auth = auth\<rparr>,
          sr_bus = b,
          sr_janitors = (if rc_enabled (cf_rate cfg) then replicate 2 \<lparr>ja_stop = False, ja_done = False\<rparr> else []),
          sr_shutdown_timeout = hc_shutdown_timeout (cf_http cfg), 
          sr_http = \<lparr>hs_addr = hc_addr (cf_http cfg), hs_read_header = hc_read_header_timeout (cf_http cfg),
            hs_read = hc_read_timeout (cf_http cfg), hs_write = hc_write_timeout (cf_http cfg),
            hs_idle = hc_idle_timeout (cf_http cfg), hs_error_level = LevelWarn\<rparr>,
          sr_log = []\<rparr>
     | _ \<Rightarrow> None)"

section \<open>Shutting down\<close>

text \<open>\<open>stopBackground\<close> gives the bus at least a second and shuts it down; then it closes the limiters,
  which waits for their janitors. \<open>meanwhile\<close> is what the workers and late publishers do to the bus
  until its shutdown returns, \<open>clean\<close> what that returns.\<close>

definition not_drained :: "bus \<Rightarrow> log_line" where
  "not_drained b = (case Stats b of (pub, dropped, queued) \<Rightarrow>
     warn_line ''event bus did not fully drain'' [Attr ''published'' (itoa (int pub)),
       Attr ''dropped'' (itoa (int dropped)), Attr ''still_queued'' (itoa (int queued))])"

definition stopBackground :: "(bus \<Rightarrow> bus) \<Rightarrow> bool \<Rightarrow> duration \<Rightarrow> server \<Rightarrow> duration \<times> server" where
  "stopBackground meanwhile clean grace s =
    (let b = meanwhile (close_channel (mark_closed (sr_bus s))) in
     (if grace < second then second else grace,
      s\<lparr>sr_bus := (if clean then b else b\<lparr>bu_log := bu_log b @ [undrained b]\<rparr>),
        sr_log := sr_log s @ (if clean then [] else [not_drained b]),
        sr_janitors := map (\<lambda>j. (request_stop j)\<lparr>ja_done := True\<rparr>) (sr_janitors s)\<rparr>))"

definition server_Close :: "(bus \<Rightarrow> bus) \<Rightarrow> bool \<Rightarrow> server \<Rightarrow> server" where
  "server_Close meanwhile clean s = snd (stopBackground meanwhile clean second s)"

definition deadlineOr :: "time option \<Rightarrow> time \<Rightarrow> time" where
  "deadlineOr deadline fallback = (case deadline of Some d \<Rightarrow> d | None \<Rightarrow> fallback)"

text \<open>\<open>errors.Join\<close>; only the text is ever used.\<close>

definition errors_join :: "gerr list \<Rightarrow> gerr option" where
  "errors_join es = (if es = [] then None
     else Some (LibError (concat (map (\<lambda>e. error_text e @ [CHR 0x0A]) (butlast es)) @ error_text (last es))))"

definition listener_result :: "gerr option \<Rightarrow> gerr option" where
  "listener_result r = (case r of None \<Rightarrow> None
     | Some e \<Rightarrow> if errors_is e ErrServerClosed then None else Some (Wrapf ''http server'' [e]))"

text \<open>\<open>listen\<close> is what \<open>ListenAndServe\<close> returns, \<open>drain\<close> what \<open>Shutdown\<close> of the listener returns, \<open>began\<close>
  when it was called and \<open>ended\<close> when it returned; \<open>signalled\<close>: the signal came before the listener
  returned.\<close>

definition logged :: "log_line \<Rightarrow> server \<Rightarrow> server" where
  "logged l s = s\<lparr>sr_log := sr_log s @ [l]\<rparr>"

definition Run :: "bool \<Rightarrow> gerr option \<Rightarrow> gerr option \<Rightarrow> time \<Rightarrow> time \<Rightarrow> (bus \<Rightarrow> bus) \<Rightarrow> bool \<Rightarrow> server \<Rightarrow> gerr option \<times> server" where
  "Run signalled listen drain began ended meanwhile clean s =
    (let s0 = logged (info_line ''http server listening'' [Attr ''addr'' (hs_addr (sr_http s))]) s in
     if \<not> signalled then (listener_result listen, snd (stopBackground meanwhile clean (sr_shutdown_timeout s) s0))
     else
       (let deadline = began + sr_shutdown_timeout s;
            s1 = logged (info_line ''shutdown signal received; draining''
                  [Attr ''grace_period'' (itoa (sr_shutdown_timeout s))]) s0;
            shutdownErr = (case drain of None \<Rightarrow> None | Some e \<Rightarrow> Some (Wrapf ''graceful shutdown'' [e]));
            s2 = (case drain of None \<Rightarrow> s1
              | Some e \<Rightarrow> logged (warn_line ''graceful shutdown did not complete in time; forcing close''
                  [Attr ''error'' (error_text e)]) s1);
            s3 = snd (stopBackground meanwhile clean (deadlineOr (Some deadline) ended - ended) s2) in
        case listener_result listen of
          Some e \<Rightarrow> (errors_join (case shutdownErr of None \<Rightarrow> [e] | Some d \<Rightarrow> [d, e]), s3)
        | None \<Rightarrow> (shutdownErr, logged (info_line ''shutdown complete'' []) s3)))"

lemma logged_simps [simp]: "sr_bus (logged l s) = sr_bus s" "sr_janitors (logged l s) = sr_janitors s"
  "sr_log (logged l s) = sr_log s @ [l]" "sr_deps (logged l s) = sr_deps s"
  by (simp_all add: logged_def)

lemma Run_background:
  assumes "Run signalled listen drain t0 t1 meanwhile clean s = (e, s')"
  shows "\<exists>g s0. sr_bus s' = sr_bus (snd (stopBackground meanwhile clean g s0))
    \<and> sr_janitors s' = sr_janitors (snd (stopBackground meanwhile clean g s0))
    \<and> sr_bus s0 = sr_bus s \<and> sr_janitors s0 = sr_janitors s"
proof (cases signalled)
  case False
  with assms show ?thesis by (auto simp: Run_def Let_def intro!: exI)
next
  case True
  let ?s1 = "logged (info_line ''shutdown signal received; draining'' [Attr ''grace_period'' (itoa (sr_shutdown_timeout s))])
      (logged (info_line ''http server listening'' [Attr ''addr'' (hs_addr (sr_http s))]) s)"
  let ?s2 = "case drain of None \<Rightarrow> ?s1
      | Some e \<Rightarrow> logged (warn_line ''graceful shutdown did not complete in time; forcing close'' [Attr ''error'' (error_text e)]) ?s1"
  from assms True have "sr_bus s' = sr_bus (snd (stopBackground meanwhile clean (t0 + sr_shutdown_timeout s - t1) ?s2))
    \<and> sr_janitors s' = sr_janitors (snd (stopBackground meanwhile clean (t0 + sr_shutdown_timeout s - t1) ?s2))"
    by (auto simp: Run_def Let_def deadlineOr_def split: option.splits)
  moreover have "sr_bus ?s2 = sr_bus s" "sr_janitors ?s2 = sr_janitors s" by (simp_all split: option.split)
  ultimately show ?thesis by blast
qed

text \<open>However the server ends, nothing of it is left running in the background.\<close>

lemma bus_run_closed: "bus_run b b' \<Longrightarrow> bu_closed b \<and> bu_channel_closed b \<and> bu_started b
    \<Longrightarrow> bu_closed b' \<and> bu_channel_closed b' \<and> bu_started b' \<and> bu_accepted b' = bu_accepted b \<and> bu_handlers b' = bu_handlers b"
proof (unfold bus_run_def, induction rule: rtranclp_induct)
  case (step b1 b2)
  then show ?case
    by (elim bus_stepE worker_stepE) (auto simp: Subscribe_def Start_def Publish_def send_def drop_event_def mark_closed_def
      close_channel_def Let_def split: if_splits)
qed simp

lemma Run_stops_background:
  assumes "Run signalled listen drain t0 t1 meanwhile clean s = (e, s')" and "\<And>b. bus_run b (meanwhile b)" and "bu_started (sr_bus s)"
  shows "bu_closed (sr_bus s') \<and> bu_channel_closed (sr_bus s')" "list_all close_returns (sr_janitors s')"
    and "bu_accepted (sr_bus s') = bu_accepted (sr_bus s) \<and> bu_handlers (sr_bus s') = bu_handlers (sr_bus s)"
    and "clean \<Longrightarrow> sr_bus s' = meanwhile (close_channel (mark_closed (sr_bus s)))"
proof -
  obtain g s0 where g: "sr_bus s' = sr_bus (snd (stopBackground meanwhile clean g s0))"
      "sr_janitors s' = sr_janitors (snd (stopBackground meanwhile clean g s0))" "sr_bus s0 = sr_bus s" "sr_janitors s0 = sr_janitors s"
    using Run_background [OF assms(1)] by blast
  have "bu_closed (close_channel (mark_closed (sr_bus s))) \<and> bu_channel_closed (close_channel (mark_closed (sr_bus s)))
      \<and> bu_started (close_channel (mark_closed (sr_bus s)))"
    by (simp add: close_channel_def mark_closed_def assms(3))
  from bus_run_closed [OF assms(2) this] show "bu_closed (sr_bus s') \<and> bu_channel_closed (sr_bus s')"
    "bu_accepted (sr_bus s') = bu_accepted (sr_bus s) \<and> bu_handlers (sr_bus s') = bu_handlers (sr_bus s)"
    by (auto simp: g stopBackground_def Let_def close_channel_def mark_closed_def)
  show "list_all close_returns (sr_janitors s')"
    by (simp add: g stopBackground_def Let_def list_all_iff close_returns_def request_stop_def)
  show "sr_bus s' = meanwhile (close_channel (mark_closed (sr_bus s)))" if clean
    using that by (simp add: g stopBackground_def Let_def)
qed

section \<open>The audit log\<close>

text \<open>One line per event, as the handler hands it to its logger; \<open>rfc\<close> renders a time.\<close>

definition auditLogHandler :: "(time option \<Rightarrow> string) \<Rightarrow> logger \<Rightarrow> event \<Rightarrow> logger \<times> log_line" where
  "auditLogHandler rfc l e =
    (With [Attr ''log_type'' ''audit''] l,
     info_line ''domain event'' [Group ''audit''
       ([Attr ''event'' (ev_name e), Attr ''actor_id'' (ev_actor e), Attr ''subject_id'' (ev_subject e),
         Attr ''request_id'' (ev_request e), Attr ''occurred_at'' (rfc (ev_time e))]
        @ map (\<lambda>(k, v). Attr k v) (ev_attrs e))])"

text \<open>The audit trail: what comes out of the log for the events the subscriber has handled.\<close>

definition audit_trail :: "ext \<Rightarrow> (time option \<Rightarrow> string) \<Rightarrow> logger \<Rightarrow> bus \<Rightarrow> log_line list" where
  "audit_trail x rfc l b = concat (map (\<lambda>e. case auditLogHandler rfc l e of (al, line) \<Rightarrow> log_output x al [line]) (handled_by 0 b))"

section \<open>The process\<close>

definition join_host_port :: "string \<Rightarrow> string \<Rightarrow> string" where
  "join_host_port host port = (if CHR '':'' \<in> set host then ''['' @ host @ '']:'' @ port else host @ '':'' @ port)"

definition loopbackAddr :: "string \<Rightarrow> string" where
  "loopbackAddr addr =
    (case split_host_port addr of
       None \<Rightarrow> join_host_port ''127.0.0.1'' (trim_prefix '':'' addr)
     | Some (host, port) \<Rightarrow>
        join_host_port (if host = [] \<or> host = ''0.0.0.0'' \<or> host = ''::'' then ''127.0.0.1'' else host) port)"

datatype probe_result = BadRequestURL gerr | NoAnswer gerr | Answered int string

definition probeSelf :: "(string \<Rightarrow> probe_result) \<Rightarrow> string \<Rightarrow> gerr option" where
  "probeSelf get addr =
    (let url = ''http://'' @ loopbackAddr addr @ ''/healthz'' in
     case get url of
       BadRequestURL e \<Rightarrow> Some (Wrapf ''build health-check request'' [e])
     | NoAnswer e \<Rightarrow> Some (Wrapf ''health check'' [e])
     | Answered code st \<Rightarrow>
         if code \<noteq> 200 then Some (LibError (''health check: '' @ url @ '' returned '' @ st)) else None)"

definition service_logger :: "ext \<Rightarrow> config \<Rightarrow> string \<Rightarrow> logger" where
  "service_logger x cfg version =
    With [Attr ''service'' ''majoo-blog-api'', Attr ''version'' version, Attr ''env'' (cf_app_env cfg)]
      (New_logger x (cf_log_level cfg) (cf_log_format cfg))"

definition pool_ready :: "db_config \<Rightarrow> log_line" where
  "pool_ready c = info_line ''database pool ready'' [Attr ''max_conns'' (itoa (dc_max_conns c)), Attr ''min_conns'' (itoa (dc_min_conns c))]"

text \<open>\<open>serve\<close> is the life of the server on its pool, which is closed when it is over; it is handed the line
  logged before it. The list is that of the pools closed.\<close>

definition api_run :: "ext \<Rightarrow> env \<Rightarrow> bool \<Rightarrow> (string \<Rightarrow> probe_result) \<Rightarrow> string \<Rightarrow> 'p pg_driver
    \<Rightarrow> (config \<Rightarrow> logger \<Rightarrow> log_line \<Rightarrow> 'p \<Rightarrow> gerr option) \<Rightarrow> gerr option \<times> 'p list" where
  "api_run x env healthCheck get version driver serve =
    (case Load x env of (cfg, errs) \<Rightarrow>
      (case errors_join errs of
         Some e \<Rightarrow> (Some (Wrapf ''load configuration'' [e]), [])
       | None \<Rightarrow>
          if healthCheck then (probeSelf get (hc_addr (cf_http cfg)), [])
          else (case Connect driver (cf_db cfg) of
             (Inl e, released) \<Rightarrow> (Some (Wrapf ''connect to database'' [e]), released)
           | (Inr p, released) \<Rightarrow> (serve cfg (service_logger x cfg version) (pool_ready (cf_db cfg)) p, released @ [p]))))"

definition exit_code :: "gerr option \<Rightarrow> int" where
  "exit_code e = (case e of None \<Rightarrow> 0 | Some _ \<Rightarrow> 1)"

lemma api_run_closes_its_pool:
  assumes "api_run x env hc get version d serve = (r, released)"
  shows "released = (if snd (Load x env) = [] \<and> \<not> hc then case opened d (cf_db (fst (Load x env))) of None \<Rightarrow> [] | Some p \<Rightarrow> [p] else [])"
proof -
  obtain cfg errs where l: "Load x env = (cfg, errs)" by fastforce
  obtain c rel where c: "Connect d (cf_db cfg) = (c, rel)" by fastforce
  show ?thesis
  proof (cases c)
    case (Inl e)
    with assms l c Connect_error [of d "cf_db cfg" e rel] show ?thesis
      by (auto simp: api_run_def errors_join_def split: if_splits option.splits prod.splits)
  next
    case (Inr p)
    with assms l c Connect_ok(1,2) [of d "cf_db cfg" p rel] show ?thesis
      by (auto simp: api_run_def errors_join_def split: if_splits prod.splits)
  qed
qed

section \<open>A clean end\<close>

lemma New_server_bus:
  assumes "New_server x cfg openapi version w = Some s"
  shows "bus_run (NewBus (cf_workers cfg) (cf_buffer cfg)) (sr_bus s)" "bu_started (sr_bus s)" "bu_handlers (sr_bus s) = 1"
proof -
  from assms have "started_bus cfg = Some (sr_bus s)" by (auto simp: New_server_def Let_def split: option.splits)
  then obtain b where b: "Subscribe (NewBus (cf_workers cfg) (cf_buffer cfg)) = Some b" "Start b = Some (sr_bus s)"
    by (auto simp: started_bus_def split: bind_splits)
  then show "bus_run (NewBus (cf_workers cfg) (cf_buffer cfg)) (sr_bus s)"
    unfolding bus_run_def by (meson bus_step.start bus_step.subscribe converse_rtranclp_into_rtranclp r_into_rtranclp)
  from b(1) b(2) [symmetric] show "bu_started (sr_bus s)" "bu_handlers (sr_bus s) = 1"
    by (auto simp: Subscribe_def Start_def NewBus_def split: if_splits)
qed

lemma bus_run_started: "bus_run b b' \<Longrightarrow> bu_started b \<Longrightarrow> bu_started b' \<and> bu_handlers b' = bu_handlers b"
proof (unfold bus_run_def, induction rule: rtranclp_induct)
  case (step b1 b2)
  then show ?case
    by (elim bus_stepE worker_stepE) (auto simp: Subscribe_def Start_def Publish_def send_def drop_event_def mark_closed_def
      close_channel_def Let_def split: if_splits)
qed simp

text \<open>The line the log shows for an event.\<close>

definition audited :: "ext \<Rightarrow> (time option \<Rightarrow> string) \<Rightarrow> logger \<Rightarrow> event \<Rightarrow> log_line" where
  "audited x rfc l e = (case auditLogHandler rfc l e of (al, line) \<Rightarrow>
     line\<lparr>ll_attrs := map (written x) (lg_bound al @ ll_attrs line)\<rparr>)"

lemma audit_trail_lines:
  assumes "lg_level l \<le> LevelInfo"
  shows "audit_trail x rfc l b = map (audited x rfc l) (handled_by 0 b)"
proof -
  have "(case auditLogHandler rfc l e of (al, line) \<Rightarrow> log_output x al [line]) = [audited x rfc l e]" for e
    using assms by (simp add: auditLogHandler_def audited_def log_output_def info_line_def With_def)
  then show ?thesis by (simp add: audit_trail_def concat_map_singleton)
qed

text \<open>C15: a shutdown that reports a clean drain has written the audit line of every event accepted since
  the start, as often as it was accepted, whatever handlers, workers and late publishers did; one that
  gives up says so in the log. Either way publishing is closed for good and no janitor is left.\<close>

theorem clean_shutdown_completes_the_audit_trail:
  assumes "New_server x cfg openapi version w = Some s" and "bus_run (sr_bus s) b"
    and "\<And>c. bus_run c (meanwhile c)" and "Shutdown_returns (meanwhile (close_channel (mark_closed b))) expired clean"
    and "Run signalled listen drain began ended meanwhile clean (s\<lparr>sr_bus := b\<rparr>) = (e, s')"
    and "lg_level l \<le> LevelInfo"
  shows "(clean \<longrightarrow> mset (audit_trail x rfc l (sr_bus s')) = image_mset (audited x rfc l) (mset (bu_accepted b)))
    \<and> (\<not> clean \<longrightarrow> not_drained (meanwhile (close_channel (mark_closed b))) \<in> set (sr_log s'))
    \<and> bu_closed (sr_bus s') \<and> bu_channel_closed (sr_bus s') \<and> list_all close_returns (sr_janitors s')"
proof -
  note new = New_server_bus [OF assms(1)]
  let ?c = "close_channel (mark_closed b)"
  have b: "bu_started b" "bu_handlers b = 1" using bus_run_started [OF assms(2) new(2)] new(3) by simp_all
  have "bu_started (sr_bus (s\<lparr>sr_bus := b\<rparr>))" using b by simp
  note ended = Run_stops_background [OF assms(5,3) this]
  have "bu_closed (mark_closed b)" by (simp add: mark_closed_def)
  then have "bus_step b (mark_closed b)" "bus_step (mark_closed b) ?c" by (auto intro: bus_step.close_flag bus_step.close_queue)
  then have "bus_run b ?c" unfolding bus_run_def by (meson converse_rtranclp_into_rtranclp r_into_rtranclp)
  with new(1) assms(2,3) have "bus_run (NewBus (cf_workers cfg) (cf_buffer cfg)) (meanwhile ?c)"
    unfolding bus_run_def by (meson rtranclp_trans)
  from bus_inv_run [OF this bus_inv_new] have inv: "bus_inv (meanwhile ?c)" .
  have c: "bu_started (meanwhile ?c) \<and> bu_accepted (meanwhile ?c) = bu_accepted b \<and> bu_handlers (meanwhile ?c) = 1"
    using bus_run_closed [OF assms(3), of ?c] b by (simp add: close_channel_def mark_closed_def)
  have "mset (audit_trail x rfc l (sr_bus s')) = image_mset (audited x rfc l) (mset (bu_accepted b))" if clean
    using that assms(4) drained_handled(2) [OF inv] c ended(4) by (simp add: audit_trail_lines [OF assms(6)] Shutdown_returns_def)
  moreover have "not_drained (meanwhile ?c) \<in> set (sr_log s')" if "\<not> clean"
    using assms(5) that by (auto simp: Run_def Let_def stopBackground_def logged_def split: if_splits option.splits)
  ultimately show ?thesis using ended(1,2) by blast
qed

section \<open>What an accepted configuration wires\<close>

lemma env_parsed_ok: "env_parsed x parse what env key def = (v, []) \<Longrightarrow>
    v = def \<or> (\<exists>raw. env key = Some raw \<and> parse raw = Some v)"
  by (auto simp: env_parsed_def split: option.splits if_splits)

lemma Load_accepted:
  assumes "Load x env = (cfg, [])"
  shows "validate_config x cfg = []" "hc_max_body (cf_http cfg) \<le> max_int64"
proof -
  show "validate_config x cfg = []" using assms by (auto simp: Load_def Let_def split: prod.splits)
  have "hc_max_body (fst (load_http x env)) = fst (envInt x env ''HTTP_MAX_BODY_BYTES'' 1048576)"
      "snd (load_http x env) = [] \<Longrightarrow> snd (envInt x env ''HTTP_MAX_BODY_BYTES'' 1048576) = []"
    by (auto simp: load_http_def Let_def split: prod.splits)
  moreover have "fst (load_http x env) = cf_http cfg" "snd (load_http x env) = []"
    using assms by (auto simp: Load_def Let_def split: prod.splits)
  ultimately have "envInt x env ''HTTP_MAX_BODY_BYTES'' 1048576 = (hc_max_body (cf_http cfg), [])"
    by (simp add: prod_eq_iff)
  then show "hc_max_body (cf_http cfg) \<le> max_int64"
    unfolding envInt_def by (auto dest!: env_parsed_ok atoi_range simp: max_int64_def)
qed

lemma fresh_limiter_wf: "0 < r \<Longrightarrow> 1 \<le> b \<Longrightarrow> limiter_wf (NewRateLimiter r b) t"
  by (simp add: limiter_wf_def NewRateLimiter_def)


section \<open>Witnesses and a gap\<close>

definition sample_env :: env where
  "sample_env = map_of [(''APP_ENV'', ''production''), (''DATABASE_URL'', ''postgres://db/blog''),
     (''JWT_SECRET'', ''0123456789abcdef0123456789abcdef''), (''CORS_ALLOWED_ORIGINS'', ''https://app.example.com, '')]"

lemma sample_lower: "to_lower (unicode_lower sample_jwt) ''info'' = ''info''"
  "to_lower (unicode_lower sample_jwt) ''json'' = ''json''"
  by (simp_all add: to_lower_def runes_def lower_rune_def encode_rune_def Let_def char_of_def bit_iff_odd)

lemmas loading = Load_def load_http_def load_db_def load_auth_def load_rate_def Let_def envInt_def envFloat_def
  envBool_def envDuration_def env_parsed_def envString_def envCSV_def sample_env_def validate_config_def
  check_def sample_lower IsProduction_def EnvProduction_def EnvDevelopment_def EnvTest_def minJWTSecretLen_def
  wrap32_def second_def trim_space_def trim_both_def is_space_def

lemma sample_environment: "\<exists>cfg s. Load sample_jwt sample_env = (cfg, []) \<and> IsProduction cfg
    \<and> New_server sample_jwt cfg [] ''dev'' empty_world = Some s \<and> rd_limited (sr_deps s)
    \<and> cf_rate cfg = \<lparr>rc_enabled = True, rc_rps = Num 20, rc_burst = 40, rc_auth_rps = Num 1, rc_auth_burst = 10\<rparr>"
proof -
  have "\<exists>cfg. Load sample_jwt sample_env = (cfg, []) \<and> IsProduction cfg
      \<and> cf_rate cfg = \<lparr>rc_enabled = True, rc_rps = Num 20, rc_burst = 40, rc_auth_rps = Num 1, rc_auth_burst = 10\<rparr>"
    by (simp add: loading)
  then obtain cfg where cfg: "Load sample_jwt sample_env = (cfg, [])" "IsProduction cfg"
      "cf_rate cfg = \<lparr>rc_enabled = True, rc_rps = Num 20, rc_burst = 40, rc_auth_rps = Num 1, rc_auth_burst = 10\<rparr>"
    by blast
  then have "\<exists>s. New_server sample_jwt cfg [] ''dev'' empty_world = Some s \<and> rd_limited (sr_deps s)"
    by (simp add: New_server_def Let_def started_bus_def Subscribe_def Start_def NewBus_def limiters_def)
  with cfg show ?thesis by blast
qed


text \<open>One event was published; a worker handles it and all of them exit.\<close>

definition exit_all :: "bus \<Rightarrow> bus" where
  "exit_all b = (if bu_queue b = [] \<and> bu_channel_closed b then b\<lparr>bu_idle := 0\<rparr> else b)"

definition handle_one :: "bus \<Rightarrow> bus" where
  "handle_one b = (case bu_queue b of [e] \<Rightarrow>
     if bu_busy b = [] \<and> 0 < bu_idle b then dispatch (\<lambda>_. None) e (b\<lparr>bu_queue := []\<rparr>) else b | _ \<Rightarrow> b)"

lemma exit_all_run: "bus_run b (exit_all b)"
proof (cases "bu_queue b = [] \<and> bu_channel_closed b")
  case True
  have "bus_run c (c\<lparr>bu_idle := 0\<rparr>)" if "bu_queue c = [] \<and> bu_channel_closed c" for c
    using that
  proof (induction "bu_idle c" arbitrary: c)
    case 0
    then have "c\<lparr>bu_idle := 0\<rparr> = c" by simp
    then show ?case by (simp add: bus_run_def)
  next
    case (Suc n)
    let ?d = "c\<lparr>bu_idle := n\<rparr>"
    have "bus_step c ?d" using Suc.hyps(2) Suc.prems bus_step.work [OF worker_step.exit [of c]] by (metis diff_Suc_1 zero_less_Suc)
    moreover have "bus_run ?d (?d\<lparr>bu_idle := 0\<rparr>)" using Suc.hyps(1) [of ?d] Suc.prems by simp
    ultimately show ?case unfolding bus_run_def by (simp add: converse_rtranclp_into_rtranclp)
  qed
  with True show ?thesis by (simp add: exit_all_def)
qed (auto simp: exit_all_def bus_run_def)

lemma handle_one_run: "bus_run b (handle_one b)"
proof (cases "\<exists>e. bu_queue b = [e] \<and> bu_busy b = [] \<and> 0 < bu_idle b")
  case True
  then obtain e where e: "bu_queue b = [e]" "bu_busy b = []" "0 < bu_idle b" by blast
  let ?t = "b\<lparr>bu_queue := [], bu_idle := bu_idle b - 1, bu_busy := [e]\<rparr>"
  have "bus_step b ?t" using bus_step.work [OF worker_step.take [of b e "[]"]] e by simp
  moreover have same: "b\<lparr>bu_queue := [], bu_busy := []\<rparr> = b\<lparr>bu_queue := []\<rparr>" using e(2) by (cases b) simp
  have "bus_step ?t (dispatch (\<lambda>_. None) e (b\<lparr>bu_queue := [], bu_busy := []\<rparr>))"
    using bus_step.work [OF worker_step.finish [of e ?t "\<lambda>_. None"]] e by simp
  then have "bus_step ?t (dispatch (\<lambda>_. None) e (b\<lparr>bu_queue := []\<rparr>))" unfolding same .
  ultimately show ?thesis
    using e unfolding bus_run_def by (simp add: handle_one_def)
qed (auto simp: handle_one_def bus_run_def split: list.splits)

theorem clean_shutdown_completes_the_audit_trail_witness:
  "\<exists>cfg s e s'. Load sample_jwt sample_env = (cfg, []) \<and> New_server sample_jwt cfg [] ''dev'' empty_world = Some s
    \<and> Run True (Some (Sentinel ErrServerClosed)) None 0 0 (exit_all \<circ> handle_one) True
        (s\<lparr>sr_bus := Publish [] 7 sample_event (sr_bus s)\<rparr>) = (e, s')
    \<and> mset (audit_trail sample_jwt (\<lambda>_. []) \<lparr>lg_level = LevelInfo, lg_text = False, lg_bound = []\<rparr> (sr_bus s'))
        = {#audited sample_jwt (\<lambda>_. []) \<lparr>lg_level = LevelInfo, lg_text = False, lg_bound = []\<rparr> sample_event#}"
proof -
  obtain cfg s where r: "Load sample_jwt sample_env = (cfg, [])" "New_server sample_jwt cfg [] ''dev'' empty_world = Some s"
    using sample_environment by blast
  let ?b = "Publish [] 7 sample_event (sr_bus s)" and ?l = "\<lparr>lg_level = LevelInfo, lg_text = False, lg_bound = []\<rparr>"
  let ?c = "close_channel (mark_closed ?b)"
  obtain e s' where run: "Run True (Some (Sentinel ErrServerClosed)) None 0 0 (exit_all \<circ> handle_one) True (s\<lparr>sr_bus := ?b\<rparr>) = (e, s')"
    by fastforce
  have "Some (sr_bus s) = started_bus cfg" using r(2) by (auto simp: New_server_def Let_def split: option.splits)
  then obtain h k where s: "sr_bus s = (NewBus h k)\<lparr>bu_handlers := 1, bu_started := True, bu_idle := bu_workers (NewBus h k)\<rparr>"
    by (auto simp: started_bus_def Subscribe_def Start_def NewBus_def)
  have "stamp [] 7 sample_event = sample_event" by (simp add: stamp_def sample_event_def)
  then have b: "?b = (sr_bus s)\<lparr>bu_queue := [sample_event], bu_published := 1, bu_accepted := [sample_event]\<rparr>"
    by (simp add: s Publish_def send_def NewBus_def)
  have d: "Shutdown_returns ((exit_all \<circ> handle_one) ?c) False True"
    by (simp add: b Shutdown_returns_def drained_def exit_all_def handle_one_def close_channel_def mark_closed_def) (simp add: s NewBus_def)
  have p: "bus_run (sr_bus s) ?b" unfolding bus_run_def by (rule r_into_rtranclp) (rule bus_step.publish)
  have m: "bus_run c ((exit_all \<circ> handle_one) c)" for c
    using handle_one_run [of c] exit_all_run [of "handle_one c"] unfolding bus_run_def by (simp add: rtranclp_trans)
  have "lg_level ?l \<le> LevelInfo" by simp
  from clean_shutdown_completes_the_audit_trail [OF r(2) p m d run this, of "\<lambda>_. []"] b r run show ?thesis by auto
qed

text \<open>Not-a-number is not \<open>\<le> 0\<close>, so it passes the check of the rates; and a pool size is cut to 32 bits
  before it is checked.\<close>

lemma odd_numbers_are_accepted:
  "\<exists>cfg. Load sample_jwt (sample_env(''RATE_LIMIT_RPS'' \<mapsto> ''NaN'')) = (cfg, []) \<and> rc_rps (cf_rate cfg) = NaN"
  "\<exists>cfg. Load sample_jwt (sample_env(''DB_MAX_CONNS'' \<mapsto> ''4294967316'')) = (cfg, []) \<and> dc_max_conns (cf_db cfg) = 20"
proof -
  have "ParseFloat ''NaN'' = Some NaN" "atoi ''4294967316'' = Some 4294967316" by code_simp+
  then show "\<exists>cfg. Load sample_jwt (sample_env(''RATE_LIMIT_RPS'' \<mapsto> ''NaN'')) = (cfg, []) \<and> rc_rps (cf_rate cfg) = NaN"
    "\<exists>cfg. Load sample_jwt (sample_env(''DB_MAX_CONNS'' \<mapsto> ''4294967316'')) = (cfg, []) \<and> dc_max_conns (cf_db cfg) = 20"
    by (simp_all add: loading)
qed

end
