(* ===== verification/Privileges.thy ===== *)
theory Privileges
  imports Blog_History
begin

text \<open>
  What the requests of the API can do to an account (\<open>internal/user\<close>): its display name changes, and
  nothing else of it ever does. Lemmas: every statement, every repository method and every operation
  keeps the accounts (\<open>accounts_kept\<close>), so no sequence of requests promotes anyone.
\<close>

definition same_account :: "user \<Rightarrow> user \<Rightarrow> bool" where
  "same_account u u' \<longleftrightarrow> user_id u' = user_id u \<and> email u' = email u \<and> username u' = username u
     \<and> password_hash u' = password_hash u \<and> role u' = role u \<and> user_created u' = user_created u"

definition accounts_kept :: "database \<Rightarrow> database \<Rightarrow> bool" where
  "accounts_kept d d' \<longleftrightarrow> (\<forall>u \<in> set (users d). \<exists>u' \<in> set (users d'). same_account u u')
     \<and> (\<forall>u' \<in> set (users d'). (\<exists>u \<in> set (users d). same_account u u') \<or> role u' = RoleUser)"

lemma same_account_refl [simp]: "same_account u u"
  by (simp add: same_account_def)

lemma same_account_trans: "same_account a b \<Longrightarrow> same_account b c \<Longrightarrow> same_account a c"
  by (simp add: same_account_def)

lemma accounts_kept_same: "users d' = users d \<Longrightarrow> accounts_kept d d'"
  unfolding accounts_kept_def by (metis same_account_refl)

lemma accounts_kept_refl [simp, intro]: "accounts_kept d d"
  by (simp add: accounts_kept_same)

lemma accounts_kept_trans:
  assumes "accounts_kept d d1" "accounts_kept d1 d2"
  shows "accounts_kept d d2"
  unfolding accounts_kept_def
proof (intro conjI ballI)
  fix u assume "u \<in> set (users d)"
  with assms show "\<exists>u' \<in> set (users d2). same_account u u'"
    unfolding accounts_kept_def by (meson same_account_trans)
next
  fix u' assume "u' \<in> set (users d2)"
  with assms(2) consider v where "v \<in> set (users d1)" "same_account v u'" | "role u' = RoleUser"
    unfolding accounts_kept_def by blast
  then show "(\<exists>u \<in> set (users d). same_account u u') \<or> role u' = RoleUser"
  proof cases
    case 1
    with assms(1) consider w where "w \<in> set (users d)" "same_account w v" | "role v = RoleUser"
      unfolding accounts_kept_def by blast
    then show ?thesis
      using 1(2) same_account_trans by cases (blast, simp add: same_account_def)
  qed simp
qed

lemma accounts_kept_map:
  assumes "users d' = map f (users d) @ new" "\<And>u. same_account u (f u)" "\<forall>u \<in> set new. role u = RoleUser"
  shows "accounts_kept d d'"
  unfolding accounts_kept_def
proof (intro conjI ballI)
  fix u assume "u \<in> set (users d)"
  then have "f u \<in> set (users d')" by (simp add: assms(1))
  with assms(2) show "\<exists>u' \<in> set (users d'). same_account u u'" by blast
next
  fix u' assume "u' \<in> set (users d')"
  then consider u where "u \<in> set (users d)" "u' = f u" | "u' \<in> set new" by (auto simp: assms(1))
  then show "(\<exists>u \<in> set (users d). same_account u u') \<or> role u' = RoleUser"
    using assms(2,3) by cases blast+
qed

lemma insert_user_kept:
  assumes "insert_user x u t d = Inr (r, d')" "role u = RoleUser"
  shows "accounts_kept d d'"
  using assms(2) insert_user_Inr(1,2) [OF assms(1)] by (intro accounts_kept_map [where f = id and new = "[r]"]) simp_all

lemma update_display_name_kept:
  assumes "update_display_name x i n t d = Inr (r, d')"
  shows "accounts_kept d d'"
proof -
  let ?f = "\<lambda>v. if user_id v = i then v\<lparr>display_name := n, user_updated := t\<rparr> else v"
  have "users d' = map ?f (users d) @ []"
    using assms by (rule update_display_name_Inr) (simp add: update_where_def)
  then show ?thesis by (rule accounts_kept_map) (simp_all add: same_account_def)
qed

lemma execute_keeps_accounts:
  assumes "execute st w = (r, w')" and "\<And>t d a d'. st t d = Inr (a, d') \<Longrightarrow> accounts_kept d d'"
  shows "accounts_kept (db w) (db w')"
  using assms(1) by (rule execute_invariant [where I = "accounts_kept (db w)"])
    (auto intro: accounts_kept_trans assms(2))

lemma session_statements_kept:
  "insert_token s t d = Inr (r1, d') \<Longrightarrow> accounts_kept d d'"
  "revoke_replaced h i t d = Inr (r2, d') \<Longrightarrow> accounts_kept d d'"
  "revoke_where P t d = Inr (r2, d') \<Longrightarrow> accounts_kept d d'"
  "delete_expired cutoff t d = Inr (r2, d') \<Longrightarrow> accounts_kept d d'"
  by (auto simp: insert_token_def revoke_replaced_def revoke_where_def delete_expired_def Let_def
      intro!: accounts_kept_same split: option.splits if_splits)

lemma account_methods_kept:
  "user_Create x u w = (r1, w') \<Longrightarrow> role u = RoleUser \<Longrightarrow> accounts_kept (db w) (db w')"
  "user_UpdateProfile x i n w = (r1, w') \<Longrightarrow> accounts_kept (db w) (db w')"
  "session_Create s w = (r2, w') \<Longrightarrow> accounts_kept (db w) (db w')"
  "session_Revoke h w = (r3, w') \<Longrightarrow> accounts_kept (db w) (db w')"
  "session_RevokeAllForUser i w = (r4, w') \<Longrightarrow> accounts_kept (db w) (db w')"
  "session_DeleteExpired cutoff w = (r4, w') \<Longrightarrow> accounts_kept (db w) (db w')"
  "session_Rotate h s w = (r2, w') \<Longrightarrow> accounts_kept (db w) (db w')"
proof -
  assume r: "session_Rotate h s w = (r2, w')"
  show "accounts_kept (db w) (db w')"
    using r unfolding session_Rotate_def
    by (rule InTx_invariant [where I = "accounts_kept (db w)"])
      (auto split: sum.splits prod.splits if_splits dest!: execute_ok session_statements_kept intro: accounts_kept_trans)
qed (auto simp: user_Create_def user_UpdateProfile_def session_Create_def session_Revoke_def
    session_RevokeAllForUser_def session_DeleteExpired_def split: sum.splits prod.splits
    dest: execute_keeps_accounts [OF _ insert_user_kept] execute_keeps_accounts [OF _ update_display_name_kept]
      execute_keeps_accounts [OF _ session_statements_kept(1)] execute_keeps_accounts [OF _ session_statements_kept(3)]
      execute_keeps_accounts [OF _ session_statements_kept(4)])

lemma account_reads_kept:
  "IssueAccessToken x ts u rl w = (q1, w') \<Longrightarrow> accounts_kept (db w) (db w')"
  "NewRefreshToken x ts w = (q2, w') \<Longrightarrow> accounts_kept (db w) (db w')"
  "new_uuid w = (i, w') \<Longrightarrow> accounts_kept (db w) (db w')"
  "Hash x h p w = (q3, w') \<Longrightarrow> accounts_kept (db w) (db w')"
  "Verify x dg p w = (q4, w') \<Longrightarrow> accounts_kept (db w) (db w')"
  "user_ByID j w = (q5, w') \<Longrightarrow> accounts_kept (db w) (db w')"
  "user_ByEmail e w = (q5, w') \<Longrightarrow> accounts_kept (db w) (db w')"
  "session_ByHash hh w = (q6, w') \<Longrightarrow> accounts_kept (db w) (db w')"
  by (auto dest!: IssueAccessToken_frame NewRefreshToken_frame new_uuid_frame Hash_frame Verify_frame
      session_ByHash_db accounts.byid_frame [unfolded user_repository_simps]
      accounts.byemail_frame [unfolded user_repository_simps])

lemmas account_calls_kept = account_methods_kept(2-) account_reads_kept

lemma issue_kept: "issue x (blog_accounts x h ts) u ua w = (r, w') \<Longrightarrow> accounts_kept (db w) (db w')"
  by (auto simp: issue_def session_repository_def split: sum.splits prod.splits dest!: account_calls_kept
      intro: accounts_kept_trans)

lemma Register_kept: "Register x (blog_accounts x h ts) i w = (r1, w') \<Longrightarrow> accounts_kept (db w) (db w')"
  by (auto simp: Register_def Let_def user_repository_def split: sum.splits prod.splits
      dest!: account_reads_kept(3,4) account_methods_kept(1)) (meson accounts_kept_trans)+

lemma account_operations_kept:
  "Login x (blog_accounts x h ts) mail password ua w = (r2, w') \<Longrightarrow> accounts_kept (db w) (db w')"
  "Refresh x (blog_accounts x h ts) tok ua w = (r2, w') \<Longrightarrow> accounts_kept (db w) (db w')"
  "Logout x (blog_accounts x h ts) tok w = (r3, w') \<Longrightarrow> accounts_kept (db w) (db w')"
  "LogoutAll x (blog_accounts x h ts) a w = (r4, w') \<Longrightarrow> accounts_kept (db w) (db w')"
  "user_svc_UpdateProfile (blog_accounts x h ts) a name w = (r1, w') \<Longrightarrow> accounts_kept (db w) (db w')"
  by (auto simp: Login_def Refresh_def Logout_def LogoutAll_def user_svc_UpdateProfile_def Let_def
        user_repository_def session_repository_def split: sum.splits prod.splits option.splits if_splits
      dest!: account_calls_kept issue_kept) (meson accounts_kept_trans)+

lemma same_accounts_kept: "same_accounts d d' \<Longrightarrow> accounts_kept d d'"
  by (simp add: same_accounts_def accounts_kept_same)

lemma step_keeps_accounts: "api_step x h ts w w' \<Longrightarrow> accounts_kept (db w) (db w')"
proof (erule api_stepE, goal_cases)
  case 1
  then show ?case by (elim account_stepE) (auto dest: Register_kept account_operations_kept)
next
  case (2 cutoff rn)
  then show ?case by (rule account_methods_kept(6))
qed (auto dest: blog_operations_same_accounts same_accounts_kept)

lemma history_keeps_accounts: "api_history x h ts w w' \<Longrightarrow> accounts_kept (db w) (db w')"
  unfolding api_history_def by (induction rule: rtranclp_induct) (auto intro: accounts_kept_trans step_keeps_accounts)

section \<open>Property\<close>

text \<open>C8: no sequence of API requests, in any order and with any outcome of its database round trips,
  promotes anyone or touches a credential: every account stays, with its id, address, name, password
  hash, role and creation time, and every account that appears is an ordinary one.\<close>

theorem requests_never_promote:
  assumes "api_history x h ts w w'"
  shows "(\<forall>u \<in> set (users (db w)). \<exists>u' \<in> set (users (db w')). same_account u u')
    \<and> (\<forall>u' \<in> set (users (db w')). (\<exists>u \<in> set (users (db w)). same_account u u') \<or> role u' = RoleUser)"
  using history_keeps_accounts [OF assms] by (simp add: accounts_kept_def)

theorem requests_never_promote_witness:
  "\<exists>r w. Register sample_jwt sample_accounts anns_registration blog_world = (r, w)
    \<and> (\<exists>u \<in> set (users (db w)). same_account bo u)"
proof -
  obtain r w where run: "Register sample_jwt sample_accounts anns_registration blog_world = (r, w)" by fastforce
  then have "api_history sample_jwt (NewHasher 12) sample_service blog_world w"
    using api_step.account [OF account_step.register] by (auto simp: api_history_def)
  from requests_never_promote [OF this] have "\<exists>u \<in> set (users (db w)). same_account bo u"
    by (simp add: blog_world_def)
  with run show ?thesis by blast
qed

end
