(* ===== verification/Removals.thy ===== *)
theory Removals
  imports Blog_History
begin

text \<open>
  What the tables never lose, and which comments a change removes. Rows keep their id, author, post and
  parent for ever (\<open>grows\<close>): deletions are soft. A live comment goes only with a post (\<open>post_Delete\<close>) or
  with a comment it is an answer to, directly or not (\<open>comment_Delete\<close>). Lemmas: every statement and
  method of \<open>internal/post\<close> and \<open>internal/comment\<close> grows the tables and removes no more than its target.
\<close>

section \<open>Rows stay\<close>

definition grows :: "database \<Rightarrow> database \<Rightarrow> bool" where
  "grows d d' \<longleftrightarrow> (\<forall>q \<in> set (posts d). \<exists>q' \<in> set (posts d'). pr_id q' = pr_id q \<and> pr_author q' = pr_author q)
     \<and> (\<forall>c \<in> set (comments d). \<exists>c' \<in> set (comments d'). cr_id c' = cr_id c \<and> cr_post c' = cr_post c
          \<and> cr_author c' = cr_author c \<and> cr_parent c' = cr_parent c)"

lemma grows_map:
  assumes "posts d' = map f (posts d) @ ps" "comments d' = map g (comments d) @ cs"
    and "\<And>q. pr_id (f q) = pr_id q \<and> pr_author (f q) = pr_author q"
    and "\<And>c. cr_id (g c) = cr_id c \<and> cr_post (g c) = cr_post c \<and> cr_author (g c) = cr_author c
           \<and> cr_parent (g c) = cr_parent c"
  shows "grows d d'"
  unfolding grows_def assms(1,2) set_append set_map using assms(3,4) by blast

lemma grows_same: "posts d' = posts d \<Longrightarrow> comments d' = comments d \<Longrightarrow> grows d d'"
  by (rule grows_map [of d' id d "[]" id "[]"]) simp_all

lemma grows_refl [simp, intro]: "grows d d"
  by (rule grows_same) simp_all

lemma grows_trans: "grows d d1 \<Longrightarrow> grows d1 d2 \<Longrightarrow> grows d d2"
  unfolding grows_def by metis

section \<open>Comments that go\<close>

text \<open>A comment and everything that answers it, deleted rows included.\<close>

inductive below :: "comment_row list \<Rightarrow> uuid \<Rightarrow> uuid \<Rightarrow> bool" for cs i where
  itself: "below cs i i"
| answer: "below cs i j \<Longrightarrow> c \<in> set cs \<Longrightarrow> cr_parent c = Some j \<Longrightarrow> below cs i (cr_id c)"

definition stays :: "uuid set \<Rightarrow> uuid set \<Rightarrow> database \<Rightarrow> database \<Rightarrow> bool" where
  "stays I T d d' \<longleftrightarrow> (\<forall>c \<in> set (comments d). comment_live c \<longrightarrow> cr_post c \<notin> I
     \<longrightarrow> (\<forall>i \<in> T. \<not> below (comments d) i (cr_id c)) \<longrightarrow> (\<exists>c' \<in> set (comments d'). cr_id c' = cr_id c \<and> comment_live c'))"

lemma stays_same [simp]: "comments d' = comments d \<Longrightarrow> stays I T d d'"
  unfolding stays_def by metis

lemma stays_map:
  assumes "comments d' = map g (comments d) @ cs" "\<And>c. cr_id (g c) = cr_id c"
    and "\<And>c. c \<in> set (comments d) \<Longrightarrow> comment_live c \<Longrightarrow> cr_post c \<notin> I \<Longrightarrow> \<forall>i \<in> T. \<not> below (comments d) i (cr_id c)
      \<Longrightarrow> comment_live (g c)"
  shows "stays I T d d'"
  unfolding stays_def assms(1) set_append set_map
proof (intro ballI impI)
  fix c assume "c \<in> set (comments d)" "comment_live c" "cr_post c \<notin> I" "\<forall>i \<in> T. \<not> below (comments d) i (cr_id c)"
  with assms(2,3) show "\<exists>c' \<in> g ` set (comments d) \<union> set cs. cr_id c' = cr_id c \<and> comment_live c'"
    by (intro bexI [of _ "g c"]) auto
qed

lemma stays_trans: "stays {} {} d d1 \<Longrightarrow> stays {} {} d1 d2 \<Longrightarrow> stays {} {} d d2"
  unfolding stays_def by (simp, metis)

lemma stays_before: "comments d1 = comments d \<Longrightarrow> stays I T d1 d2 \<Longrightarrow> stays I T d d2"
  unfolding stays_def by simp

lemma stays_after: "stays I T d d1 \<Longrightarrow> comments d2 = comments d1 \<Longrightarrow> stays I T d d2"
  unfolding stays_def by simp

lemma thread_levels_below:
  assumes "\<forall>k \<in> set ids. below cs i k"
  shows "\<forall>k \<in> set (thread_levels n cs ids). below cs i k"
  using assms
proof (induction n arbitrary: ids)
  case (Suc n)
  have "\<forall>k \<in> set (live_replies cs ids). below cs i k"
    unfolding live_replies_iff [abs_def] Ball_def using Suc.prems by (blast intro: below.answer)
  from Suc.IH [OF this] Suc.prems show ?case by auto
qed simp

lemma thread_of_below: "k \<in> set (thread_of cs i) \<Longrightarrow> below cs i k"
  unfolding thread_of_def by (drule thread_levels_below [rule_format, rotated]) (auto intro: below.itself)

section \<open>Statements and methods\<close>

lemma statements_grow:
  "insert_post p t d = Inr (r1, d') \<Longrightarrow> grows d d' \<and> comments d' = comments d"
  "update_post i u t d = Inr (r2, d') \<Longrightarrow> grows d d' \<and> comments d' = comments d"
  "soft_delete_post i t d = Inr (r3, d') \<Longrightarrow> grows d d' \<and> comments d' = comments d"
  "soft_delete_comments_of i t d = Inr (r3, d') \<Longrightarrow> grows d d' \<and> stays {i} {} d d'"
  "increment_count i t d = Inr (r3, d') \<Longrightarrow> grows d d' \<and> comments d' = comments d"
  "insert_comment c t d = Inr (r4, d') \<Longrightarrow> grows d d' \<and> stays {} {} d d'"
  "update_content i s t d = Inr (r5, d') \<Longrightarrow> grows d d' \<and> stays {} {} d d'"
  "soft_delete_thread i t d = Inr (r3, d') \<Longrightarrow> grows d d' \<and> stays {} {i} d d'"
  "decrement_count i n t d = Inr (r3, d') \<Longrightarrow> grows d d' \<and> comments d' = comments d"
proof -
  have posts: "grows d (d\<lparr>posts := update_where P f (posts d)\<rparr>)"
    if "\<And>q. pr_id (f q) = pr_id q \<and> pr_author (f q) = pr_author q" for P f
    by (rule grows_map [of _ "\<lambda>q. if P q then f q else q" _ "[]" id "[]"]) (use that in \<open>simp_all add: update_where_def\<close>)
  have comments: "grows d (d\<lparr>comments := update_where P g (comments d)\<rparr>)"
    if "\<And>c. cr_id (g c) = cr_id c \<and> cr_post (g c) = cr_post c \<and> cr_author (g c) = cr_author c \<and> cr_parent (g c) = cr_parent c" for P g
    by (rule grows_map [of _ id _ "[]" "\<lambda>c. if P c then g c else c" "[]"]) (use that in \<open>simp_all add: update_where_def\<close>)
  let ?del = "\<lambda>c. c\<lparr>cr_deleted := Some t, cr_updated := t\<rparr>"
  show "grows d d' \<and> comments d' = comments d" if "insert_post p t d = Inr (r1, d')"
  proof -
    from that have "d' = d\<lparr>posts := posts d @ [post_row_of p t]\<rparr>"
      by (auto simp: insert_post_def Let_def split: if_splits option.splits)
    then show ?thesis by (auto intro: grows_map [of _ id _ "[post_row_of p t]" id "[]"])
  qed
  show "grows d d' \<and> stays {} {} d d'" if "insert_comment c t d = Inr (r4, d')"
  proof -
    from that have "d' = d\<lparr>comments := comments d @ [comment_row_of c t]\<rparr>"
      by (auto simp: insert_comment_def Let_def split: if_splits option.splits)
    then show ?thesis by (auto intro: grows_map [of _ id _ "[]" id "[comment_row_of c t]"] stays_map [of _ id])
  qed
  show "grows d d' \<and> comments d' = comments d" if "update_post i u t d = Inr (r2, d')"
    using that by (auto simp: update_post_def set_columns_def Let_def intro!: posts split: if_splits option.splits)
  show "grows d d' \<and> comments d' = comments d" if "soft_delete_post i t d = Inr (r3, d')"
    using that by (auto simp: soft_delete_post_def Let_def intro!: posts split: if_splits option.splits)
  show "grows d d' \<and> comments d' = comments d" if "increment_count i t d = Inr (r3, d')"
    using that by (auto simp: increment_count_def Let_def intro!: posts split: if_splits option.splits)
  show "grows d d' \<and> comments d' = comments d" if "decrement_count i n t d = Inr (r3, d')"
    using that by (auto simp: decrement_count_def Let_def intro!: posts split: if_splits option.splits)
  show "grows d d' \<and> stays {i} {} d d'" if "soft_delete_comments_of i t d = Inr (r3, d')"
    using that by (auto simp: soft_delete_comments_of_def Let_def update_where_def live_comments_of_def intro!: comments [unfolded update_where_def] stays_map [of _ "\<lambda>c. if live_comments_of i c then ?del c else c" _ "[]"] split: if_splits)
  show "grows d d' \<and> stays {} {} d d'" if "update_content i s t d = Inr (r5, d')"
    using that by (auto simp: update_content_def Let_def comment_live_def update_where_def intro!: comments [unfolded update_where_def]
      stays_map [of _ "\<lambda>c. if cr_id c = i \<and> cr_deleted c = None then c\<lparr>cr_content := s, cr_updated := t\<rparr> else c" _ "[]"]
      split: if_splits option.splits)
  show "grows d d' \<and> stays {} {i} d d'" if "soft_delete_thread i t d = Inr (r3, d')"
    using that by (auto simp: soft_delete_thread_def Let_def update_where_def intro!: comments [unfolded update_where_def]
      stays_map [of _ "\<lambda>c. if cr_id c \<in> set (thread_of (comments d) i) then ?del c else c" _ "[]"] dest: thread_of_below)
qed

text \<open>Rows stay, and live comments too, except below the given posts and comments.\<close>

definition removes :: "uuid set \<Rightarrow> uuid set \<Rightarrow> database \<Rightarrow> database \<Rightarrow> bool" where
  "removes I T d d' \<longleftrightarrow> grows d d' \<and> stays I T d d'"

lemma removes_refl [simp, intro]: "removes I T d d"
  by (simp add: removes_def)

lemma removes_trans: "removes {} {} d d1 \<Longrightarrow> removes {} {} d1 d2 \<Longrightarrow> removes {} {} d d2"
  by (auto simp: removes_def intro: grows_trans stays_trans)

lemma removes_before: "grows d d1 \<and> comments d1 = comments d \<Longrightarrow> removes I T d1 d2 \<Longrightarrow> removes I T d d2"
  by (auto simp: removes_def intro: grows_trans stays_before)

lemma removes_after: "removes I T d d1 \<Longrightarrow> grows d1 d2 \<and> comments d2 = comments d1 \<Longrightarrow> removes I T d d2"
  by (auto simp: removes_def intro: grows_trans stays_after)

lemma statements_remove:
  "insert_post p t d = Inr (r1, d') \<Longrightarrow> removes {} {} d d'"
  "update_post i u t d = Inr (r2, d') \<Longrightarrow> removes {} {} d d'"
  "soft_delete_comments_of i t d = Inr (r3, d') \<Longrightarrow> removes {i} {} d d'"
  "insert_comment c t d = Inr (r4, d') \<Longrightarrow> removes {} {} d d'"
  "update_content i s t d = Inr (r5, d') \<Longrightarrow> removes {} {} d d'"
  "soft_delete_thread i t d = Inr (r3, d') \<Longrightarrow> removes {} {i} d d'"
  by (auto simp: removes_def dest: statements_grow)

lemma execute_removes:
  assumes "execute st w = (r, w')" and "\<And>t d a d'. st t d = Inr (a, d') \<Longrightarrow> removes I T d d'"
  shows "removes I T (db w) (db w')"
  using assms(1) by (rule execute_invariant [where I = "removes I T (db w)"]) (auto intro: assms(2))

lemma InTx_removes:
  assumes "InTx fn w = (r, w')" and "\<And>v a v'. fn v = (Inr a, v') \<Longrightarrow> removes I T (db v) (db v')"
  shows "removes I T (db w) (db w')"
  using assms(1)
proof (cases rule: InTx_cases)
  case (committed a w1 w2)
  with assms(2) [OF committed(2)] show ?thesis by simp
next
  case (in_doubt a f w1 w2)
  with assms(2) [OF in_doubt(2)] show ?thesis by simp
qed simp_all

lemma bodies_remove:
  "post_delete_body i w = (Inr u, w') \<Longrightarrow> removes {i} {} (db w) (db w')"
  "comment_create_body c w = (Inr c', w') \<Longrightarrow> removes {} {} (db w) (db w')"
  "comment_delete_body i q w = (Inr u, w') \<Longrightarrow> removes {} {i} (db w) (db w')"
  by (auto simp: post_delete_body_def comment_create_body_def comment_delete_body_def split: sum.splits prod.splits if_splits
      dest!: execute_ok dest: statements_remove statements_grow(3,5,9) intro: removes_before removes_after)

lemma methods_remove:
  "post_Create p w = (r1, w') \<Longrightarrow> removes {} {} (db w) (db w')"
  "post_Update i u w = (r1, w') \<Longrightarrow> removes {} {} (db w) (db w')"
  "post_Delete i w = (r2, w') \<Longrightarrow> removes {i} {} (db w) (db w')"
  "comment_Create c w = (r3, w') \<Longrightarrow> removes {} {} (db w) (db w')"
  "comment_Update i s w = (r3, w') \<Longrightarrow> removes {} {} (db w) (db w')"
  "comment_Delete i q w = (r2, w') \<Longrightarrow> removes {} {i} (db w) (db w')"
  by (auto simp: post_Create_def post_Update_def post_Delete_def comment_Create_def comment_Update_def
      comment_Delete_def split: sum.splits prod.splits if_splits option.splits
      dest: execute_removes [OF _ statements_remove(1)] execute_removes [OF _ statements_remove(2)]
        execute_removes [OF _ statements_remove(5)] post_rows.byid_frame [unfolded post_repository_simps]
        InTx_removes [OF _ bodies_remove(1)] InTx_removes [OF _ bodies_remove(2)] InTx_removes [OF _ bodies_remove(3)])

section \<open>Whose comments go\<close>

text \<open>A live comment that is gone was on a post, or below a comment, of an owner the change may act for.\<close>

definition removals :: "(uuid \<Rightarrow> bool) \<Rightarrow> database \<Rightarrow> database \<Rightarrow> bool" where
  "removals may d d' \<longleftrightarrow> (\<forall>c \<in> set (comments d). comment_live c \<longrightarrow>
       (\<exists>c' \<in> set (comments d'). cr_id c' = cr_id c \<and> comment_live c')
     \<or> (\<exists>p \<in> set (posts d). pr_id p = cr_post c \<and> may (pr_author p))
     \<or> (\<exists>b \<in> set (comments d). may (cr_author b) \<and> below (comments d) (cr_id b) (cr_id c)))"

lemma removes_removals:
  assumes "removes I T d d'" "blog_wf d" "\<forall>p \<in> set (posts d). pr_id p \<in> I \<longrightarrow> may (pr_author p)"
    and "\<forall>i \<in> T. \<exists>b \<in> set (comments d). cr_id b = i \<and> may (cr_author b)"
  shows "removals may d d'"
  unfolding removals_def
proof (intro ballI impI)
  fix c assume c: "c \<in> set (comments d)" "comment_live c"
  have "comment_row_wf d c" using assms(2) c(1) by (simp add: blog_wf_def comments_wf_def)
  then obtain p where p: "p \<in> set (posts d)" "pr_id p = cr_post c" by (auto simp: comment_row_wf_def)
  consider "cr_post c \<in> I" | i where "i \<in> T" "below (comments d) i (cr_id c)"
    | c' where "c' \<in> set (comments d')" "cr_id c' = cr_id c" "comment_live c'"
    using assms(1) c unfolding removes_def stays_def by blast
  then show "(\<exists>c' \<in> set (comments d'). cr_id c' = cr_id c \<and> comment_live c')
     \<or> (\<exists>p \<in> set (posts d). pr_id p = cr_post c \<and> may (pr_author p))
     \<or> (\<exists>b \<in> set (comments d). may (cr_author b) \<and> below (comments d) (cr_id b) (cr_id c))"
  proof cases
    case 1 then show ?thesis using p assms(3) by metis
  next
    case 2 then show ?thesis using assms(4) by metis
  next
    case 3 then show ?thesis by blast
  qed
qed

lemma removals_same: "comments d' = comments d \<Longrightarrow> removals may d d'"
  unfolding removals_def by metis

lemma grows_keys:
  assumes "grows d d1" "blog_wf d1"
  shows "p \<in> set (posts d) \<Longrightarrow> p1 \<in> set (posts d1) \<Longrightarrow> pr_id p1 = pr_id p \<Longrightarrow> pr_author p1 = pr_author p"
    and "c \<in> set (comments d) \<Longrightarrow> c1 \<in> set (comments d1) \<Longrightarrow> cr_id c1 = cr_id c
      \<Longrightarrow> cr_post c1 = cr_post c \<and> cr_author c1 = cr_author c \<and> cr_parent c1 = cr_parent c"
proof -
  have ids: "distinct (map pr_id (posts d1))" "distinct (map cr_id (comments d1))"
    using assms(2) by (simp_all add: blog_wf_def posts_wf_def comments_wf_def)
  show "pr_author p1 = pr_author p" if p: "p \<in> set (posts d)" "p1 \<in> set (posts d1)" "pr_id p1 = pr_id p"
  proof -
    from assms(1) p(1) obtain q where q: "q \<in> set (posts d1)" "pr_id q = pr_id p" "pr_author q = pr_author p"
      unfolding grows_def by blast
    have "p1 = q" by (rule post_key.key_unique [OF ids(1) p(2) q(1)]) (simp add: p q)
    with q(3) show ?thesis by simp
  qed
  show "cr_post c1 = cr_post c \<and> cr_author c1 = cr_author c \<and> cr_parent c1 = cr_parent c"
    if c: "c \<in> set (comments d)" "c1 \<in> set (comments d1)" "cr_id c1 = cr_id c"
  proof -
    from assms(1) c(1) obtain b where b: "b \<in> set (comments d1)" "cr_id b = cr_id c" "cr_post b = cr_post c"
        "cr_author b = cr_author c" "cr_parent b = cr_parent c"
      unfolding grows_def by blast
    have "c1 = b" by (rule comment_key.key_unique [OF ids(2) c(2) b(1)]) (simp add: c b)
    with b show ?thesis by simp
  qed
qed

text \<open>What a stored comment answers does not change when rows are added.\<close>

lemma below_before:
  assumes "grows d d1" "blog_wf d" "blog_wf d1" "below (comments d1) i k" "k \<in> cr_id ` set (comments d)"
  shows "below (comments d) i k \<and> i \<in> cr_id ` set (comments d)"
  using assms(4,5)
proof induction
  case (answer j c1)
  then obtain c where c: "c \<in> set (comments d)" "cr_id c1 = cr_id c" by auto
  with grows_keys(2) [OF assms(1,3)] answer.hyps have p: "cr_parent c = Some j" by metis
  have "comment_row_wf d c" using assms(2) c(1) by (simp add: blog_wf_def comments_wf_def)
  with p have "j \<in> cr_id ` set (comments d)" by (auto simp: comment_row_wf_def)
  with answer.IH c p show ?case by (auto intro: below.answer)
qed (simp add: below.itself)

lemma removals_trans:
  assumes "removals may d d1" "removals may d1 d2" "grows d d1" "blog_wf d" "blog_wf d1"
  shows "removals may d d2"
  unfolding removals_def
proof (intro ballI impI)
  fix c assume c: "c \<in> set (comments d)" "comment_live c"
  let ?goal = "(\<exists>c' \<in> set (comments d2). cr_id c' = cr_id c \<and> comment_live c')
     \<or> (\<exists>p \<in> set (posts d). pr_id p = cr_post c \<and> may (pr_author p))
     \<or> (\<exists>b \<in> set (comments d). may (cr_author b) \<and> below (comments d) (cr_id b) (cr_id c))"
  show ?goal
  proof (cases "\<exists>c' \<in> set (comments d1). cr_id c' = cr_id c \<and> comment_live c'")
    case True
    then obtain c1 where c1: "c1 \<in> set (comments d1)" "cr_id c1 = cr_id c" "comment_live c1" by blast
    note k = grows_keys(2) [OF assms(3,5) c(1) c1(1,2)]
    consider "\<exists>c' \<in> set (comments d2). cr_id c' = cr_id c \<and> comment_live c'"
      | p1 where "p1 \<in> set (posts d1)" "pr_id p1 = cr_post c" "may (pr_author p1)"
      | b1 where "b1 \<in> set (comments d1)" "may (cr_author b1)" "below (comments d1) (cr_id b1) (cr_id c)"
      using assms(2) c1 k unfolding removals_def by metis
    then show ?goal
    proof cases
      case 2
      have "comment_row_wf d c" using assms(4) c(1) by (simp add: blog_wf_def comments_wf_def)
      then obtain p where "p \<in> set (posts d)" "pr_id p = cr_post c" by (auto simp: comment_row_wf_def)
      with 2 grows_keys(1) [OF assms(3,5), of p p1] show ?thesis by metis
    next
      case 3
      from below_before [OF assms(3,4,5) 3(3)] c(1) obtain b where b: "b \<in> set (comments d)" "cr_id b = cr_id b1"
          "below (comments d) (cr_id b) (cr_id c)"
        by (metis imageE imageI)
      with 3(1,2) grows_keys(2) [OF assms(3,5) b(1), of b1] show ?thesis by metis
    qed blast
  next
    case False
    with assms(1) c show ?goal unfolding removals_def by blast
  qed
qed

end
