(* ===== verification/Ownership.thy ===== *)
theory Ownership
  imports Removals
begin

text \<open>
  Whose content a request can touch (\<open>internal/post\<close>, \<open>internal/comment\<close>). A change of the tables is
  described by the posts and the comments whose text it may change and the authors of what it adds
  (\<open>kept\<close>). Lemmas: every statement, every repository method and every operation stays within those
  of its target, also when it fails or its reply is lost; and an operation on somebody else's post or
  comment changes nothing. \<open>respectful\<close> puts this together with the comments that go (\<open>Removals\<close>).
\<close>

section \<open>What stays\<close>

definition same_text :: "post_row \<Rightarrow> post_row \<Rightarrow> bool" where
  "same_text q q' \<longleftrightarrow> pr_id q' = pr_id q \<and> pr_author q' = pr_author q \<and> pr_title q' = pr_title q
     \<and> pr_slug q' = pr_slug q \<and> pr_content q' = pr_content q \<and> pr_status q' = pr_status q
     \<and> pr_published q' = pr_published q \<and> pr_created q' = pr_created q \<and> pr_deleted q' = pr_deleted q"

text \<open>A comment may still go with the thread or the post it is on.\<close>

definition same_comment :: "comment_row \<Rightarrow> comment_row \<Rightarrow> bool" where
  "same_comment c c' \<longleftrightarrow> cr_id c' = cr_id c \<and> cr_post c' = cr_post c \<and> cr_author c' = cr_author c
     \<and> cr_parent c' = cr_parent c \<and> cr_content c' = cr_content c \<and> cr_created c' = cr_created c"

definition kept :: "uuid set \<Rightarrow> uuid set \<Rightarrow> uuid set \<Rightarrow> database \<Rightarrow> database \<Rightarrow> bool" where
  "kept I J A d d' \<longleftrightarrow>
     (\<forall>q \<in> set (posts d). pr_id q \<notin> I \<longrightarrow> (\<exists>q' \<in> set (posts d'). same_text q q'))
   \<and> (\<forall>c \<in> set (comments d). cr_id c \<notin> J \<longrightarrow> (\<exists>c' \<in> set (comments d'). same_comment c c'))
   \<and> (\<forall>q' \<in> set (posts d'). (\<exists>q \<in> set (posts d). pr_id q' = pr_id q \<and> pr_author q' = pr_author q) \<or> pr_author q' \<in> A)
   \<and> (\<forall>c' \<in> set (comments d'). (\<exists>c \<in> set (comments d). cr_id c' = cr_id c \<and> cr_author c' = cr_author c) \<or> cr_author c' \<in> A)"

lemma same_refl [simp]: "same_text q q" "same_comment c c"
  by (simp_all add: same_text_def same_comment_def)

lemma same_trans: "same_text q q1 \<Longrightarrow> same_text q1 q2 \<Longrightarrow> same_text q q2"
  "same_comment c c1 \<Longrightarrow> same_comment c1 c2 \<Longrightarrow> same_comment c c2"
  by (simp_all add: same_text_def same_comment_def)

lemma kept_map:
  assumes "posts d' = map f (posts d) @ ps" "comments d' = map g (comments d) @ cs"
    and "\<And>q. pr_id (f q) = pr_id q \<and> pr_author (f q) = pr_author q" "\<And>q. pr_id q \<notin> I \<Longrightarrow> same_text q (f q)"
    and "\<And>c. cr_id (g c) = cr_id c \<and> cr_author (g c) = cr_author c" "\<And>c. cr_id c \<notin> J \<Longrightarrow> same_comment c (g c)"
    and "\<forall>q \<in> set ps. pr_author q \<in> A" "\<forall>c \<in> set cs. cr_author c \<in> A"
  shows "kept I J A d d'"
  unfolding kept_def assms(1,2) set_append set_map using assms(3-) by (intro conjI ballI; blast)

lemma kept_same: "posts d' = posts d \<Longrightarrow> comments d' = comments d \<Longrightarrow> kept I J A d d'"
  by (rule kept_map [of d' id d "[]" id "[]"]) simp_all

lemma kept_refl [simp, intro]: "kept I J A d d"
  by (rule kept_same) simp_all

lemma kept_trans:
  assumes "kept I J A d d1" "kept I J A d1 d2"
  shows "kept I J A d d2"
  unfolding kept_def
proof (intro conjI ballI impI)
  fix q assume "q \<in> set (posts d)" "pr_id q \<notin> I"
  with assms(1) obtain q1 where "q1 \<in> set (posts d1)" "same_text q q1" "pr_id q1 \<notin> I"
    unfolding kept_def by (metis same_text_def)
  with assms(2) show "\<exists>q' \<in> set (posts d2). same_text q q'"
    unfolding kept_def by (meson same_trans(1))
next
  fix c assume "c \<in> set (comments d)" "cr_id c \<notin> J"
  with assms(1) obtain c1 where "c1 \<in> set (comments d1)" "same_comment c c1" "cr_id c1 \<notin> J"
    unfolding kept_def by (metis same_comment_def)
  with assms(2) show "\<exists>c' \<in> set (comments d2). same_comment c c'"
    unfolding kept_def by (meson same_trans(2))
qed (use assms in \<open>unfold kept_def, metis+\<close>)

section \<open>Statements and methods\<close>

lemma kept_update_posts:
  assumes "\<And>q. P q \<Longrightarrow> pr_id (f q) = pr_id q \<and> pr_author (f q) = pr_author q"
    and "\<And>q. P q \<Longrightarrow> pr_id q \<notin> I \<Longrightarrow> same_text q (f q)"
  shows "kept I J A d (d\<lparr>posts := update_where P f (posts d)\<rparr>)"
  by (rule kept_map [of _ "\<lambda>q. if P q then f q else q" _ "[]" id "[]"]) (use assms in \<open>auto simp: update_where_def\<close>)

lemma kept_update_comments:
  assumes "\<And>c. P c \<Longrightarrow> cr_id (g c) = cr_id c \<and> cr_author (g c) = cr_author c"
    and "\<And>c. P c \<Longrightarrow> cr_id c \<notin> J \<Longrightarrow> same_comment c (g c)"
  shows "kept I J A d (d\<lparr>comments := update_where P g (comments d)\<rparr>)"
  by (rule kept_map [of _ id _ "[]" "\<lambda>c. if P c then g c else c" "[]"]) (use assms in \<open>auto simp: update_where_def\<close>)

lemma statements_kept:
  "insert_post p t d = Inr (r1, d') \<Longrightarrow> kept {} {} {post_author p} d d'"
  "update_post i u t d = Inr (r2, d') \<Longrightarrow> kept {i} {} {} d d'"
  "soft_delete_post i t d = Inr (r3, d') \<Longrightarrow> kept {i} {} {} d d'"
  "soft_delete_comments_of i t d = Inr (r3, d') \<Longrightarrow> kept I {} A d d'"
  "increment_count i t d = Inr (r3, d') \<Longrightarrow> kept {} {} A d d'"
  "insert_comment c t d = Inr (r4, d') \<Longrightarrow> kept {} {} {cmt_author c} d d'"
  "update_content i s t d = Inr (r5, d') \<Longrightarrow> kept {} {i} {} d d'"
  "soft_delete_thread i t d = Inr (r3, d') \<Longrightarrow> kept {} {} {} d d'"
  "decrement_count i n t d = Inr (r3, d') \<Longrightarrow> kept {} {} {} d d'"
proof -
  assume "insert_post p t d = Inr (r1, d')"
  then have "d' = d\<lparr>posts := posts d @ [post_row_of p t]\<rparr>"
    by (auto simp: insert_post_def Let_def split: if_splits option.splits)
  then show "kept {} {} {post_author p} d d'" by (intro kept_map [of _ id _ "[post_row_of p t]" id "[]"]) auto
next
  assume "insert_comment c t d = Inr (r4, d')"
  then have "d' = d\<lparr>comments := comments d @ [comment_row_of c t]\<rparr>"
    by (auto simp: insert_comment_def Let_def split: if_splits option.splits)
  then show "kept {} {} {cmt_author c} d d'"
    by (intro kept_map [of _ id _ "[]" id "[comment_row_of c t]"]) (auto simp: comment_row_of_def)
qed (auto simp: update_post_def soft_delete_post_def soft_delete_comments_of_def increment_count_def update_content_def
    soft_delete_thread_def decrement_count_def Let_def set_columns_def same_text_def same_comment_def
    intro!: kept_update_posts kept_update_comments split: if_splits option.splits)

lemma execute_within:
  assumes "execute st w = (r, w')" and "\<And>t d a d'. st t d = Inr (a, d') \<Longrightarrow> kept I J A d d'"
  shows "kept I J A (db w) (db w')"
  using assms(1) by (rule execute_invariant [where I = "kept I J A (db w)"]) (auto intro: assms(2))

lemma InTx_within:
  assumes "InTx fn w = (r, w')" and "\<And>v a v'. fn v = (Inr a, v') \<Longrightarrow> kept I J A (db v) (db v')"
  shows "kept I J A (db w) (db w')"
  using assms(1) by (rule InTx_invariant [where I = "kept I J A (db w)"])
    (auto dest: assms(2) intro: kept_trans)

lemma bodies_kept:
  "post_delete_body i w = (Inr u, w') \<Longrightarrow> kept {i} {} {} (db w) (db w')"
  "comment_create_body c w = (Inr c', w') \<Longrightarrow> kept {} {} {cmt_author c} (db w) (db w')"
  "comment_delete_body i q w = (Inr u, w') \<Longrightarrow> kept {} {} {} (db w) (db w')"
  by (auto simp: post_delete_body_def comment_create_body_def comment_delete_body_def split: sum.splits prod.splits if_splits
      dest!: execute_ok intro: kept_trans statements_kept)

lemma methods_kept:
  "post_Create p w = (r1, w') \<Longrightarrow> kept {} {} {post_author p} (db w) (db w')"
  "post_Update i u w = (r1, w') \<Longrightarrow> kept {i} {} {} (db w) (db w')"
  "post_Delete i w = (r2, w') \<Longrightarrow> kept {i} {} {} (db w) (db w')"
  "comment_Create c w = (r3, w') \<Longrightarrow> kept {} {} {cmt_author c} (db w) (db w')"
  "comment_Update i s w = (r3, w') \<Longrightarrow> kept {} {i} {} (db w) (db w')"
  "comment_Delete i q w = (r2, w') \<Longrightarrow> kept {} {} {} (db w) (db w')"
  by (auto simp: post_Create_def post_Update_def post_Delete_def comment_Create_def comment_Update_def
      comment_Delete_def split: sum.splits prod.splits if_splits option.splits
      dest: execute_within [OF _ statements_kept(1)] execute_within [OF _ statements_kept(2)]
        execute_within [OF _ statements_kept(7)] post_rows.byid_frame [unfolded post_repository_simps]
        InTx_within [OF _ bodies_kept(1)] InTx_within [OF _ bodies_kept(2)] InTx_within [OF _ bodies_kept(3)])

section \<open>Operations\<close>

lemma live_post_db: "db w' = db w \<Longrightarrow> live_post w' = live_post w" "db w' = db w \<Longrightarrow> live_comment w' = live_comment w"
  by (simp_all add: fun_eq_iff live_post_def live_comment_def)

lemma owner_reads:
  "post_AuthorOf i w = (Inr (au, st), w') \<Longrightarrow> \<exists>p. live_post w i = Some p \<and> post_author p = au \<and> db w' = db w"
  "comment_AuthorAndPostOf i w = (Inr (au, po), w') \<Longrightarrow> \<exists>c. live_comment w i = Some c \<and> cmt_author c = au \<and> db w' = db w"
  using post_rows.authorof_ok [unfolded post_repository_simps] post_rows.authorof_frame [unfolded post_repository_simps]
    comment_rows.owner_ok [unfolded comment_repository_simps] comment_rows.owner_frame [unfolded comment_repository_simps]
  by (metis, metis)

lemma create_attempts_kept:
  "create_attempts x (post_repository x) p base n err w = (r, w') \<Longrightarrow> kept {} {} {post_author p} (db w) (db w')"
proof (induction n arbitrary: err w)
  case (Suc n)
  obtain i w1 where i: "new_uuid w = (i, w1)" by fastforce
  obtain s w2 where s: "slug_candidate (slugAttempts - Suc n) base w1 = (s, w2)" by fastforce
  obtain q w3 where q: "post_Create (p\<lparr>post_id := i, slug := s\<rparr>) w2 = (q, w3)" by fastforce
  have "db w2 = db w" using blog_reads_same_db(5) [OF s] blog_reads_same_db(6) [OF i] by simp
  with methods_kept(1) [OF q] have k: "kept {} {} {post_author p} (db w) (db w3)" by simp
  from Suc.prems i s q consider "db w' = db w3" | e where "create_attempts x (post_repository x) p base n (Some e) w3 = (r, w')"
    by (auto split: sum.splits if_splits)
  then show ?case using k Suc.IH kept_trans [OF k] by cases auto
qed simp

lemma update_attempts_kept:
  "update_attempts (post_repository x) i u base n err w = (r, w') \<Longrightarrow> kept {i} {} {} (db w) (db w')"
proof (induction n arbitrary: err w)
  case (Suc n)
  obtain s w1 where s: "slug_candidate (slugAttempts - Suc n) base w = (s, w1)" by fastforce
  obtain q w2 where q: "post_Update i (u\<lparr>up_slug := Some s\<rparr>) w1 = (q, w2)" by fastforce
  have k: "kept {i} {} {} (db w) (db w2)" using methods_kept(2) [OF q] blog_reads_same_db(5) [OF s] by simp
  from Suc.prems s q consider "w' = w2" | e where "update_attempts (post_repository x) i u base n (Some e) w2 = (r, w')"
    by (auto split: sum.splits if_splits)
  then show ?case using k Suc.IH kept_trans [OF k] by cases auto
qed simp

lemma operations_kept:
  "post_svc_Create x (post_repository x) a ci w = (r1, w') \<Longrightarrow> kept {} {} {actor_id a} (db w) (db w')"
  "comment_svc_Create x comment_repository (post_svc_ByID (post_repository x)) a cc w = (r3, w')
     \<Longrightarrow> kept {} {} {actor_id a} (db w) (db w')"
  "comment_svc_Delete x comment_repository a i w = (r2, w') \<Longrightarrow> kept {} {} {} (db w) (db w')"
  by (auto simp: post_svc_Create_def comment_svc_Create_def comment_svc_Delete_def Let_def split: prod.splits sum.splits if_splits
      dest!: blog_reads_same_db create_attempts_kept methods_kept(4,6))

text \<open>An operation on a post or a comment of somebody else does nothing.\<close>

lemma owned_operations_kept:
  "post_svc_Update x (post_repository x) a i req w = (r1, w') \<Longrightarrow> kept {i} {} {} (db w) (db w')
     \<and> (db w' = db w \<or> (\<exists>p. live_post w i = Some p \<and> CanModify a (post_author p)))"
  "post_svc_Delete x (post_repository x) a i w = (r2, w') \<Longrightarrow> kept {i} {} {} (db w) (db w')
     \<and> (db w' = db w \<or> (\<exists>p. live_post w i = Some p \<and> CanModify a (post_author p)))"
  "comment_svc_Update x comment_repository a i s w = (r3, w') \<Longrightarrow> kept {} {i} {} (db w) (db w')
     \<and> (db w' = db w \<or> (\<exists>c. live_comment w i = Some c \<and> CanModify a (cmt_author c)))"
  by (auto simp: post_svc_Update_def post_svc_Delete_def comment_svc_Update_def updateWithSlugRetry_def authorize_def Let_def
      split: prod.splits sum.splits if_splits option.splits
      dest!: owner_reads update_of_request_frame methods_kept(2,3,5) update_attempts_kept
      dest: blog_reads_same_db(2,3))

text \<open>The same for what goes: nothing, the comments of the post, or the thread of the comment.\<close>

lemma create_attempts_remove:
  "create_attempts x (post_repository x) p base n err w = (r, w') \<Longrightarrow> removes {} {} (db w) (db w')"
proof (induction n arbitrary: err w)
  case (Suc n)
  obtain i w1 where i: "new_uuid w = (i, w1)" by fastforce
  obtain s w2 where s: "slug_candidate (slugAttempts - Suc n) base w1 = (s, w2)" by fastforce
  obtain q w3 where q: "post_Create (p\<lparr>post_id := i, slug := s\<rparr>) w2 = (q, w3)" by fastforce
  have "db w2 = db w" using blog_reads_same_db(5) [OF s] blog_reads_same_db(6) [OF i] by simp
  with methods_remove(1) [OF q] have k: "removes {} {} (db w) (db w3)" by simp
  from Suc.prems i s q consider "db w' = db w3" | e where "create_attempts x (post_repository x) p base n (Some e) w3 = (r, w')"
    by (auto split: sum.splits if_splits)
  then show ?case using k Suc.IH removes_trans [OF k] by cases auto
qed simp

lemma update_attempts_remove:
  "update_attempts (post_repository x) i u base n err w = (r, w') \<Longrightarrow> removes {} {} (db w) (db w')"
proof (induction n arbitrary: err w)
  case (Suc n)
  obtain s w1 where s: "slug_candidate (slugAttempts - Suc n) base w = (s, w1)" by fastforce
  obtain q w2 where q: "post_Update i (u\<lparr>up_slug := Some s\<rparr>) w1 = (q, w2)" by fastforce
  have k: "removes {} {} (db w) (db w2)" using methods_remove(2) [OF q] blog_reads_same_db(5) [OF s] by simp
  from Suc.prems s q consider "w' = w2" | e where "update_attempts (post_repository x) i u base n (Some e) w2 = (r, w')"
    by (auto split: sum.splits if_splits)
  then show ?case using k Suc.IH removes_trans [OF k] by cases auto
qed simp

lemma operations_remove:
  "post_svc_Create x (post_repository x) a ci w = (r1, w') \<Longrightarrow> removes {} {} (db w) (db w')"
  "post_svc_Update x (post_repository x) a i req w = (r1, w') \<Longrightarrow> removes {} {} (db w) (db w')"
  "post_svc_Delete x (post_repository x) a i w = (r2, w') \<Longrightarrow> removes {i} {} (db w) (db w')"
  "comment_svc_Create x comment_repository (post_svc_ByID (post_repository x)) a cc w = (r3, w') \<Longrightarrow> removes {} {} (db w) (db w')"
  "comment_svc_Update x comment_repository a i s w = (r3, w') \<Longrightarrow> removes {} {} (db w) (db w')"
proof -
  assume "post_svc_Update x (post_repository x) a i req w = (r1, w')"
  then show "removes {} {} (db w) (db w')"
    by (auto simp: post_svc_Update_def updateWithSlugRetry_def split: prod.splits sum.splits if_splits option.splits
      dest!: blog_reads_same_db update_of_request_frame methods_remove(2) update_attempts_remove)
qed (auto simp: post_svc_Create_def post_svc_Delete_def comment_svc_Create_def comment_svc_Update_def
    Let_def split: prod.splits sum.splits if_splits option.splits
    dest!: blog_reads_same_db create_attempts_remove methods_remove(3-5))

lemma comment_svc_Delete_removes:
  "comment_svc_Delete x comment_repository a i w = (r2, w') \<Longrightarrow> removes {} {i} (db w) (db w')
     \<and> (db w' = db w \<or> (\<exists>c. live_comment w i = Some c \<and> CanModify a (cmt_author c)))"
  by (auto simp: comment_svc_Delete_def split: prod.splits sum.splits if_splits
      dest!: owner_reads(2) methods_remove(6) dest: blog_reads_same_db(3))

section \<open>Owners\<close>

text \<open>What is kept when a request may change the texts of some owners and add texts of some authors.\<close>

definition owners_kept :: "(uuid \<Rightarrow> bool) \<Rightarrow> (uuid \<Rightarrow> bool) \<Rightarrow> database \<Rightarrow> database \<Rightarrow> bool" where
  "owners_kept may self d d' \<longleftrightarrow>
     (\<forall>q \<in> set (posts d). \<not> may (pr_author q) \<longrightarrow> (\<exists>q' \<in> set (posts d'). same_text q q'))
   \<and> (\<forall>c \<in> set (comments d). \<not> may (cr_author c) \<longrightarrow> (\<exists>c' \<in> set (comments d'). same_comment c c'))
   \<and> (\<forall>q' \<in> set (posts d'). (\<exists>q \<in> set (posts d). pr_id q' = pr_id q \<and> pr_author q' = pr_author q) \<or> self (pr_author q'))
   \<and> (\<forall>c' \<in> set (comments d'). (\<exists>c \<in> set (comments d). cr_id c' = cr_id c \<and> cr_author c' = cr_author c) \<or> self (cr_author c'))"

lemma kept_owners:
  assumes "kept I J A d d'" "\<forall>q \<in> set (posts d). pr_id q \<in> I \<longrightarrow> may (pr_author q)"
    "\<forall>c \<in> set (comments d). cr_id c \<in> J \<longrightarrow> may (cr_author c)" "\<forall>a \<in> A. self a"
  shows "owners_kept may self d d'"
  using assms unfolding kept_def owners_kept_def by (intro conjI ballI impI; blast)

lemma owners_kept_same: "posts d' = posts d \<Longrightarrow> comments d' = comments d \<Longrightarrow> owners_kept may self d d'"
  by (rule kept_owners [OF kept_same, where I = "{}" and J = "{}" and A = "{}"]) simp_all

lemma owners_kept_trans:
  assumes "owners_kept may self d d1" "owners_kept may self d1 d2"
  shows "owners_kept may self d d2"
  unfolding owners_kept_def
proof (intro conjI ballI impI)
  fix q assume "q \<in> set (posts d)" "\<not> may (pr_author q)"
  with assms(1) obtain q1 where "q1 \<in> set (posts d1)" "same_text q q1" "\<not> may (pr_author q1)"
    unfolding owners_kept_def by (metis same_text_def)
  with assms(2) show "\<exists>q' \<in> set (posts d2). same_text q q'"
    unfolding owners_kept_def by (meson same_trans(1))
next
  fix c assume "c \<in> set (comments d)" "\<not> may (cr_author c)"
  with assms(1) obtain c1 where "c1 \<in> set (comments d1)" "same_comment c c1" "\<not> may (cr_author c1)"
    unfolding owners_kept_def by (metis same_comment_def)
  with assms(2) show "\<exists>c' \<in> set (comments d2). same_comment c c'"
    unfolding owners_kept_def by (meson same_trans(2))
qed (use assms in \<open>unfold owners_kept_def, metis+\<close>)

text \<open>On well-formed tables the owner an operation checked is the owner of the row it changes.\<close>

lemma owner_of_row:
  assumes "blog_wf (db w)"
  shows "live_post w i = Some p \<Longrightarrow> q \<in> set (posts (db w)) \<Longrightarrow> pr_id q = i \<Longrightarrow> pr_author q = post_author p"
    and "live_comment w i = Some c \<Longrightarrow> b \<in> set (comments (db w)) \<Longrightarrow> cr_id b = i \<Longrightarrow> cr_author b = cmt_author c"
proof -
  have d: "distinct (map pr_id (posts (db w)))" "distinct (map cr_id (comments (db w)))"
    using assms by (simp_all add: blog_wf_def posts_wf_def comments_wf_def)
  show "pr_author q = post_author p" if q: "live_post w i = Some p" "q \<in> set (posts (db w))" "pr_id q = i"
  proof -
    from q(1) obtain r where r: "live_row (db w) i = Some r" "p = plain_post r" by (auto simp: live_post_def)
    with live_row_Some [OF r(1)] q d(1) have "q = r" by (metis distinct_map inj_onD)
    with r(2) show ?thesis by simp
  qed
  show "cr_author b = cmt_author c" if b: "live_comment w i = Some c" "b \<in> set (comments (db w))" "cr_id b = i"
  proof -
    from b(1) obtain r where r: "live_comment_row (db w) i = Some r" "c = plain_comment r" by (auto simp: live_comment_def)
    with live_comment_row_Some [OF r(1)] b d(2) have "b = r" by (metis distinct_map inj_onD)
    with r(2) show ?thesis by simp
  qed
qed

definition acts_within :: "(uuid \<Rightarrow> bool) \<Rightarrow> (uuid \<Rightarrow> bool) \<Rightarrow> actor \<Rightarrow> bool" where
  "acts_within may self a \<longleftrightarrow> (\<forall>owner. CanModify a owner \<longrightarrow> may owner) \<and> self (actor_id a)"

text \<open>What the bearer of an accepted token, or nobody, may change and sign.\<close>

definition may_modify :: "actor option \<Rightarrow> uuid \<Rightarrow> bool" where
  "may_modify a owner \<longleftrightarrow> (case a of None \<Rightarrow> False | Some b \<Rightarrow> CanModify b owner)"

definition signs_as :: "actor option \<Rightarrow> uuid \<Rightarrow> bool" where
  "signs_as a author \<longleftrightarrow> (case a of None \<Rightarrow> False | Some b \<Rightarrow> actor_id b = author)"

definition respectful :: "(uuid \<Rightarrow> bool) \<Rightarrow> (uuid \<Rightarrow> bool) \<Rightarrow> world \<Rightarrow> world \<Rightarrow> bool" where
  "respectful may self w w' \<longleftrightarrow> (blog_wf (db w) \<longrightarrow> blog_wf (db w') \<and> owners_kept may self (db w) (db w')
     \<and> grows (db w) (db w') \<and> removals may (db w) (db w'))"

lemma respectful_beside:
  assumes "posts (db w') = posts (db w)" "comments (db w') = comments (db w)" "blog_wf (db w) \<Longrightarrow> blog_wf (db w')"
  shows "respectful may self w w'"
  using assms by (simp add: respectful_def owners_kept_same grows_same removals_same)

lemma respectful_same: "db w' = db w \<Longrightarrow> respectful may self w w'"
  by (rule respectful_beside) simp_all

lemma respectful_trans: "respectful may self w w1 \<Longrightarrow> respectful may self w1 w2 \<Longrightarrow> respectful may self w w2"
  unfolding respectful_def by (blast intro: owners_kept_trans grows_trans removals_trans)

lemma account_step_respectful: "account_step x (blog_accounts x h ts) w w' \<Longrightarrow> respectful may self w w'"
  using account_step_beside [of x h ts w w'] blog_wf_beside [of "db w" "db w'"]
  by (simp add: respectful_beside beside_def)

text \<open>A change of known extent whose targets belong to owners the actor may act for.\<close>

lemma respectfulI:
  assumes "kept I J A (db w) (db w')" "removes I T (db w) (db w')" "blog_wf (db w) \<Longrightarrow> blog_wf (db w')"
    and "blog_wf (db w) \<Longrightarrow> \<forall>q \<in> set (posts (db w)). pr_id q \<in> I \<longrightarrow> may (pr_author q)"
    and "blog_wf (db w) \<Longrightarrow> \<forall>c \<in> set (comments (db w)). cr_id c \<in> J \<longrightarrow> may (cr_author c)"
    and "blog_wf (db w) \<Longrightarrow> \<forall>i \<in> T. \<exists>b \<in> set (comments (db w)). cr_id b = i \<and> may (cr_author b)"
    and "\<forall>b \<in> A. self b"
  shows "respectful may self w w'"
  using kept_owners [OF assms(1), of may self] removes_removals [OF assms(2), of may] assms(2-)
  by (auto simp: respectful_def removes_def)

lemma requests_respectful:
  assumes a: "acts_within may self a"
  shows "post_svc_Create x (post_repository x) a ci w = (r1, w') \<Longrightarrow> respectful may self w w'"
    "post_svc_Update x (post_repository x) a i req w = (r1, w') \<Longrightarrow> respectful may self w w'"
    "post_svc_Delete x (post_repository x) a i w = (r2, w') \<Longrightarrow> respectful may self w w'"
    "comment_svc_Create x comment_repository (post_svc_ByID (post_repository x)) a cc w = (r3, w') \<Longrightarrow> respectful may self w w'"
    "comment_svc_Update x comment_repository a i s w = (r3, w') \<Longrightarrow> respectful may self w w'"
    "comment_svc_Delete x comment_repository a i w = (r2, w') \<Longrightarrow> respectful may self w w'"
proof -
  have may: "may o'" if "CanModify a o'" for o' using a that by (simp add: acts_within_def)
  have self: "\<forall>b \<in> {actor_id a}. self b" using a by (simp add: acts_within_def)
  note inv = post_rows.operations_keep_inv comment_svc.operations_keep_inv
  have post: "\<forall>q \<in> set (posts (db w)). pr_id q \<in> {i} \<longrightarrow> may (pr_author q)"
    if "blog_wf (db w)" "live_post w i = Some p" "CanModify a (post_author p)" for p
    using owner_of_row(1) [OF that(1,2)] may [OF that(3)] by simp
  have comment: "(\<forall>c \<in> set (comments (db w)). cr_id c \<in> {i} \<longrightarrow> may (cr_author c))
      \<and> (\<exists>b \<in> set (comments (db w)). cr_id b = i \<and> may (cr_author b))"
    if "blog_wf (db w)" "live_comment w i = Some c" "CanModify a (cmt_author c)" for c
  proof -
    from that(2) obtain b where "b \<in> set (comments (db w))" "cr_id b = i" by (rule in_thread_row_live)
    with owner_of_row(2) [OF that(1,2)] may [OF that(3)] show ?thesis by auto
  qed
  show "respectful may self w w'" if c: "post_svc_Create x (post_repository x) a ci w = (r1, w')"
    by (rule respectfulI [OF operations_kept(1) [OF c] operations_remove(1) [OF c] inv(1) [OF c]]) (use self in auto)
  show "respectful may self w w'" if c: "comment_svc_Create x comment_repository (post_svc_ByID (post_repository x)) a cc w = (r3, w')"
    by (rule respectfulI [OF operations_kept(2) [OF c] operations_remove(4) [OF c] inv(4) [OF c]]) (use self in auto)
  show "respectful may self w w'" if c: "post_svc_Update x (post_repository x) a i req w = (r1, w')"
    using owned_operations_kept(1) [OF c, THEN conjunct2]
  proof (elim disjE exE conjE)
    fix p assume p: "live_post w i = Some p" "CanModify a (post_author p)"
    have "removes {i} {} (db w) (db w')" using operations_remove(2) [OF c] by (auto simp: removes_def stays_def)
    with owned_operations_kept(1) [OF c, THEN conjunct1] show ?thesis
      by (rule respectfulI [OF _ _ inv(2) [OF c]]) (use post [OF _ p] in auto)
  qed (rule respectful_same)
  show "respectful may self w w'" if c: "post_svc_Delete x (post_repository x) a i w = (r2, w')"
    using owned_operations_kept(2) [OF c, THEN conjunct2]
  proof (elim disjE exE conjE)
    fix p assume p: "live_post w i = Some p" "CanModify a (post_author p)"
    show ?thesis
      by (rule respectfulI [OF owned_operations_kept(2) [OF c, THEN conjunct1] operations_remove(3) [OF c] inv(3) [OF c]])
        (use post [OF _ p] in auto)
  qed (rule respectful_same)
  show "respectful may self w w'" if c: "comment_svc_Update x comment_repository a i s w = (r3, w')"
    using owned_operations_kept(3) [OF c, THEN conjunct2]
  proof (elim disjE exE conjE)
    fix b assume b: "live_comment w i = Some b" "CanModify a (cmt_author b)"
    show ?thesis
      by (rule respectfulI [OF owned_operations_kept(3) [OF c, THEN conjunct1] operations_remove(5) [OF c] inv(5) [OF c]])
        (use comment [OF _ b] in auto)
  qed (rule respectful_same)
  show "respectful may self w w'" if c: "comment_svc_Delete x comment_repository a i w = (r2, w')"
    using comment_svc_Delete_removes [OF c, THEN conjunct2]
  proof (elim disjE exE conjE)
    fix b assume b: "live_comment w i = Some b" "CanModify a (cmt_author b)"
    show ?thesis
      by (rule respectfulI [OF operations_kept(3) [OF c] comment_svc_Delete_removes [OF c, THEN conjunct1] inv(6) [OF c]])
        (use comment [OF _ b] in auto)
  qed (rule respectful_same)
qed

end
