(* ===== verification/Traffic.thy ===== *)
theory Traffic
  imports Stack Server Privileges Ownership
begin

text \<open>
  The server as a whole: what HTTP requests through the stack of \<open>newRouter\<close> do to the tables. The
  interface between the services and the stack is the locale \<open>request_relation\<close>: a relation on worlds
  that every request of the services respects, when it is made by an actor the HTTP request may act
  as, is respected by every handler, guard and layer. It is interpreted twice: with the histories of
  theory Blog_History, so HTTP traffic is a sequence of requests of the services; and with what
  theory Ownership says of owners, so a request touches only what its token's account owns.
\<close>

section \<open>Endpoints and relations\<close>

definition confined :: "(http_request \<Rightarrow> site \<Rightarrow> bool) \<Rightarrow> (world \<Rightarrow> world \<Rightarrow> bool) \<Rightarrow> site endpoint \<Rightarrow> bool" where
  "confined P R E \<longleftrightarrow> (\<forall>r rp s. P r s \<longrightarrow> R (si_world s) (si_world (snd (snd (E r rp s)))))"

definition handler_confined :: "(http_request \<Rightarrow> bool) \<Rightarrow> (world \<Rightarrow> world \<Rightarrow> bool) \<Rightarrow> handler \<Rightarrow> bool" where
  "handler_confined Q R h \<longleftrightarrow> (\<forall>r rp w. Q r \<longrightarrow> R w (snd (h r rp w)))"

lemma confinedD: "confined P R E \<Longrightarrow> P r s \<Longrightarrow> E r rp s = (p, rp', s') \<Longrightarrow> R (si_world s) (si_world s')"
  unfolding confined_def by (metis snd_conv)

lemma confinedI: "(\<And>r rp s p rp' s'. P r s \<Longrightarrow> E r rp s = (p, rp', s') \<Longrightarrow> R (si_world s) (si_world s')) \<Longrightarrow> confined P R E"
  unfolding confined_def by (metis prod.collapse)

lemma handler_confinedI: "(\<And>r rp w rp' w'. Q r \<Longrightarrow> h r rp w = (rp', w') \<Longrightarrow> R w w') \<Longrightarrow> handler_confined Q R h"
  unfolding handler_confined_def by (metis prod.collapse)

text \<open>The writing requests of one actor.\<close>

inductive requested_by :: "ext \<Rightarrow> actor \<Rightarrow> world \<Rightarrow> world \<Rightarrow> bool" for x a where
  create_post: "post_svc_Create x (post_repository x) a ci w = (rp, w') \<Longrightarrow> requested_by x a w w'"
| update_post: "post_svc_Update x (post_repository x) a i req w = (rp, w') \<Longrightarrow> requested_by x a w w'"
| delete_post: "post_svc_Delete x (post_repository x) a i w = (ru, w') \<Longrightarrow> requested_by x a w w'"
| create_comment: "comment_svc_Create x comment_repository (post_svc_ByID (post_repository x)) a cc w = (rc, w')
    \<Longrightarrow> requested_by x a w w'"
| update_comment: "comment_svc_Update x comment_repository a i s w = (rc, w') \<Longrightarrow> requested_by x a w w'"
| delete_comment: "comment_svc_Delete x comment_repository a i w = (ru, w') \<Longrightarrow> requested_by x a w w'"

inductive_cases requested_byE: "requested_by x a w w'"

text \<open>The parts \<open>New\<close> of \<open>server.go\<close> wires a router from.\<close>

definition wired :: "hasher \<Rightarrow> router_deps \<Rightarrow> bool" where
  "wired h d \<longleftrightarrow> rd_accounts d = blog_accounts (rd_ext d) h (rd_tokens d) \<and> rd_posts d = post_repository (rd_ext d)
     \<and> rd_comments d = comment_repository \<and> rd_reader d = post_svc_ByID (rd_posts d)"

section \<open>The interface\<close>

text \<open>\<open>P\<close> is what is known of a request and the site when it arrives, \<open>Q\<close> what a handler may assume.\<close>

locale request_relation =
  fixes x :: ext and h :: hasher and ts :: token_service
    and P :: "http_request \<Rightarrow> site \<Rightarrow> bool" and Q :: "http_request \<Rightarrow> bool" and R :: "world \<Rightarrow> world \<Rightarrow> bool"
  assumes idle: "db w' = db w \<Longrightarrow> R w w'"
    and trans: "R w w1 \<Longrightarrow> R w1 w2 \<Longrightarrow> R w w2"
    and account: "account_step x (blog_accounts x h ts) w w' \<Longrightarrow> R w w'"
    and request: "Q r \<Longrightarrow> hr_actor r = Some a \<Longrightarrow> requested_by x a w w' \<Longrightarrow> R w w'"
    and handler: "P r s \<Longrightarrow> Q r"
    and arrival: "P r s \<Longrightarrow> hr_actor r' = hr_actor r \<Longrightarrow> hr_header r' = hr_header r
      \<Longrightarrow> clock (si_world s') = clock (si_world s) \<Longrightarrow> P r' s'"
    and admission: "P r s \<Longrightarrow> bearerToken r = Inr raw \<Longrightarrow> ParseAccessToken x ts (clock (si_world s)) raw = Inr a
      \<Longrightarrow> P (WithActor r a) s"
begin

lemma refl [simp, intro!]: "R w w"
  by (rule idle) simp

lemma confined_on_world: "handler_confined Q R k \<Longrightarrow> confined P R (on_world k)"
  using handler by (auto simp: confined_def handler_confined_def on_world_def calm_def split: prod.splits) (metis snd_conv)

lemma actor_of_request: "Actor_of r = (a, True) \<Longrightarrow> hr_actor r = Some a"
  by (simp add: Actor_of_def split: option.splits)

lemmas account_requests = account_step.intros [THEN account]
lemmas blog_requests = requested_by.intros [THEN [3] request [OF _ actor_of_request]]

lemma user_requests:
  defines "sv \<equiv> blog_accounts x h ts"
  shows "handler_confined Q R (user_register x sv)" "handler_confined Q R (user_login x sv)"
    "handler_confined Q R (user_refresh x sv)" "handler_confined Q R (user_logout x sv)"
    "handler_confined Q R (user_logoutAll x sv)" "handler_confined Q R (user_me x sv)"
    "handler_confined Q R (user_updateMe x sv)" "handler_confined Q R (user_getByID x sv)"
  unfolding sv_def
  by (rule handler_confinedI, auto simp: user_register_def user_login_def user_refresh_def user_logout_def user_logoutAll_def
      user_me_def user_updateMe_def user_getByID_def fail_def user_svc_ByID_def split: endpoint_splits
      intro: account_requests dest: accounts.byid_frame [unfolded user_repository_simps])+

lemma post_requests:
  defines "st \<equiv> post_repository x"
  shows "handler_confined Q R (post_create x st)" "handler_confined Q R (post_get x st)"
    "handler_confined Q R (post_list x st)" "handler_confined Q R (post_update x st)" "handler_confined Q R (post_delete x st)"
  unfolding st_def
  by (rule handler_confinedI, auto simp: post_create_def post_get_def post_list_def post_update_def post_delete_def Let_def
      fail_def post_svc_List_def split: endpoint_splits intro: blog_requests idle
      dest: blog_reads_same_db(1) post_rows.list_frame [unfolded post_repository_simps])+

lemma comment_requests:
  defines "st \<equiv> comment_repository" and "read \<equiv> post_svc_ByID (post_repository x)"
  shows "handler_confined Q R (comment_create x st read)" "handler_confined Q R (comment_get x st read)"
    "handler_confined Q R (comment_listByPost x st read)" "handler_confined Q R (comment_update x st)"
    "handler_confined Q R (comment_delete x st)"
  unfolding st_def read_def
  by (rule handler_confinedI, auto simp: comment_create_def comment_get_def comment_listByPost_def comment_update_def
      comment_delete_def fail_def comment_svc_ByID_def comment_svc_ListByPost_def split: endpoint_splits
      intro: blog_requests idle dest!: blog_reads_same_db(1) comment_rows.list_frame [unfolded comment_repository_simps]
        comment_rows.byid_frame [unfolded comment_repository_simps])+

lemma other_requests:
  "handler_confined Q R (health_live k)" "handler_confined Q R (health_ready k)"
  "confined P R (index_endpoint d)" "confined P R (openapi_endpoint b)" "confined P R docs_endpoint" "confined P R (answer e)"
  by (auto simp: handler_confined_def confined_def health_live_def index_endpoint_def openapi_endpoint_def docs_endpoint_def calm_def
      answer_def ping_def health_ready_def execute_def round_trip_def Let_def intro!: idle split: list.splits outcome.splits)

lemmas requests = user_requests post_requests comment_requests other_requests(1,2)

lemma confined_Require:
  assumes "confined P R E" "rd_ext d = x" "rd_tokens d = ts"
  shows "confined P R (Require (parse_token d) E)"
proof (rule confinedI)
  fix r rp s p rp' s' assume pre: "P r s" and run: "Require (parse_token d) E r rp s = (p, rp', s')"
  show "R (si_world s) (si_world s')"
  proof (cases rule: Require_cases [of "parse_token d" E r rp s])
    case (refused e k)
    with run show ?thesis by (simp add: confinedD [OF other_requests(6) pre])
  next
    case (admitted raw a)
    with assms(2,3) admission [OF pre admitted(1)] have "P (WithActor r a) s" by (simp add: parse_token_def)
    from confinedD [OF assms(1) this] run admitted(3) show ?thesis by simp
  qed
qed

lemma confined_Optional:
  "confined P R E \<Longrightarrow> rd_ext d = x \<Longrightarrow> rd_tokens d = ts \<Longrightarrow> confined P R (Optional (parse_token d) E)"
  using confined_Require [of E d] by (simp add: confined_def Optional_def)

lemma confined_limits:
  assumes "confined P R E"
  shows "confined P R (global_limit d E)" "confined P R (auth_limit d E)"
proof -
  have "confined P R (Limit_mw y now get put tp E)" if put: "\<And>l s. si_world (put l s) = si_world s" for y now get put tp
  proof (rule confinedI)
    fix r rp s p rp' s' assume pre: "P r s" and run: "Limit_mw y now get put tp E r rp s = (p, rp', s')"
    have "P r (put l s)" for l by (rule arrival [OF pre]) (simp_all add: put)
    from confinedD [OF assms this] run put show "R (si_world s) (si_world s')"
      by (auto simp: Limit_mw_def answer_def split: prod.splits if_splits)
  qed
  then show "confined P R (global_limit d E)" "confined P R (auth_limit d E)"
    using assms by (simp_all add: global_limit_def auth_limit_def)
qed

lemma confined_layers:
  assumes "confined P R E"
  shows "confined P R (BodyLimit n E)" "confined P R (Timeout_mw now t E)" "confined P R (SecurityHeaders E)"
    "confined P R (CORS cfg E)" "confined P R (Recoverer stack E)" "confined P R (Logger_mw y E)"
    "confined P R (RequestID_mw (fresh_id d) E)"
proof -
  have later: "R (si_world s) (si_world s')" if "P r s" "hr_actor r' = hr_actor r" "hr_header r' = hr_header r"
      "E r' rp s = (p, rp', s')" for r r' rp p rp' s s'
    using confinedD [OF assms arrival [OF that(1-3) HOL.refl] that(4)] .
  show "confined P R (BodyLimit n E)"
    by (rule confinedI) (rule later, assumption, auto simp: BodyLimit_def)
  show "confined P R (SecurityHeaders E)"
    by (rule confinedI) (auto simp: SecurityHeaders_def Let_def intro: later)
  show "confined P R (CORS cfg E)"
    by (rule confinedI) (auto simp: CORS_def Let_def intro: later split: if_splits)
  show "confined P R (Recoverer stack E)"
    by (rule confinedI) (auto simp: Recoverer_def intro: later split: prod.splits option.splits if_splits)
  show "confined P R (Timeout_mw now t E)"
  proof (rule confinedI)
    fix r rp s p rp' s' assume pre: "P r s" and run: "Timeout_mw now t E r rp s = (p, rp', s')"
    then obtain u where "E (r\<lparr>hr_deadline := u\<rparr>) rp s = (p, rp', s')" by (auto simp: Timeout_mw_def Let_def)
    from later [OF pre _ _ this] show "R (si_world s) (si_world s')" by simp
  qed
  show "confined P R (Logger_mw y E)"
  proof (rule confinedI)
    fix r rp s p rp' s' assume pre: "P r s" and run: "Logger_mw y E r rp s = (p, rp', s')"
    obtain q rp1 s1 where e: "E (WithLogger r (request_attrs r)) rp s = (q, rp1, s1)" by (metis prod.exhaust)
    from later [OF pre _ _ e] run e show "R (si_world s) (si_world s')"
      by (cases q) (simp_all add: Logger_mw_def WithLogger_def)
  qed
  show "confined P R (RequestID_mw (fresh_id d) E)"
  proof (rule confinedI)
    fix r rp s p rp' s' assume pre: "P r s" and run: "RequestID_mw (fresh_id d) E r rp s = (p, rp', s')"
    obtain i s1 where i: "(if sanitizeRequestID (hr_header r RequestIDHeader) = [] then fresh_id d s
        else (sanitizeRequestID (hr_header r RequestIDHeader), s)) = (i, s1)" by fastforce
    have s1: "db (si_world s1) = db (si_world s)" "clock (si_world s1) = clock (si_world s)"
      using i new_uuid_frame [of "si_world s"] by (auto simp: fresh_id_def split: prod.splits if_splits)
    have "P (WithRequestID r i) s1" by (rule arrival [OF pre]) (simp_all add: s1 WithRequestID_def)
    with run i confinedD [OF assms] have "R (si_world s1) (si_world s')" by (simp add: RequestID_mw_def Let_def)
    with s1(1) show "R (si_world s) (si_world s')" by (auto intro: trans idle)
  qed
qed

lemma confined_dispatch:
  assumes "\<And>m p E. (m, p, E) \<in> set rs \<Longrightarrow> confined P R E"
  shows "confined P R (dispatch_route mx rs)"
proof (rule confinedI)
  fix r rp s p rp' s' assume pre: "P r s" and run: "dispatch_route mx rs r rp s = (p, rp', s')"
  show "R (si_world s) (si_world s')"
  proof (cases "\<exists>i ps. mx (map (\<lambda>(m, p, e). (m, p)) rs) (hr_method r) (hr_path r) = Matched i ps \<and> i < length rs")
    case True
    then obtain i ps where i: "mx (map (\<lambda>(m, p, e). (m, p)) rs) (hr_method r) (hr_path r) = Matched i ps" "i < length rs"
      by blast
    obtain m q E where e: "rs ! i = (m, q, E)" by (metis prod.exhaust)
    with assms nth_mem [OF i(2)] have E: "confined P R E" by metis
    have "P (r\<lparr>hr_params := ps\<rparr>) s" by (rule arrival [OF pre]) simp_all
    with run i e confinedD [OF E] show ?thesis by (auto simp: dispatch_route_def)
  next
    case False
    with run have "\<exists>e. answer e r rp s = (p, rp', s')"
      by (auto simp: dispatch_route_def split: mux_result.splits)
    then show ?thesis using confinedD [OF other_requests(6) pre] by blast
  qed
qed

text \<open>The router of a wired server.\<close>

lemma router_confined:
  assumes "wired h d" "rd_ext d = x" "rd_tokens d = ts"
  shows "confined P R (newRouter d mx stack)"
proof -
  note on_world = requests [THEN confined_on_world] and wires = assms(1) [unfolded wired_def]
  have "confined P R E" if "(m, p, E) \<in> set (routes_of d)" for m p E
    using that
    by (auto simp: wires assms(2,3) route_tables on_world other_requests(3-) confined_Require confined_Optional confined_limits)
  then show ?thesis
    unfolding newRouter_def with_middleware_def by (intro confined_layers confined_limits confined_dispatch)
qed

end

section \<open>Histories\<close>

lemma api_step_idle: "db w' = db w \<Longrightarrow> api_step x h ts w w'"
  by (intro api_step.account account_step.idle)

interpretation history: request_relation x h ts "\<lambda>r s. True" "\<lambda>r. True" "api_history x h ts"
proof
  show "api_history x h ts w w'" if "requested_by x a w w'" for a w w'
    using that unfolding api_history_def by (elim requested_byE) (blast intro: api_step.intros)+
qed (auto simp: api_history_def intro: api_step_idle api_step.account)

section \<open>Owners\<close>

text \<open>The account a request's token speaks for is within the rights given, and no other account is known yet.\<close>

definition entitled :: "ext \<Rightarrow> token_service \<Rightarrow> (uuid \<Rightarrow> bool) \<Rightarrow> (uuid \<Rightarrow> bool) \<Rightarrow> http_request \<Rightarrow> site \<Rightarrow> bool" where
  "entitled x ts may self r s \<longleftrightarrow> (\<forall>a. hr_actor r = Some a \<longrightarrow> acts_within may self a)
     \<and> (\<forall>raw a. bearerToken r = Inr raw \<longrightarrow> ParseAccessToken x ts (clock (si_world s)) raw = Inr a \<longrightarrow> acts_within may self a)"

interpretation owners: request_relation x h ts "entitled x ts may self"
  "\<lambda>r. \<forall>a. hr_actor r = Some a \<longrightarrow> acts_within may self a" "respectful may self"
proof
  show "respectful may self w w'" if "\<forall>a. hr_actor r = Some a \<longrightarrow> acts_within may self a" "hr_actor r = Some a"
      "requested_by x a w w'" for r a w w'
    using that(3) requests_respectful [OF that(1) [rule_format, OF that(2)]] by (elim requested_byE) blast+
qed (auto simp: entitled_def bearerToken_def WithActor_def
    intro: respectful_same respectful_trans account_step_respectful)

text \<open>What the accepted token of a request allows.\<close>

definition token_actor :: "ext \<Rightarrow> token_service \<Rightarrow> http_request \<Rightarrow> site \<Rightarrow> actor option" where
  "token_actor x ts r s = (case bearerToken r of Inl e \<Rightarrow> None
     | Inr raw \<Rightarrow> (case ParseAccessToken x ts (clock (si_world s)) raw of Inl e \<Rightarrow> None | Inr a \<Rightarrow> Some a))"

lemma entitled_by_token:
  "hr_actor r = None \<Longrightarrow> entitled x ts (may_modify (token_actor x ts r s)) (signs_as (token_actor x ts r s)) r s"
  by (auto simp: entitled_def acts_within_def may_modify_def signs_as_def token_actor_def)

section \<open>A running server\<close>

text \<open>The server serves one request after the other; between two of them time passes, buckets are evicted,
  connections fail and recover, but nothing else writes to the tables.\<close>

inductive site_step :: "router_deps \<Rightarrow> mux \<Rightarrow> site \<Rightarrow> site \<Rightarrow> bool" for d mx where
  serve: "newRouter d mx stack r rp s = (p, rp', s') \<Longrightarrow> site_step d mx s s'"
| wait: "db (si_world s') = db (si_world s) \<Longrightarrow> site_step d mx s s'"

inductive_cases site_stepE: "site_step d mx s s'"

lemma site_step_history: "site_step d mx s s' \<Longrightarrow> wired h d
    \<Longrightarrow> api_history (rd_ext d) h (rd_tokens d) (si_world s) (si_world s')"
  by (auto elim!: site_stepE intro: confinedD [OF history.router_confined] history.idle)

lemma site_history: "(site_step d mx)\<^sup>*\<^sup>* s s' \<Longrightarrow> wired h d
    \<Longrightarrow> api_history (rd_ext d) h (rd_tokens d) (si_world s) (si_world s')"
  by (induction rule: rtranclp_induct) (auto dest: site_step_history intro: history.trans)

lemma New_server_wired:
  assumes "New_server x cfg openapi version w = Some s"
  shows "wired (NewHasher (ac_bcrypt_cost (cf_auth cfg))) (sr_deps s)" "rd_ext (sr_deps s) = x"
    "rd_tokens (sr_deps s) = NewTokenService (cf_auth cfg)" "si_world (sr_site s) = w"
  using assms by (auto simp: New_server_def wired_def blog_accounts_def Let_def split: option.splits)


text \<open>C2: one HTTP request, whatever it is and whatever fails underneath, changes the text of a post or
  comment only if it carries an accepted token of the owner or of an administrator, and every post or
  comment it adds is signed with the account of its token; without an accepted token nothing is added
  and nothing changed. Posts of others keep every column but comment count and update time, and a
  comment goes only with a post, or with a comment it answers, of the token's owner (or of anybody, for
  an administrator).\<close>

theorem only_owners_change_content:
  assumes "New_server x cfg openapi version w = Some sv" and "blog_wf (db (si_world s))" and "hr_actor r = None"
    and "newRouter (sr_deps sv) mx stack r rp s = (p, rp', s')"
    and who: "who = token_actor x (NewTokenService (cf_auth cfg)) r s"
    and d: "d = db (si_world s)" "d' = db (si_world s')"
  shows "(\<forall>q \<in> set (posts d). \<not> may_modify who (pr_author q) \<longrightarrow> (\<exists>q' \<in> set (posts d'). same_text q q'))
    \<and> (\<forall>c \<in> set (comments d). \<not> may_modify who (cr_author c) \<longrightarrow> (\<exists>c' \<in> set (comments d'). same_comment c c'))
    \<and> (\<forall>q' \<in> set (posts d'). (\<exists>q \<in> set (posts d). pr_id q' = pr_id q \<and> pr_author q' = pr_author q) \<or> signs_as who (pr_author q'))
    \<and> (\<forall>c' \<in> set (comments d'). (\<exists>c \<in> set (comments d). cr_id c' = cr_id c \<and> cr_author c' = cr_author c) \<or> signs_as who (cr_author c'))
    \<and> (\<forall>c \<in> set (comments d). comment_live c \<longrightarrow>
         (\<exists>c' \<in> set (comments d'). cr_id c' = cr_id c \<and> comment_live c')
       \<or> (\<exists>p \<in> set (posts d). pr_id p = cr_post c \<and> may_modify who (pr_author p))
       \<or> (\<exists>b \<in> set (comments d). may_modify who (cr_author b) \<and> below (comments d) (cr_id b) (cr_id c)))"
proof -
  let ?ts = "NewTokenService (cf_auth cfg)"
  note wires = New_server_wired [OF assms(1)]
  have "confined (entitled x ?ts (may_modify who) (signs_as who)) (respectful (may_modify who) (signs_as who)) (newRouter (sr_deps sv) mx stack)"
    by (rule owners.router_confined [OF wires(1)]) (simp_all add: wires)
  moreover have "entitled x ?ts (may_modify who) (signs_as who) r s"
    unfolding who by (rule entitled_by_token [OF assms(3)])
  ultimately have "respectful (may_modify who) (signs_as who) (si_world s) (si_world s')"
    using assms(4) by (rule confinedD)
  with assms(2) have "owners_kept (may_modify who) (signs_as who) d d'" "removals (may_modify who) d d'"
    by (simp_all add: respectful_def d)
  then show ?thesis unfolding owners_kept_def removals_def by blast
qed

section \<open>Witnesses\<close>


text \<open>An attempt to delete a post without a token.\<close>

theorem only_owners_change_content_witness:
  "\<exists>cfg sv rp t. Load sample_jwt sample_env = (cfg, []) \<and> New_server sample_jwt cfg [] ''dev'' empty_world = Some sv
    \<and> newRouter (sr_deps sv) exact_mux [] (sample_request ''DELETE'' ''/api/v1/posts/{postID}'' []) blank_reply (sample_site blog_world) = (None, rp, t)
    \<and> (\<forall>q \<in> set (posts (db blog_world)). \<exists>q' \<in> set (posts (db (si_world t))). same_text q q')"
proof -
  obtain cfg sv where r: "Load sample_jwt sample_env = (cfg, [])" "New_server sample_jwt cfg [] ''dev'' empty_world = Some sv"
    using sample_environment by blast
  let ?r = "sample_request ''DELETE'' ''/api/v1/posts/{postID}'' []" and ?s = "sample_site blog_world"
  obtain rp t where run: "newRouter (sr_deps sv) exact_mux [] ?r blank_reply ?s = (None, rp, t)"
    using router_never_panics [of "sr_deps sv" exact_mux "[]"] unfolding never_panics_def by (metis prod.collapse)
  have wf: "blog_wf (db (si_world ?s))" using blog_world_wf(1) by simp
  have "hr_actor ?r = None" "\<And>ts. token_actor sample_jwt ts ?r ?s = None"
    by (simp_all add: sample_request_def token_actor_def bearerToken_def)
  from only_owners_change_content [OF r(2) wf this(1) run HOL.refl HOL.refl HOL.refl] this(2)
  have "\<forall>q \<in> set (posts (db blog_world)). \<exists>q' \<in> set (posts (db (si_world t))). same_text q q'"
    by (simp add: may_modify_def)
  with r run show ?thesis by blast
qed

end
