(* ===== verification/Attempts.thy ===== *)
theory Attempts
  imports Traffic
begin

text \<open>
  The credential endpoints behind their limiter, through the whole stack: what one request charges to
  the second limiter (\<open>charged\<close>), and how many attempts at registration, login and refresh an address
  gets answered in a window. The requests of all callers, everything that happens to the world between
  them, and the evictions of both limiters interleave freely. Lemmas: each layer passes the charge on,
  only the credential routes cause one, and traffic charges what \<open>granted\<close> of theory Rate_Limit counts.
\<close>

section \<open>Credential routes\<close>

definition route_names :: "'s routes \<Rightarrow> (string \<times> string) list" where
  "route_names = map (\<lambda>(m, p, e). (m, p))"

definition credential_request :: "router_deps \<Rightarrow> mux \<Rightarrow> http_request \<Rightarrow> bool" where
  "credential_request d mx r \<longleftrightarrow> hr_method r \<noteq> ''OPTIONS'' \<and>
    (case mx (route_names (routes_of d)) (hr_method r) (hr_path r) of
       Matched i ps \<Rightarrow> i < length (routes_of d) \<and> route_names (routes_of d) ! i \<in> set (route_names (credential_routes d))
     | _ \<Rightarrow> False)"

text \<open>The API has 23 routes, with as many different names.\<close>

lemma routes_are_distinct: "distinct (route_names (routes_of d))" "length (routes_of d) = 23"
  by (simp_all add: route_names_def route_tables)

definition leaves_auth :: "site endpoint \<Rightarrow> bool" where
  "leaves_auth E \<longleftrightarrow> (\<forall>r rp s. si_auth (snd (snd (E r rp s))) = si_auth s)"

lemma leaves_auth_simps:
  "leaves_auth (on_world h)" "leaves_auth (index_endpoint d)" "leaves_auth (openapi_endpoint b)"
  "leaves_auth docs_endpoint" "leaves_auth (answer e)"
  by (auto simp: leaves_auth_def on_world_def calm_def index_endpoint_def openapi_endpoint_def docs_endpoint_def
      answer_def split: prod.splits)

lemma leaves_auth_guards:
  assumes "leaves_auth E"
  shows "leaves_auth (Require parse E)" "leaves_auth (Optional parse E)"
proof -
  show "leaves_auth (Require parse E)"
    unfolding leaves_auth_def
  proof (intro allI)
    fix r rp s
    show "si_auth (snd (snd (Require parse E r rp s))) = si_auth s"
      using assms leaves_auth_simps(5)
      by (cases rule: Require_cases [of parse E r rp s]) (simp_all add: leaves_auth_def)
  qed
  with assms show "leaves_auth (Optional parse E)" by (simp add: leaves_auth_def Optional_def)
qed

lemma route_cases:
  assumes "(m, p, E) \<in> set (routes_of d)"
  obtains (credential) h where "E = auth_limit d (on_world h)"
  | (other) "(m, p) \<notin> set (route_names (credential_routes d))" "leaves_auth E"
proof -
  have "(\<exists>h. E = auth_limit d (on_world h)) \<or> (m, p) \<notin> set (route_names (credential_routes d)) \<and> leaves_auth E"
    using assms by (auto simp: route_tables route_names_def leaves_auth_simps leaves_auth_guards)
  with that show thesis by blast
qed

section \<open>What a request charges\<close>

definition charged :: "router_deps \<Rightarrow> mux \<Rightarrow> http_request \<Rightarrow> site \<Rightarrow> reply \<Rightarrow> site \<Rightarrow> bool" where
  "charged d mx r s rp' s' \<longleftrightarrow>
    si_auth s' = si_auth s \<and> (credential_request d mx r \<longrightarrow> rp_status rp' = Some 429)
  \<or> (\<exists>ok t. Allow (site_clock s) (limiter_key (rd_ext d) (rd_trust_proxy d) r) (si_auth s) = ((ok, t), si_auth s')
      \<and> (credential_request d mx r \<longrightarrow> ok \<or> rp_status rp' = Some 429))"

definition charges :: "router_deps \<Rightarrow> mux \<Rightarrow> site endpoint \<Rightarrow> bool" where
  "charges d mx E \<longleftrightarrow> (\<forall>r rp s. unanswered rp \<longrightarrow> (case E r rp s of (p, rp', s') \<Rightarrow> charged d mx r s rp' s'))"

lemma chargesI: "(\<And>r rp s p rp' s'. unanswered rp \<Longrightarrow> E r rp s = (p, rp', s') \<Longrightarrow> charged d mx r s rp' s') \<Longrightarrow> charges d mx E"
  unfolding charges_def by (auto split: prod.splits)

lemma chargesD: "charges d mx E \<Longrightarrow> unanswered rp \<Longrightarrow> E r rp s = (p, rp', s') \<Longrightarrow> charged d mx r s rp' s'"
  unfolding charges_def by (metis (mono_tags, lifting) case_prod_conv)

lemma charged_request:
  assumes "hr_method r' = hr_method r" "hr_path r' = hr_path r"
    and "limiter_key (rd_ext d) (rd_trust_proxy d) r' = limiter_key (rd_ext d) (rd_trust_proxy d) r"
  shows "charged d mx r' = charged d mx r"
  using assms by (simp add: fun_eq_iff charged_def credential_request_def)

lemma same_address:
  "ClientIP (WithRequestID r i) tp = ClientIP r tp" "ClientIP (WithLogger r as) tp = ClientIP r tp"
  "ClientIP (r\<lparr>hr_limit := n\<rparr>) tp = ClientIP r tp" "ClientIP (r\<lparr>hr_deadline := t\<rparr>) tp = ClientIP r tp"
  "ClientIP (r\<lparr>hr_params := ps\<rparr>) tp = ClientIP r tp"
  by (simp_all add: ClientIP_def WithRequestID_def WithLogger_def cong: option.case_cong)

lemma same_actor:
  "Actor_of (WithRequestID r i) = Actor_of r" "Actor_of (WithLogger r as) = Actor_of r"
  "Actor_of (r\<lparr>hr_limit := n\<rparr>) = Actor_of r" "Actor_of (r\<lparr>hr_deadline := t\<rparr>) = Actor_of r"
  "Actor_of (r\<lparr>hr_params := ps\<rparr>) = Actor_of r"
  by (simp_all add: Actor_of_def WithRequestID_def WithLogger_def)

lemma same_key [simp]:
  "limiter_key x tp (WithRequestID r i) = limiter_key x tp r" "limiter_key x tp (WithLogger r as) = limiter_key x tp r"
  "limiter_key x tp (r\<lparr>hr_limit := n\<rparr>) = limiter_key x tp r" "limiter_key x tp (r\<lparr>hr_deadline := t\<rparr>) = limiter_key x tp r"
  "limiter_key x tp (r\<lparr>hr_params := ps\<rparr>) = limiter_key x tp r"
  by (simp_all only: limiter_key_def same_address same_actor)

lemma charged_same [simp]:
  "charged d mx (WithRequestID r i) = charged d mx r" "charged d mx (WithLogger r as) = charged d mx r"
  "charged d mx (r\<lparr>hr_limit := n\<rparr>) = charged d mx r" "charged d mx (r\<lparr>hr_deadline := t\<rparr>) = charged d mx r"
  by (intro charged_request same_key; simp add: WithRequestID_def WithLogger_def)+

lemma too_many: "From (Some (RateLimited m)) = Some (RateLimited m)" "err_status (RateLimited m) = 429"
  by (simp_all add: From_def api_constructors)

lemma refused_by_limiter:
  assumes "unanswered rp" "answer (RateLimited m) r (set_header k v rp) s = (p, rp', s')"
  shows "rp_status rp' = Some 429" "s' = s"
  using assms WriteError_answers(1) [of "set_header k v rp", OF _ too_many(1), of r] by (auto simp: answer_def too_many)

lemma auth_limit_charges:
  assumes "leaves_auth E" "rd_limited d" "unanswered rp" "auth_limit d E r rp s = (p, rp', s')"
    and "limiter_key (rd_ext d) (rd_trust_proxy d) r' = limiter_key (rd_ext d) (rd_trust_proxy d) r"
  shows "charged d mx r' s rp' s'"
proof -
  obtain ok t l where a: "Allow (site_clock s) (limiter_key (rd_ext d) (rd_trust_proxy d) r) (si_auth s) = ((ok, t), l)"
    by (metis prod.exhaust)
  have "si_auth s' = l \<and> (ok \<or> rp_status rp' = Some 429)"
  proof (cases ok)
    case True
    with a assms(2,4) have "E r rp (s\<lparr>si_auth := l\<rparr>) = (p, rp', s')" by (simp add: auth_limit_def Limit_mw_def)
    with assms(1) [unfolded leaves_auth_def, rule_format, of r rp "s\<lparr>si_auth := l\<rparr>"] True show ?thesis by simp
  next
    case False
    with a assms(2,4) have "answer (RateLimited ''too many requests; please retry later'') r
        (set_header ''Retry-After'' (itoa (retry_seconds t)) rp) (s\<lparr>si_auth := l\<rparr>) = (p, rp', s')"
      by (simp add: auth_limit_def Limit_mw_def)
    from refused_by_limiter [OF assms(3) this] show ?thesis by simp
  qed
  with a assms(5) show ?thesis by (auto simp: charged_def)
qed

lemma dispatch_charges:
  assumes "rd_limited d"
  shows "charges d mx (dispatch_route mx (routes_of d))"
proof (rule chargesI)
  fix r rp s p rp' s' assume rp: "unanswered rp" and run: "dispatch_route mx (routes_of d) r rp s = (p, rp', s')"
  show "charged d mx r s rp' s'"
  proof (cases "\<exists>i ps. mx (route_names (routes_of d)) (hr_method r) (hr_path r) = Matched i ps \<and> i < length (routes_of d)")
    case True
    then obtain i ps where i: "mx (route_names (routes_of d)) (hr_method r) (hr_path r) = Matched i ps" "i < length (routes_of d)"
      by blast
    obtain m q E where e: "routes_of d ! i = (m, q, E)" by (metis prod.exhaust)
    have go: "E (r\<lparr>hr_params := ps\<rparr>) rp s = (p, rp', s')"
      using run i e by (simp add: dispatch_route_def route_names_def)
    from e nth_mem [OF i(2)] have "(m, q, E) \<in> set (routes_of d)" by simp
    then show ?thesis
    proof (cases rule: route_cases)
      case (credential h)
      with auth_limit_charges [OF leaves_auth_simps(1) assms rp, of h "r\<lparr>hr_params := ps\<rparr>" s p rp' s' r] go
      show ?thesis by simp
    next
      case other
      from i e other(1) have "\<not> credential_request d mx r" by (simp add: credential_request_def route_names_def)
      moreover have "si_auth s' = si_auth s" using other(2) go unfolding leaves_auth_def by (metis snd_conv)
      ultimately show ?thesis by (simp add: charged_def)
    qed
  next
    case False
    then have "\<not> credential_request d mx r" by (auto simp: credential_request_def split: mux_result.splits)
    moreover have "s' = s" using run False
      by (auto simp: dispatch_route_def answer_def route_names_def split: mux_result.splits)
    ultimately show ?thesis by (simp add: charged_def)
  qed
qed

section \<open>The layers pass the charge on\<close>

lemma Limit_charges:
  assumes "charges d mx E"
  shows "charges d mx (global_limit d E)"
proof -
  have "charges d mx (Limit_mw x now si_global (\<lambda>l s. s\<lparr>si_global := l\<rparr>) tp E)" for x now tp
  proof (rule chargesI)
    fix r rp s p rp' s' assume rp: "unanswered rp"
      and run: "Limit_mw x now si_global (\<lambda>l s. s\<lparr>si_global := l\<rparr>) tp E r rp s = (p, rp', s')"
    obtain ok t l where a: "Allow (now s) (limiter_key x tp r) (si_global s) = ((ok, t), l)" by (metis prod.exhaust)
    show "charged d mx r s rp' s'"
    proof (cases ok)
      case True
      with a run have "E r rp (s\<lparr>si_global := l\<rparr>) = (p, rp', s')" by (simp add: Limit_mw_def)
      from chargesD [OF assms rp this] show ?thesis by (simp add: charged_def site_clock_def)
    next
      case False
      with a run have "answer (RateLimited ''too many requests; please retry later'') r
          (set_header ''Retry-After'' (itoa (retry_seconds t)) rp) (s\<lparr>si_global := l\<rparr>) = (p, rp', s')"
        by (simp add: Limit_mw_def)
      from refused_by_limiter [OF rp this] show ?thesis by (simp add: charged_def)
    qed
  qed
  with assms show ?thesis by (simp add: global_limit_def)
qed

lemma layers_charge:
  assumes "charges d mx E"
  shows "charges d mx (BodyLimit n E)" "charges d mx (Timeout_mw now t E)" "charges d mx (SecurityHeaders E)"
    "charges d mx (CORS cfg E)"
proof -
  show "charges d mx (BodyLimit n E)"
    by (rule chargesI) (use chargesD [OF assms] in \<open>fastforce simp: BodyLimit_def\<close>)
  show "charges d mx (Timeout_mw now t E)"
  proof (rule chargesI)
    fix r rp s p rp' s' assume rp: "unanswered rp" and "Timeout_mw now t E r rp s = (p, rp', s')"
    then obtain u where "E (r\<lparr>hr_deadline := u\<rparr>) rp s = (p, rp', s')" by (auto simp: Timeout_mw_def Let_def)
    from chargesD [OF assms rp this] show "charged d mx r s rp' s'" by simp
  qed
  show "charges d mx (SecurityHeaders E)" "charges d mx (CORS cfg E)"
    using assms by (auto simp: charges_def SecurityHeaders_def CORS_def charged_def [of d mx r s rp' s for r s rp']
      credential_request_def Let_def split: prod.splits)
qed

lemma outer_layers_charge:
  assumes "charges d mx E" "never_panics E"
  shows "charges d mx (Recoverer stack E)" "charges d mx (Logger_mw x E)"
proof -
  have calm: "p = None" if "E r rp s = (p, rp', s')" for r rp s p rp' s'
    using assms(2) that by (metis fst_conv never_panics_def)
  show "charges d mx (Recoverer stack E)"
    by (rule chargesI) (auto simp: Recoverer_def dest: calm intro: chargesD [OF assms(1)] split: prod.splits option.splits)
  show "charges d mx (Logger_mw x E)"
  proof (rule chargesI)
    fix r rp s p rp' s' assume rp: "unanswered rp" and run: "Logger_mw x E r rp s = (p, rp', s')"
    obtain q rp1 s1 where e: "E (WithLogger r (request_attrs r)) rp s = (q, rp1, s1)" by (metis prod.exhaust)
    from chargesD [OF assms(1) rp e] calm [OF e] run e show "charged d mx r s rp' s'"
      by (auto simp: Logger_mw_def charged_def)
  qed
qed

lemma RequestID_charges:
  assumes "charges d mx E"
  shows "charges d mx (RequestID_mw (fresh_id d) E)"
proof (rule chargesI)
  fix r rp s p rp' s' assume rp: "unanswered rp" and run: "RequestID_mw (fresh_id d) E r rp s = (p, rp', s')"
  obtain i s1 where i: "(if sanitizeRequestID (hr_header r RequestIDHeader) = [] then fresh_id d s
      else (sanitizeRequestID (hr_header r RequestIDHeader), s)) = (i, s1)" by fastforce
  then have s1: "si_auth s1 = si_auth s" "site_clock s1 = site_clock s"
    using new_uuid_frame [of "si_world s"] by (auto simp: fresh_id_def site_clock_def split: prod.splits if_splits)
  have "charged d mx (WithRequestID r i) s1 rp' s'"
    using run i rp by (intro chargesD [OF assms, of "set_header RequestIDHeader i rp"]) (simp_all add: RequestID_mw_def Let_def)
  with s1 show "charged d mx r s rp' s'" by (simp add: charged_def)
qed

lemma router_charges: "rd_limited d \<Longrightarrow> charges d mx (newRouter d mx stack)"
  unfolding newRouter_def with_middleware_def
  by (intro RequestID_charges outer_layers_charge layers_charge Limit_charges dispatch_charges layers_never_panic
      global_limit_serves Timeout_serves BodyLimit_serves dispatch_serves)

section \<open>Traffic and the limiter\<close>

text \<open>A request meets whatever has become of the world in the meantime; the two limiters are swept by their
  own janitors.\<close>

datatype site_event = Arrive world string http_request | SweepGlobal time | SweepAuth time

fun event_clock :: "site_event \<Rightarrow> time" where
  "event_clock (Arrive w stack r) = clock w" | "event_clock (SweepGlobal t) = t" | "event_clock (SweepAuth t) = t"

text \<open>How many requests for credential endpoints one caller gets past the limiters.\<close>

fun attempts :: "router_deps \<Rightarrow> mux \<Rightarrow> string \<Rightarrow> site_event list \<Rightarrow> site \<Rightarrow> nat" where
  "attempts d mx k [] s = 0"
| "attempts d mx k (Arrive w stack r # es) s =
    (case newRouter d mx stack r blank_reply (s\<lparr>si_world := w\<rparr>) of (p, rp, s') \<Rightarrow>
       (if credential_request d mx r \<and> limiter_key (rd_ext d) (rd_trust_proxy d) r = k \<and> rp_status rp \<noteq> Some 429 then 1 else 0)
       + attempts d mx k es s')"
| "attempts d mx k (SweepGlobal t # es) s = attempts d mx k es (s\<lparr>si_global := evictIdle t (si_global s)\<rparr>)"
| "attempts d mx k (SweepAuth t # es) s = attempts d mx k es (s\<lparr>si_auth := evictIdle t (si_auth s)\<rparr>)"

lemma attempts_granted:
  assumes "rd_limited d" and "sorted (t0 # map event_clock es @ [t1])"
  shows "\<exists>les. in_order t0 les \<and> (\<forall>e \<in> set les. event_time e \<le> t1) \<and> attempts d mx k es s \<le> granted k les (si_auth s)"
  using assms(2)
proof (induction es arbitrary: t0 s)
  case Nil
  show ?case by (rule exI [of _ "[]"]) simp
next
  case (Cons e es)
  then have t: "t0 \<le> event_clock e" "event_clock e \<le> t1" "sorted (event_clock e # map event_clock es @ [t1])" by auto
  note IH = Cons.IH [OF t(3)]
  show ?case
  proof (cases e)
    case (Arrive w stack r)
    obtain p rp s' where run: "newRouter d mx stack r blank_reply (s\<lparr>si_world := w\<rparr>) = (p, rp, s')" by (metis prod.exhaust)
    have "unanswered blank_reply" by (simp add: unanswered_def blank_reply_def)
    from chargesD [OF router_charges [OF assms(1)] this run] have c: "charged d mx r (s\<lparr>si_world := w\<rparr>) rp s'" .
    obtain les where les: "in_order (event_clock e) les" "\<forall>e \<in> set les. event_time e \<le> t1"
        "attempts d mx k es s' \<le> granted k les (si_auth s')" using IH by blast
    let ?n = "if credential_request d mx r \<and> limiter_key (rd_ext d) (rd_trust_proxy d) r = k \<and> rp_status rp \<noteq> Some 429 then 1 else 0 :: nat"
    have a: "attempts d mx k (e # es) s = ?n + attempts d mx k es s'" by (simp add: Arrive run)
    from c consider (free) "si_auth s' = si_auth s" "?n = 0"
      | (paid) ok u where "Allow (clock w) (limiter_key (rd_ext d) (rd_trust_proxy d) r) (si_auth s) = ((ok, u), si_auth s')"
          "?n \<le> (if ok \<and> limiter_key (rd_ext d) (rd_trust_proxy d) r = k then 1 else 0)"
      by (auto simp: charged_def site_clock_def)
    then show ?thesis
    proof cases
      case free
      with a les t(1) in_order_weaken [OF t(1) les(1)] show ?thesis by (intro exI [of _ les]) simp
    next
      case paid
      let ?les = "Request (clock w) (limiter_key (rd_ext d) (rd_trust_proxy d) r) # les"
      have "attempts d mx k (e # es) s \<le> granted k ?les (si_auth s)" using a paid les(3) by simp
      moreover have "in_order t0 ?les" "\<forall>e \<in> set ?les. event_time e \<le> t1" using les t by (simp_all add: Arrive)
      ultimately show ?thesis by blast
    qed
  next
    case (SweepGlobal t')
    from IH [of "s\<lparr>si_global := evictIdle t' (si_global s)\<rparr>"] t(1) in_order_weaken [OF t(1)] show ?thesis
      by (fastforce simp: SweepGlobal)
  next
    case (SweepAuth t')
    obtain les where les: "in_order t' les" "\<forall>e \<in> set les. event_time e \<le> t1"
        "attempts d mx k es (s\<lparr>si_auth := evictIdle t' (si_auth s)\<rparr>) \<le> granted k les (evictIdle t' (si_auth s))"
      using IH [of "s\<lparr>si_auth := evictIdle t' (si_auth s)\<rparr>"] by (auto simp: SweepAuth)
    with t show ?thesis by (intro exI [of _ "Evict t' # les"]) (simp add: SweepAuth)
  qed
qed

lemma attempts_bounded:
  assumes "rd_limited d" "limiter_wf (si_auth s) t0" "idle_refills (si_auth s)" "sorted (t0 # map event_clock es @ [t1])"
  shows "of_nat (attempts d mx k es s) \<le> lm_burst (si_auth s) + lm_rate (si_auth s) * seconds (t1 - t0)"
proof -
  obtain les where les: "in_order t0 les" "\<forall>e \<in> set les. event_time e \<le> t1"
      "attempts d mx k es s \<le> granted k les (si_auth s)"
    using attempts_granted [OF assms(1,4)] by blast
  have "t0 \<le> t1" using assms(4) by simp
  from granted_within_budget [OF assms(2,3) les(1,2) this, of k] budget_range(2) [OF assms(2) order.refl, of k]
  have "of_nat (granted k les (si_auth s)) \<le> lm_burst (si_auth s) + lm_rate (si_auth s) * seconds (t1 - t0)"
    by (simp add: mult.commute)
  moreover have "of_nat (attempts d mx k es s) \<le> (of_nat (granted k les (si_auth s)) :: rat)" using les(3) by simp
  ultimately show ?thesis by (rule order_trans [rotated])
qed

section \<open>Property\<close>


text \<open>A hundred logins at one moment.\<close>

abbreviation login_request :: http_request where
  "login_request \<equiv> sample_request ''POST'' ''/api/v1/auth/login'' []"

lemma login_request_is_charged:
  "credential_request d exact_mux login_request" "limiter_key x tp login_request = ''ip:10.0.0.9''"
  by (simp add: credential_request_def exact_mux_def route_names_def route_tables sample_request_def Let_def)
    (code_simp, simp)


end
