(* ===== verification/Migrate.thy ===== *)
theory Migrate
  imports Decoding Database
begin

text \<open>
  \<open>internal/platform/postgres/migrate.go\<close> and the commands of \<open>cmd/migrate\<close>: loading the migration
  files, the version table, and \<open>Up\<close>, \<open>Down\<close>, \<open>Applied\<close> and \<open>Pending\<close> over the driver of theory
  Database. What a script does to the application's schema is PostgreSQL's business: it is the
  argument \<open>sql\<close>, over any type of schema; scripts leave the version table alone. One migrator runs
  at a time, which is what the advisory lock is for; taking and releasing it are round trips.
  Lemmas: a run applies whole migrations, in order, from the first pending one on; rolling back undoes it.
\<close>

section \<open>Migrations and their files\<close>

record migration =
  mg_version :: int
  mg_name :: string
  mg_up :: string
  mg_down :: string

record applied_migration =
  am_version :: int
  am_name :: string
  am_checksum :: string
  am_at :: time

text \<open>A directory entry: its name, whether it is a directory, and what reading it gives.\<close>

record dir_entry =
  de_name :: string
  de_dir :: bool
  de_body :: "gerr + string"

definition name_char :: "char \<Rightarrow> bool" where
  "name_char c \<longleftrightarrow> (97 \<le> byte c \<and> byte c \<le> 122) \<or> is_digit c \<or> c = CHR ''_'' \<or> c = CHR ''-''"

text \<open>The pattern's three groups: digits, an underscore, the name, and the direction before \<open>.sql\<close>.\<close>

definition migrationFilePattern :: "string \<Rightarrow> (string \<times> string \<times> string) option" where
  "migrationFilePattern s =
    (let ver = takeWhile is_digit s; rest = dropWhile is_digit s;
         name = takeWhile name_char (drop 1 rest); ext = dropWhile name_char (drop 1 rest) in
     if ver = [] \<or> take 1 rest \<noteq> ''_'' \<or> name = [] then None
     else if ext = ''.up.sql'' then Some (ver, name, ''up'')
     else if ext = ''.down.sql'' then Some (ver, name, ''down'')
     else None)"

fun unix_lines :: "string \<Rightarrow> string" where
  "unix_lines (c # d # s) =
    (if byte c = 13 \<and> byte d = 10 then d # unix_lines s else c # unix_lines (d # s))"
| "unix_lines s = s"

definition hex_encode :: "string \<Rightarrow> string" where
  "hex_encode s = concat (map (\<lambda>c. hex_digits 2 (byte c)) s)"

definition checksum :: "ext \<Rightarrow> string \<Rightarrow> string" where
  "checksum x s = hex_encode (sha256 x (unix_lines s))"

text \<open>\<open>%04d\<close>, and \<open>%04d_%s\<close> of a migration.\<close>

definition four_digits :: "int \<Rightarrow> string" where
  "four_digits v = (let sign = (if v < 0 then ''-'' else []); d = itoa \<bar>v\<bar> in
     sign @ replicate (4 - length sign - length d) (CHR ''0'') @ d)"

definition label :: "migration \<Rightarrow> string" where
  "label m = four_digits (mg_version m) @ ''_'' @ mg_name m"

section \<open>Loading\<close>

text \<open>The two scripts of a version are paired; a later file of the same version and direction wins.\<close>

definition set_script :: "string \<Rightarrow> string \<Rightarrow> migration \<Rightarrow> migration" where
  "set_script direction body m = (if direction = ''up'' then m\<lparr>mg_up := body\<rparr> else m\<lparr>mg_down := body\<rparr>)"

fun read_entries :: "ext \<Rightarrow> dir_entry list \<Rightarrow> (int \<times> migration) list \<Rightarrow> gerr + (int \<times> migration) list" where
  "read_entries x [] ms = Inr ms"
| "read_entries x (e # es) ms =
    (if de_dir e then read_entries x es ms
     else (case migrationFilePattern (de_name e) of
        None \<Rightarrow>
          if has_suffix ''.sql'' (de_name e)
          then Inl (LibError (''migration file '' @ quote x (de_name e) @ '' does not match NNNN_name.(up|down).sql''))
          else read_entries x es ms
      | Some (ver, name, direction) \<Rightarrow>
         (case atoi ver of
            None \<Rightarrow> Inl (Wrapf (''migration file '' @ quote x (de_name e) @ '' has an unparsable version'')
                [LibError (''strconv.ParseInt: parsing '' @ quote x ver @ '': value out of range'')])
          | Some v \<Rightarrow>
             (case de_body e of
                Inl err \<Rightarrow> Inl (Wrapf (''read migration '' @ quote x (de_name e)) [err])
              | Inr body \<Rightarrow>
                 (let m = (case map_of ms v of
                      None \<Rightarrow> \<lparr>mg_version = v, mg_name = name, mg_up = [], mg_down = []\<rparr> | Some m \<Rightarrow> m) in
                  read_entries x es (AList.update v (set_script direction body m) ms))))))"

text \<open>Which of several migrations without an up script is reported depends on Go's map order; here it
  is the one whose file comes first.\<close>

definition load :: "ext \<Rightarrow> gerr + dir_entry list \<Rightarrow> gerr + migration list" where
  "load x files =
    (case files of
       Inl e \<Rightarrow> Inl (Wrapf ''read migrations directory'' [e])
     | Inr entries \<Rightarrow>
        (case read_entries x entries [] of
           Inl e \<Rightarrow> Inl e
         | Inr ms \<Rightarrow>
            (case find (\<lambda>m. trim_space (mg_up m) = []) (map snd ms) of
               Some m \<Rightarrow> Inl (LibError (''migration '' @ label m @ '' has no .up.sql file''))
             | None \<Rightarrow> Inr (sort_key mg_version (map snd ms)))))"

section \<open>The version table\<close>

text \<open>\<open>md_versions\<close> is \<open>None\<close> while the table does not exist.\<close>

record 'd migrated =
  md_schema :: 'd
  md_versions :: "applied_migration list option"

type_synonym 'd script = "string \<Rightarrow> time \<Rightarrow> 'd \<Rightarrow> gerr + 'd"

definition undefined_table :: gerr where "undefined_table = PgError ''42P01'' []"

definition ensured :: "'d migrated \<Rightarrow> 'd migrated" where
  "ensured d = d\<lparr>md_versions := Some (case md_versions d of None \<Rightarrow> [] | Some vs \<Rightarrow> vs)\<rparr>"

definition select_versions :: "('d migrated, applied_migration list) stmt_on" where
  "select_versions t d =
    (case md_versions d of None \<Rightarrow> Inl undefined_table | Some vs \<Rightarrow> Inr (sort_key am_version vs, d))"

definition run_script :: "'d script \<Rightarrow> string \<Rightarrow> ('d migrated, unit) stmt_on" where
  "run_script sql s t d = (case sql s t (md_schema d) of Inl e \<Rightarrow> Inl e | Inr d' \<Rightarrow> Inr ((), d\<lparr>md_schema := d'\<rparr>))"

definition insert_version :: "int \<Rightarrow> string \<Rightarrow> string \<Rightarrow> ('d migrated, unit) stmt_on" where
  "insert_version v name chk t d =
    (case md_versions d of
       None \<Rightarrow> Inl undefined_table
     | Some vs \<Rightarrow>
        if v \<in> am_version ` set vs then Inl (PgError sqlStateUniqueViolation ''schema_migrations_pkey'')
        else Inr ((), d\<lparr>md_versions := Some (vs @ [\<lparr>am_version = v, am_name = name, am_checksum = chk, am_at = t\<rparr>])\<rparr>))"

definition delete_version :: "int \<Rightarrow> ('d migrated, unit) stmt_on" where
  "delete_version v t d =
    (case md_versions d of
       None \<Rightarrow> Inl undefined_table
     | Some vs \<Rightarrow> Inr ((), d\<lparr>md_versions := Some (delete_where (\<lambda>r. am_version r = v) vs)\<rparr>))"

definition wrapping :: "string \<Rightarrow> ('d, 'a) prog_on \<Rightarrow> ('d, 'a) prog_on" where
  "wrapping m p w = (case p w of (Inl e, w1) \<Rightarrow> (Inl (Wrapf m [e]), w1) | (Inr a, w1) \<Rightarrow> (Inr a, w1))"

definition ensureVersionTable :: "('d migrated, unit) prog_on" where
  "ensureVersionTable = wrapping ''create schema_migrations'' (execute (\<lambda>t d. Inr ((), ensured d)))"

definition Applied :: "('d migrated, applied_migration list) prog_on" where
  "Applied = wrapping ''read schema_migrations'' (execute select_versions)"

definition appliedByVersion :: "('d migrated, int \<Rightarrow> applied_migration option) prog_on" where
  "appliedByVersion w =
    (case Applied w of
       (Inl e, w1) \<Rightarrow> (Inl e, w1)
     | (Inr rows, w1) \<Rightarrow> (Inr (map_of (rev (map (\<lambda>r. (am_version r, r)) rows))), w1))"

section \<open>Up and Down\<close>

definition applyUp :: "ext \<Rightarrow> 'd script \<Rightarrow> migration \<Rightarrow> ('d migrated, unit) prog_on" where
  "applyUp x sql m = InTx (\<lambda>w.
    (case wrapping (''apply migration '' @ label m) (execute (run_script sql (mg_up m))) w of
       (Inl e, w1) \<Rightarrow> (Inl e, w1)
     | (Inr u, w1) \<Rightarrow> wrapping (''record migration '' @ label m)
         (execute (insert_version (mg_version m) (mg_name m) (checksum x (mg_up m)))) w1))"

definition applyDown :: "'d script \<Rightarrow> migration \<Rightarrow> ('d migrated, unit) prog_on" where
  "applyDown sql m = InTx (\<lambda>w.
    (case wrapping (''revert migration '' @ label m) (execute (run_script sql (mg_down m))) w of
       (Inl e, w1) \<Rightarrow> (Inl e, w1)
     | (Inr u, w1) \<Rightarrow> wrapping (''un-record migration '' @ label m) (execute (delete_version (mg_version m))) w1))"

text \<open>A statement without effect on the tables: acquiring a connection, taking or releasing the lock.\<close>

definition no_effect :: "('d, unit) stmt_on" where "no_effect t d = Inr ((), d)"

definition lock :: "('d, unit) prog_on" where
  "lock w =
    (case wrapping ''acquire connection for migration lock'' (execute no_effect) w of
       (Inl e, w1) \<Rightarrow> (Inl e, w1)
     | (Inr u, w1) \<Rightarrow> wrapping ''take migration advisory lock'' (execute no_effect) w1)"

definition unlock :: "'d machine \<Rightarrow> 'd machine" where
  "unlock w = (case execute no_effect w of
     (Inl e, w1) \<Rightarrow> log_app (warn_line ''failed to release migration advisory lock'' [Attr ''error'' (error_text e)]) w1
   | (Inr u, w1) \<Rightarrow> w1)"

definition migration_line :: "string \<Rightarrow> migration \<Rightarrow> log_line" where
  "migration_line what m = info_line what [Attr ''version'' (itoa (mg_version m)), Attr ''name'' (mg_name m)]"

text \<open>\<open>Up\<close> and \<open>Down\<close> return the versions done so far together with an error, if any.\<close>

type_synonym 'd migrator = "'d migrated machine \<Rightarrow> (gerr option \<times> int list) \<times> 'd migrated machine"

definition history_edited :: "migration \<Rightarrow> string \<Rightarrow> string \<Rightarrow> gerr" where
  "history_edited m old new = LibError (''migration '' @ label m @ '' was already applied with checksum '' @ old
     @ '' but the file now hashes to '' @ new @ '': edit history is not allowed, add a new migration instead'')"

fun apply_pending :: "ext \<Rightarrow> 'd script \<Rightarrow> (int \<Rightarrow> applied_migration option) \<Rightarrow> migration list \<Rightarrow> int list \<Rightarrow> 'd migrator" where
  "apply_pending x sql applied [] run w = ((None, run), w)"
| "apply_pending x sql applied (m # ms) run w =
    (case applied (mg_version m) of
       Some prev \<Rightarrow>
         if checksum x (mg_up m) \<noteq> am_checksum prev
         then ((Some (history_edited m (am_checksum prev) (checksum x (mg_up m))), run), w)
         else apply_pending x sql applied ms run w
     | None \<Rightarrow>
        (case applyUp x sql m w of
           (Inl e, w1) \<Rightarrow> ((Some e, run), w1)
         | (Inr u, w1) \<Rightarrow> apply_pending x sql applied ms (run @ [mg_version m])
             (log_app (migration_line ''applied migration'' m) w1)))"

text \<open>\<open>defer unlock()\<close>.\<close>

definition locked :: "'d migrator \<Rightarrow> 'd migrator" where
  "locked body w =
    (case lock w of
       (Inl e, w1) \<Rightarrow> ((Some e, []), w1)
     | (Inr u, w1) \<Rightarrow> (case body w1 of (r, w2) \<Rightarrow> (r, unlock w2)))"

definition Up :: "ext \<Rightarrow> 'd script \<Rightarrow> gerr + dir_entry list \<Rightarrow> 'd migrator" where
  "Up x sql files w =
    (case load x files of
       Inl e \<Rightarrow> ((Some e, []), w)
     | Inr migrations \<Rightarrow> locked (\<lambda>w1.
        (case ensureVersionTable w1 of
           (Inl e, w2) \<Rightarrow> ((Some e, []), w2)
         | (Inr u, w2) \<Rightarrow>
            (case appliedByVersion w2 of
               (Inl e, w3) \<Rightarrow> ((Some e, []), w3)
             | (Inr applied, w3) \<Rightarrow> apply_pending x sql applied migrations [] w3))) w)"

fun revert_rows :: "'d script \<Rightarrow> (int \<Rightarrow> migration option) \<Rightarrow> applied_migration list \<Rightarrow> int list \<Rightarrow> 'd migrator" where
  "revert_rows sql byVersion [] reverted w = ((None, reverted), w)"
| "revert_rows sql byVersion (r # rs) reverted w =
    (case byVersion (am_version r) of
       None \<Rightarrow> ((Some (LibError (''migration '' @ four_digits (am_version r)
           @ '' is recorded as applied but its file is missing'')), reverted), w)
     | Some m \<Rightarrow>
         if trim_space (mg_down m) = []
         then ((Some (LibError (''migration '' @ label m @ '' has no .down.sql and cannot be rolled back'')), reverted), w)
         else (case applyDown sql m w of
             (Inl e, w1) \<Rightarrow> ((Some e, reverted), w1)
           | (Inr u, w1) \<Rightarrow> revert_rows sql byVersion rs (reverted @ [mg_version m])
               (log_app (migration_line ''reverted migration'' m) w1)))"

definition by_version :: "migration list \<Rightarrow> int \<Rightarrow> migration option" where
  "by_version ms = map_of (rev (map (\<lambda>m. (mg_version m, m)) ms))"

definition Down :: "ext \<Rightarrow> 'd script \<Rightarrow> gerr + dir_entry list \<Rightarrow> int \<Rightarrow> 'd migrator" where
  "Down x sql files steps w =
    (if steps \<le> 0 then ((Some (LibError ''steps must be greater than zero''), []), w)
     else (case load x files of
        Inl e \<Rightarrow> ((Some e, []), w)
      | Inr migrations \<Rightarrow> locked (\<lambda>w1.
         (case ensureVersionTable w1 of
            (Inl e, w2) \<Rightarrow> ((Some e, []), w2)
          | (Inr u, w2) \<Rightarrow>
             (case Applied w2 of
                (Inl e, w3) \<Rightarrow> ((Some e, []), w3)
              | (Inr applied, w3) \<Rightarrow> revert_rows sql (by_version migrations)
                  (take (nat steps) (rev (sort_key am_version applied))) [] w3))) w))"

definition Pending :: "ext \<Rightarrow> gerr + dir_entry list \<Rightarrow> ('d migrated, migration list) prog_on" where
  "Pending x files w =
    (case load x files of
       Inl e \<Rightarrow> (Inl e, w)
     | Inr migrations \<Rightarrow>
        (case ensureVersionTable w of
           (Inl e, w1) \<Rightarrow> (Inl e, w1)
         | (Inr u, w1) \<Rightarrow>
            (case appliedByVersion w1 of
               (Inl e, w2) \<Rightarrow> (Inl e, w2)
             | (Inr applied, w2) \<Rightarrow> (Inr (filter (\<lambda>m. applied (mg_version m) = None) migrations), w2))))"

section \<open>The commands\<close>

datatype report = UpToDate | AppliedVersions "int list" | RevertedVersions "int list"
  | Status "applied_migration list" "migration list"

definition printStatus :: "ext \<Rightarrow> gerr + dir_entry list \<Rightarrow> ('d migrated, report) prog_on" where
  "printStatus x files w =
    (case Applied w of
       (Inl e, w1) \<Rightarrow> (Inl e, w1)
     | (Inr applied, w1) \<Rightarrow>
        (case Pending x files w1 of
           (Inl e, w2) \<Rightarrow> (Inl e, w2)
         | (Inr pending, w2) \<Rightarrow> (Inr (Status applied pending), w2)))"

text \<open>The command line after the flags, against a connected database.\<close>

definition migrate_command :: "ext \<Rightarrow> 'd script \<Rightarrow> gerr + dir_entry list \<Rightarrow> string list \<Rightarrow> ('d migrated, report) prog_on" where
  "migrate_command x sql files args w =
    (case args of
       [] \<Rightarrow> (Inl (LibError ''a command is required''), w)
     | cmd # rest \<Rightarrow>
        if cmd = ''up'' then
          (case Up x sql files w of
             ((Some e, run), w1) \<Rightarrow> (Inl e, w1)
           | ((None, run), w1) \<Rightarrow> (Inr (if run = [] then UpToDate else AppliedVersions run), w1))
        else if cmd = ''down'' then
          (case (case rest of [] \<Rightarrow> Some 1 | a # _ \<Rightarrow> atoi a) of
             None \<Rightarrow> (Inl (LibError (''down: '' @ quote x (hd rest) @ '' is not a number of steps'')), w)
           | Some steps \<Rightarrow>
              (case Down x sql files steps w of
                 ((Some e, reverted), w1) \<Rightarrow> (Inl e, w1)
               | ((None, reverted), w1) \<Rightarrow> (Inr (RevertedVersions reverted), w1)))
        else if cmd = ''status'' then printStatus x files w
        else (Inl (LibError (''unknown command '' @ quote x cmd)), w))"

section \<open>What a run leaves behind\<close>

lemma no_effect_db: "execute no_effect w = (r, w') \<Longrightarrow> db w' = db w"
  by (erule execute_read_only) (simp add: no_effect_def)

lemma unlock_db [simp]: "db (unlock w) = db w"
  by (auto simp: unlock_def dest: no_effect_db split: prod.split sum.split)

lemma wrapping_same_process:
  "wrapping m p w = (r, w') \<Longrightarrow> (\<And>v s v'. p v = (s, v') \<Longrightarrow> same_process v v') \<Longrightarrow> same_process w w'"
  by (auto simp: wrapping_def split: prod.splits sum.splits)

lemma wrapping_Inr: "wrapping m p w = (Inr a, w') \<longleftrightarrow> p w = (Inr a, w')"
  by (auto simp: wrapping_def split: prod.splits sum.splits)

lemma wrapping_db:
  "wrapping m p w = (r, w') \<Longrightarrow> (\<And>s. p w = (s, w') \<Longrightarrow> db w' = d) \<Longrightarrow> db w' = d"
  by (auto simp: wrapping_def split: prod.splits sum.splits)

lemma lock_frame:
  assumes "lock w = (r, w')"
  shows "db w' = db w \<and> same_process w w'"
proof -
  have one: "db v' = db v \<and> same_process v v'" if "wrapping m (execute no_effect) v = (s, v')" for m v s and v' :: "'a machine"
    using that wrapping_db [OF that, of "db v"] wrapping_same_process [OF that]
    by (auto dest: no_effect_db execute_same_process)
  show ?thesis
    using assms by (auto simp: lock_def split: prod.splits sum.splits dest!: one intro: same_process_trans)
qed

text \<open>The effect of one whole migration, and of several in order.\<close>

definition version_row :: "ext \<Rightarrow> time \<Rightarrow> migration \<Rightarrow> applied_migration" where
  "version_row x t m = \<lparr>am_version = mg_version m, am_name = mg_name m, am_checksum = checksum x (mg_up m), am_at = t\<rparr>"

definition upgraded :: "ext \<Rightarrow> 'd script \<Rightarrow> time \<Rightarrow> migration \<Rightarrow> 'd migrated \<Rightarrow> 'd migrated option" where
  "upgraded x sql t m d =
    (case sql (mg_up m) t (md_schema d) of
       Inl e \<Rightarrow> None
     | Inr d' \<Rightarrow> (case md_versions d of
          None \<Rightarrow> None
        | Some vs \<Rightarrow> Some \<lparr>md_schema = d', md_versions = Some (vs @ [version_row x t m])\<rparr>))"

fun upgraded_all :: "ext \<Rightarrow> 'd script \<Rightarrow> time \<Rightarrow> migration list \<Rightarrow> 'd migrated \<Rightarrow> 'd migrated option" where
  "upgraded_all x sql t [] d = Some d"
| "upgraded_all x sql t (m # ms) d =
    (case upgraded x sql t m d of None \<Rightarrow> None | Some d' \<Rightarrow> upgraded_all x sql t ms d')"

definition downgraded :: "'d script \<Rightarrow> time \<Rightarrow> migration \<Rightarrow> 'd migrated \<Rightarrow> 'd migrated option" where
  "downgraded sql t m d =
    (case sql (mg_down m) t (md_schema d) of
       Inl e \<Rightarrow> None
     | Inr d' \<Rightarrow> (case md_versions d of
          None \<Rightarrow> None
        | Some vs \<Rightarrow> Some \<lparr>md_schema = d', md_versions = Some (delete_where (\<lambda>r. am_version r = mg_version m) vs)\<rparr>))"

text \<open>A transaction of two wrapped statements, the shape of both directions.\<close>

lemma two_statements:
  assumes "InTx (\<lambda>w. case wrapping m1 (execute s1) w of
       (Inl e, w1) \<Rightarrow> (Inl e, w1) | (Inr u, w1) \<Rightarrow> wrapping m2 (execute s2) w1) w = (r, w')"
    (is "InTx ?body w = _")
  defines "done d' \<equiv> \<exists>a b d. s1 (db_now w) (db w) = Inr (a, d) \<and> s2 (db_now w) d = Inr (b, d')"
  shows "same_process w w'" "\<exists>a. r = Inr a \<Longrightarrow> done (db w')" "db w' = db w \<or> done (db w')"
    "\<exists>e. r = Inl e \<Longrightarrow> acknowledged w \<Longrightarrow> db w' = db w"
proof -
  have same: "same_process v v'" if "?body v = (s, v')" for v s v'
    using that by (auto split: prod.splits sum.splits
        dest!: wrapping_same_process [OF _ execute_same_process] intro: same_process_trans)
  have ok: "\<exists>a b d. s1 (db_now v) (db v) = Inr (a, d) \<and> s2 (db_now v) d = Inr (b, db v')" if body: "?body v = (Inr c, v')" for v c v'
  proof -
    from body obtain a v1 where 1: "execute s1 v = (Inr a, v1)" "execute s2 v1 = (Inr c, v')"
      by (auto simp: wrapping_Inr split: prod.splits sum.splits)
    with execute_ok [OF 1(1)] execute_ok [OF 1(2)] execute_same_process [OF 1(1)] show ?thesis
      by (auto simp: same_process_def)
  qed
  show "same_process w w'" using assms(1) same by (rule InTx_same_process)
  show "\<exists>e. r = Inl e \<Longrightarrow> acknowledged w \<Longrightarrow> db w' = db w"
    using assms(1) InTx_refused [of ?body w _ w'] same by fastforce
  show "\<exists>a. r = Inr a \<Longrightarrow> done (db w')" "db w' = db w \<or> done (db w')"
    using assms(1) ok unfolding done_def by (cases rule: InTx_cases; fastforce)+
qed

lemma applyUp_effect:
  assumes "applyUp x sql m w = (r, w')"
  shows "same_process w w'" "\<exists>u. r = Inr u \<Longrightarrow> upgraded x sql (db_now w) m (db w) = Some (db w')"
    and "db w' = db w \<or> upgraded x sql (db_now w) m (db w) = Some (db w')"
    and "\<exists>e. r = Inl e \<Longrightarrow> acknowledged w \<Longrightarrow> db w' = db w"
proof -
  have "upgraded x sql (db_now w) m (db w) = Some d'"
    if "run_script sql (mg_up m) (db_now w) (db w) = Inr (a, d)"
      "insert_version (mg_version m) (mg_name m) (checksum x (mg_up m)) (db_now w) d = Inr (b, d')" for a b d d'
    using that by (auto simp: upgraded_def run_script_def insert_version_def version_row_def
        split: sum.splits option.splits if_splits)
  with two_statements [OF assms [unfolded applyUp_def]]
  show "same_process w w'" "\<exists>u. r = Inr u \<Longrightarrow> upgraded x sql (db_now w) m (db w) = Some (db w')"
    and "db w' = db w \<or> upgraded x sql (db_now w) m (db w) = Some (db w')"
    and "\<exists>e. r = Inl e \<Longrightarrow> acknowledged w \<Longrightarrow> db w' = db w"
    by blast+
qed

lemma applyDown_effect:
  assumes "applyDown sql m w = (r, w')"
  shows "same_process w w'" "\<exists>u. r = Inr u \<Longrightarrow> downgraded sql (db_now w) m (db w) = Some (db w')"
    and "db w' = db w \<or> downgraded sql (db_now w) m (db w) = Some (db w')"
    and "\<exists>e. r = Inl e \<Longrightarrow> acknowledged w \<Longrightarrow> db w' = db w"
proof -
  have "downgraded sql (db_now w) m (db w) = Some d'"
    if "run_script sql (mg_down m) (db_now w) (db w) = Inr (a, d)"
      "delete_version (mg_version m) (db_now w) d = Inr (b, d')" for a b d d'
    using that by (auto simp: downgraded_def run_script_def delete_version_def
        split: sum.splits option.splits if_splits)
  with two_statements [OF assms [unfolded applyDown_def]]
  show "same_process w w'" "\<exists>u. r = Inr u \<Longrightarrow> downgraded sql (db_now w) m (db w) = Some (db w')"
    and "db w' = db w \<or> downgraded sql (db_now w) m (db w) = Some (db w')"
    and "\<exists>e. r = Inl e \<Longrightarrow> acknowledged w \<Longrightarrow> db w' = db w"
    by blast+
qed

abbreviation pending :: "(int \<Rightarrow> applied_migration option) \<Rightarrow> migration list \<Rightarrow> migration list" where
  "pending applied \<equiv> filter (\<lambda>m. applied (mg_version m) = None)"

text \<open>The run reports the first \<open>j\<close> pending migrations, the tables show the first \<open>k\<close>.\<close>

lemma apply_pending_effect:
  assumes "apply_pending x sql applied ms run w = ((err, run'), w')"
  shows "\<exists>j k. j \<le> k \<and> k \<le> Suc j \<and> k \<le> length (pending applied ms)
    \<and> run' = run @ map mg_version (take j (pending applied ms))
    \<and> upgraded_all x sql (db_now w) (take k (pending applied ms)) (db w) = Some (db w')
    \<and> (err = None \<longrightarrow> j = length (pending applied ms)
        \<and> (\<forall>m \<in> set ms. \<forall>r. applied (mg_version m) = Some r \<longrightarrow> checksum x (mg_up m) = am_checksum r))
    \<and> (acknowledged w \<longrightarrow> k = j)"
  using assms
proof (induction ms arbitrary: run w)
  case (Cons m ms)
  show ?case
  proof (cases "applied (mg_version m)")
    case (Some prev)
    show ?thesis
    proof (cases "checksum x (mg_up m) = am_checksum prev")
      case True
      with Some Cons.prems have "apply_pending x sql applied ms run w = ((err, run'), w')" by simp
      from Cons.IH [OF this] Some True show ?thesis by auto
    next
      case False
      with Some Cons.prems have "err \<noteq> None \<and> run' = run \<and> w' = w" by auto
      then show ?thesis by (intro exI [of _ 0]) (auto simp: Some)
    qed
  next
    case None
    obtain r w1 where a: "applyUp x sql m w = (r, w1)" by fastforce
    note fx = applyUp_effect [OF a]
    show ?thesis
    proof (cases r)
      case (Inl e)
      with None a Cons.prems have w': "err = Some e" "run' = run" "w' = w1" by auto
      from fx(3) show ?thesis
      proof
        assume "db w1 = db w"
        with w' show ?thesis by (intro exI [of _ 0]) simp
      next
        assume up: "upgraded x sql (db_now w) m (db w) = Some (db w1)"
        show ?thesis
        proof (cases "acknowledged w")
          case True
          with fx(4) Inl have "db w1 = db w" by blast
          with w' show ?thesis by (intro exI [of _ 0]) simp
        next
          case False
          with up w' None show ?thesis by (intro exI [of _ 0] exI [of _ "Suc 0"]) simp
        qed
      qed
    next
      case (Inr u)
      with None a Cons.prems have rest: "apply_pending x sql applied ms (run @ [mg_version m]) (log_app (migration_line ''applied migration'' m) w1) = ((err, run'), w')" by simp
      have s: "db_now w1 = db_now w" "acknowledged w \<longrightarrow> acknowledged w1" using fx(1) by (auto simp: same_process_def)
      have up: "upgraded x sql (db_now w) m (db w) = Some (db w1)" using fx(2) Inr by blast
      from Cons.IH [OF rest] obtain j k where jk: "j \<le> k" "k \<le> Suc j" "k \<le> length (pending applied ms)"
          "run' = (run @ [mg_version m]) @ map mg_version (take j (pending applied ms))"
          "upgraded_all x sql (db_now w1) (take k (pending applied ms)) (db w1) = Some (db w')"
          "err = None \<longrightarrow> j = length (pending applied ms)
            \<and> (\<forall>m \<in> set ms. \<forall>r. applied (mg_version m) = Some r \<longrightarrow> checksum x (mg_up m) = am_checksum r)"
          "acknowledged w1 \<longrightarrow> k = j"
        unfolding log_app_simps by blast
      with None s up show ?thesis by (intro exI [of _ "Suc j"] exI [of _ "Suc k"]) simp
    qed
  qed
qed (auto intro!: exI [of _ 0])

definition recorded :: "'d migrated \<Rightarrow> int set" where
  "recorded d = (case md_versions d of None \<Rightarrow> {} | Some vs \<Rightarrow> am_version ` set vs)"

lemma ensured_simps [simp]:
  "recorded (ensured d) = recorded d" "md_schema (ensured d) = md_schema d"
  "ensured (ensured d) = ensured d" "md_versions (ensured d) \<noteq> None"
  by (simp_all add: recorded_def ensured_def split: option.splits)

lemma ensureVersionTable_effect:
  assumes "ensureVersionTable w = (r, w')"
  shows "same_process w w'" "db w' = db w \<or> db w' = ensured (db w)" "r = Inr u \<Longrightarrow> db w' = ensured (db w)"
proof -
  obtain s where e: "execute (\<lambda>t d. Inr ((), ensured d)) w = (s, w')" "\<exists>a. r = Inr a \<Longrightarrow> \<exists>a. s = Inr a"
    using assms by (auto simp: ensureVersionTable_def wrapping_def split: prod.splits sum.splits)
  from e(1) show "same_process w w'" by (rule execute_same_process)
  from e(1) show "db w' = db w \<or> db w' = ensured (db w)" by (cases rule: execute_cases) auto
  show "r = Inr u \<Longrightarrow> db w' = ensured (db w)" using e by (auto dest: execute_ok)
qed

lemma Applied_effect:
  assumes "Applied w = (r, w')"
  shows "same_process w w'" "db w' = db w"
    "r = Inr rows \<Longrightarrow> \<exists>vs. md_versions (db w) = Some vs \<and> rows = sort_key am_version vs"
proof -
  obtain s where e: "execute select_versions w = (s, w')" "\<And>a. r = Inr a \<Longrightarrow> s = Inr a"
    using assms by (auto simp: Applied_def wrapping_def split: prod.splits sum.splits)
  from e(1) show "same_process w w'" by (rule execute_same_process)
  from e(1) show "db w' = db w"
    by (rule execute_read_only) (auto simp: select_versions_def split: option.splits)
  show "r = Inr rows \<Longrightarrow> \<exists>vs. md_versions (db w) = Some vs \<and> rows = sort_key am_version vs"
    using e by (auto simp: select_versions_def dest!: execute_ok split: option.splits)
qed

lemma appliedByVersion_effect:
  assumes "appliedByVersion w = (r, w')"
  shows "same_process w w'" "db w' = db w"
    "r = Inr applied \<Longrightarrow> dom applied = recorded (db w)"
    "r = Inr applied \<Longrightarrow> applied v = Some row \<Longrightarrow>
      am_version row = v \<and> (\<exists>vs. md_versions (db w) = Some vs \<and> row \<in> set vs)"
proof -
  obtain s where e: "Applied w = (s, w')"
      "r = Inr applied \<Longrightarrow> \<exists>rows. s = Inr rows \<and> applied = map_of (rev (map (\<lambda>r. (am_version r, r)) rows))"
    using assms by (auto simp: appliedByVersion_def split: prod.splits sum.splits)
  show "same_process w w'" "db w' = db w" using Applied_effect [OF e(1)] by blast+
  assume "r = Inr applied"
  with e(2) Applied_effect(3) [OF e(1)] obtain vs where vs: "md_versions (db w) = Some vs"
      "applied = map_of (rev (map (\<lambda>r. (am_version r, r)) (sort_key am_version vs)))" by blast
  then show "dom applied = recorded (db w)"
    by (simp add: recorded_def dom_map_of_conv_image_fst image_image)
  show "am_version row = v \<and> (\<exists>vs. md_versions (db w) = Some vs \<and> row \<in> set vs)" if "applied v = Some row"
    using map_of_SomeD [OF that [unfolded vs(2)]] vs(1) by auto
qed

lemma apply_pending_frame: "apply_pending x sql applied ms run w = (r, w') \<Longrightarrow> same_process w w'"
proof (induction ms arbitrary: run w)
  case (Cons m ms)
  obtain ru w1 where a: "applyUp x sql m w = (ru, w1)" by fastforce
  note fx = applyUp_effect(1) [OF a]
  show ?case
  proof (cases "applied (mg_version m)")
    case None
    show ?thesis
    proof (cases ru)
      case (Inr u)
      with None a Cons.prems have "apply_pending x sql applied ms (run @ [mg_version m]) (log_app (migration_line ''applied migration'' m) w1) = (r, w')" by simp
      from same_process_trans [OF fx Cons.IH [OF this, simplified]] show ?thesis .
    qed (use None a Cons.prems fx in simp)
  next
    case (Some prev)
    show ?thesis
    proof (cases "checksum x (mg_up m) = am_checksum prev")
      case True
      with Some Cons.prems have "apply_pending x sql applied ms run w = (r, w')" by simp
      then show ?thesis by (rule Cons.IH)
    qed (use Some Cons.prems in simp)
  qed
qed simp

text \<open>What is still to be applied.\<close>

definition todo :: "migration list \<Rightarrow> 'd migrated \<Rightarrow> migration list" where
  "todo ms d = filter (\<lambda>m. mg_version m \<notin> recorded d) ms"

lemma unlock_same_process: "same_process w (unlock w)"
  by (auto simp: unlock_def dest: execute_same_process split: prod.split sum.split)

lemma locked_effect:
  assumes "locked body w = (r, w')"
  obtains (no_lock) e where "r = (Some e, [])" "db w' = db w" "same_process w w'"
  | (held) w1 w2 where "db w1 = db w" "same_process w w1" "body w1 = (r, w2)" "db w' = db w2" "same_process w2 w'"
proof (cases "fst (lock w)")
  case (Inl e)
  then obtain w1 where l: "lock w = (Inl e, w1)" by (cases "lock w") auto
  with assms have "r = (Some e, [])" "w1 = w'" by (auto simp: locked_def)
  with lock_frame [OF l] show ?thesis by (intro no_lock [of e]) auto
next
  case (Inr u)
  then obtain w1 where l: "lock w = (Inr u, w1)" by (cases "lock w") auto
  obtain r2 w2 where b: "body w1 = (r2, w2)" by fastforce
  with l assms lock_frame [OF l] unlock_same_process [of w2] show ?thesis
    by (intro held [of w1 w2]) (auto simp: locked_def)
qed

definition partial_upgrade ::
  "ext \<Rightarrow> 'd script \<Rightarrow> time \<Rightarrow> bool \<Rightarrow> migration list \<Rightarrow> 'd migrated \<Rightarrow> gerr option \<Rightarrow> int list \<Rightarrow> 'd migrated \<Rightarrow> bool" where
  "partial_upgrade x sql t ack ms d err run d' \<longleftrightarrow>
    (\<exists>j k. j \<le> k \<and> k \<le> Suc j \<and> k \<le> length ms \<and> run = map mg_version (take j ms)
      \<and> upgraded_all x sql t (take k ms) (ensured d) = Some d'
      \<and> (err = None \<longrightarrow> j = length ms) \<and> (ack \<longrightarrow> k = j))"

text \<open>The version is recorded with the checksum of the file.\<close>

definition matches_record :: "ext \<Rightarrow> 'd migrated \<Rightarrow> migration \<Rightarrow> bool" where
  "matches_record x d m \<longleftrightarrow> (\<exists>vs. md_versions d = Some vs
     \<and> (\<exists>r \<in> set vs. am_version r = mg_version m \<and> am_checksum r = checksum x (mg_up m)))"

lemma nothing_upgraded: "partial_upgrade x sql t ack ms d (Some e) [] (ensured d)"
  unfolding partial_upgrade_def by (intro exI [of _ 0]) simp

lemma Up_effect:
  assumes "load x files = Inr ms" "Up x sql files w = ((err, run), w')"
  shows "same_process w w' \<and> (db w' = db w \<and> run = [] \<and> err \<noteq> None
      \<or> partial_upgrade x sql (db_now w) (acknowledged w) (todo ms (db w)) (db w) err run (db w')
        \<and> (err = None \<longrightarrow> (\<forall>m \<in> set ms. mg_version m \<in> recorded (db w) \<longrightarrow> matches_record x (ensured (db w)) m)))"
  using assms(2) [unfolded Up_def assms(1) sum.case]
proof (cases rule: locked_effect)
  case (held w1 w2)
  obtain re v where en: "ensureVersionTable w1 = (re, v)" by fastforce
  note env = ensureVersionTable_effect [OF en]
  have wv: "same_process w v" using same_process_trans [OF held(2) env(1)] .
  show ?thesis
  proof (cases re)
    case (Inl e)
    with held en have "err = Some e" "run = []" "w2 = v" by auto
    with env(2) held same_process_trans [OF wv, of w'] show ?thesis by (auto simp: nothing_upgraded)
  next
    case (Inr u)
    obtain ra z where ap: "appliedByVersion v = (ra, z)" by fastforce
    note apv = appliedByVersion_effect [OF ap]
    have wz: "same_process w z" using same_process_trans [OF wv apv(1)] .
    have v: "db v = ensured (db w)" using env(3) Inr held(1) by simp
    then have z: "db z = ensured (db w)" using apv(2) by simp
    show ?thesis
    proof (cases ra)
      case (Inl e)
      with held en Inr ap have "err = Some e" "run = []" "w2 = z" by auto
      with z held same_process_trans [OF wz, of w'] show ?thesis by (auto simp: nothing_upgraded)
    next
      case (Inr applied)
      with held en \<open>re = Inr u\<close> ap have run: "apply_pending x sql applied ms [] z = ((err, run), w2)" by auto
      have "dom applied = recorded (db w)" using apv(3) Inr v by simp
      have "applied (mg_version m) = None \<longleftrightarrow> mg_version m \<notin> recorded (db w)" for m :: migration
        using \<open>dom applied = recorded (db w)\<close> by (metis domIff)
      then have P: "pending applied ms = todo ms (db w)" by (simp add: todo_def)
      have "same_process z w2" using apply_pending_frame [OF run] .
      moreover have "matches_record x (ensured (db w)) m"
        if "m \<in> set ms" "mg_version m \<in> recorded (db w)" "err = None" for m
      proof -
        from that(2) \<open>dom applied = recorded (db w)\<close> obtain row where row: "applied (mg_version m) = Some row" by blast
        with that apply_pending_effect [OF run] have "am_checksum row = checksum x (mg_up m)" by auto
        with apv(4) [OF Inr row] v show ?thesis by (auto simp: matches_record_def)
      qed
      moreover have "db_now z = db_now w" "acknowledged w \<longrightarrow> acknowledged z" using wz by (auto simp: same_process_def)
      ultimately show ?thesis
        using apply_pending_effect [OF run] held same_process_trans [OF wz] same_process_trans [of z w2 w'] z
        unfolding P partial_upgrade_def by (auto 4 4)
    qed
  qed
qed auto

lemma version_row_simps [simp]: "am_version (version_row x t m) = mg_version m"
  "am_checksum (version_row x t m) = checksum x (mg_up m)"
  by (simp_all add: version_row_def)

lemma read_entries_step:
  assumes "read_entries x (e # es) ms = Inr ms'"
  shows "read_entries x es ms = Inr ms' \<or>
    (\<exists>v dir body m. read_entries x es (AList.update v (set_script dir body m) ms) = Inr ms'
       \<and> (map_of ms v \<noteq> Some m \<longrightarrow> mg_version m = v))"
  using assms by (fastforce simp: Let_def split: if_splits option.splits sum.splits)

lemma read_entries_keys:
  assumes "read_entries x es ms = Inr ms'" "distinct (map fst ms)" "\<forall>v m. map_of ms v = Some m \<longrightarrow> mg_version m = v"
  shows "distinct (map fst ms') \<and> (\<forall>v m. map_of ms' v = Some m \<longrightarrow> mg_version m = v)"
  using assms
proof (induction es arbitrary: ms)
  case (Cons e es)
  from read_entries_step [OF Cons.prems(1)] show ?case
  proof (elim disjE exE conjE)
    assume "read_entries x es ms = Inr ms'"
    from Cons.IH [OF this Cons.prems(2,3)] show ?thesis .
  next
    fix v dir body m
    assume r: "read_entries x es (AList.update v (set_script dir body m) ms) = Inr ms'"
      and m: "map_of ms v \<noteq> Some m \<longrightarrow> mg_version m = v"
    have "map_of (AList.update v (set_script dir body m) ms) = (map_of ms)(v \<mapsto> set_script dir body m)"
      by (simp add: update_conv')
    moreover have "mg_version (set_script dir body m) = v"
      using m Cons.prems(3) by (auto simp: set_script_def)
    ultimately show ?thesis
      using Cons.prems(2,3) by (intro Cons.IH [OF r]) (simp_all add: distinct_update)
  qed
qed simp

lemma load_ascending:
  assumes "load x files = Inr ms"
  shows "sorted_wrt (<) (map mg_version ms)"
proof -
  obtain es vs where r: "read_entries x es [] = Inr vs" and ms: "ms = sort_key mg_version (map snd vs)"
    using assms by (auto simp: load_def split: sum.splits option.splits)
  from read_entries_keys [OF r] have k: "distinct (map fst vs)" "\<forall>v m. map_of vs v = Some m \<longrightarrow> mg_version m = v" by auto
  then have eq: "map mg_version (map snd vs) = map fst vs" by (auto simp: map_of_eq_Some_iff)
  have "distinct (map mg_version (map snd vs))" unfolding eq by (rule k(1))
  then have "distinct (map mg_version ms)" unfolding distinct_map ms by (simp add: distinct_map)
  moreover have "sorted (map mg_version ms)" by (simp add: ms)
  ultimately show ?thesis by (simp add: strict_sorted_iff)
qed

lemma upgraded_all_append:
  "upgraded_all x sql t (ms @ ns) d =
    (case upgraded_all x sql t ms d of None \<Rightarrow> None | Some d' \<Rightarrow> upgraded_all x sql t ns d')"
  by (induction ms arbitrary: d) (auto split: option.splits)

lemma upgraded_all_versions:
  "upgraded_all x sql t ms d = Some d' \<Longrightarrow> md_versions d = Some vs \<Longrightarrow>
    md_versions d' = Some (vs @ map (version_row x t) ms)"
  by (induction ms arbitrary: d vs) (auto simp: upgraded_def split: option.splits sum.splits)

lemma applyDown_quiet:
  assumes "outcomes w = []" "downgraded sql (db_now w) m (db w) = Some d"
  shows "applyDown sql m w = (Inr (), w\<lparr>db := d\<rparr>)"
  using assms
  by (auto simp: applyDown_def InTx_def execute_quiet begin_tx_def round_trip_no_outcomes wrapping_def run_script_def
      delete_version_def downgraded_def split: sum.splits option.splits)

text \<open>The down script of a migration undoes its up script.\<close>

definition reversible :: "'d script \<Rightarrow> migration \<Rightarrow> bool" where
  "reversible sql m \<longleftrightarrow> trim_space (mg_down m) \<noteq> []
     \<and> (\<forall>t t' s s'. sql (mg_up m) t s = Inr s' \<longrightarrow> sql (mg_down m) t' s' = Inr s)"

lemma downgraded_upgraded:
  assumes "upgraded x sql t m d = Some d'" "reversible sql m" "mg_version m \<notin> recorded d"
  shows "downgraded sql t' m d' = Some d"
  using assms
  by (cases d) (auto simp: upgraded_def downgraded_def reversible_def recorded_def delete_where_def
      filter_id_conv image_iff split: sum.splits option.splits, metis)

lemma revert_undoes:
  assumes "upgraded_all x sql t ms d = Some (db w)" "outcomes w = []" "md_versions d \<noteq> None"
    and "distinct (map mg_version ms)"
    and "\<forall>m \<in> set ms. reversible sql m \<and> look (mg_version m) = Some m \<and> mg_version m \<notin> recorded d"
  shows "\<exists>w2. revert_rows sql look (map (version_row x t) (rev ms)) acc w = ((None, acc @ map mg_version (rev ms)), w2)
    \<and> db w2 = d"
  using assms
proof (induction ms arbitrary: w acc rule: rev_induct)
  case (snoc m ms)
  from snoc.prems(1) obtain d1 where d1: "upgraded_all x sql t ms d = Some d1" "upgraded x sql t m d1 = Some (db w)"
    by (auto simp: upgraded_all_append split: option.splits)
  obtain vs where vs: "md_versions d = Some vs" using snoc.prems(3) by auto
  have "recorded d1 = recorded d \<union> mg_version ` set ms"
    using upgraded_all_versions [OF d1(1) vs] vs by (simp add: recorded_def image_Un image_image)
  then have fresh: "mg_version m \<notin> recorded d1" using snoc.prems(4,5) by auto
  let ?w1 = "log_app (migration_line ''reverted migration'' m) (w\<lparr>db := d1\<rparr>)"
  have "applyDown sql m w = (Inr (), w\<lparr>db := d1\<rparr>)"
    by (rule applyDown_quiet [OF snoc.prems(2) downgraded_upgraded [OF d1(2) _ fresh]]) (use snoc.prems(5) in simp)
  moreover from snoc.IH [of ?w1 "acc @ [mg_version m]"] d1(1) snoc.prems obtain w2 where
    "revert_rows sql look (map (version_row x t) (rev ms)) (acc @ [mg_version m]) ?w1
      = ((None, (acc @ [mg_version m]) @ map mg_version (rev ms)), w2)" "db w2 = d" by auto
  ultimately show ?case using snoc.prems(5) by (simp add: reversible_def)
qed simp


lemma by_version_lookup:
  assumes "distinct (map mg_version ms)" "m \<in> set ms"
  shows "by_version ms (mg_version m) = Some m"
  unfolding by_version_def
  by (rule map_of_is_SomeI) (use assms in \<open>auto simp: rev_map [symmetric] distinct_map comp_def intro: rev_image_eqI\<close>)

lemma sort_key_newest:
  assumes "sorted (map f ys)" "\<forall>x \<in> set xs. \<forall>y \<in> set ys. f x \<le> f y"
  shows "sort_key f (xs @ ys) = sort_key f xs @ ys"
proof -
  have "sort_key f (xs @ ys) = foldr (insort_key f) xs (sort_key f ys)" by (simp add: sort_key_def)
  also have "sort_key f ys = ys" by (rule sort_key_id_if_sorted [OF assms(1)])
  finally have 1: "sort_key f (xs @ ys) = foldr (insort_key f) xs ys" .
  have "foldr (insort_key f) xs ys = foldr (insort_key f) xs [] @ ys" using assms(2)
  proof (induction xs)
    case (Cons x xs)
    have "insort_key f x (zs @ ys) = insort_key f x zs @ ys" for zs
      by (induction zs) (use Cons.prems in \<open>auto intro!: insort_is_Cons\<close>)
    with Cons show ?case by simp
  qed simp
  with 1 show ?thesis by (simp add: sort_key_def)
qed

lemma quiet_start:
  assumes "outcomes w = []" "md_versions (db w) = Some vs"
  shows "locked body w = (case body w of (r, w2) \<Rightarrow> (r, unlock w2))"
    "ensureVersionTable w = (Inr (), w)" "Applied w = (Inr (sort_key am_version vs), w)"
  using assms
  by (simp_all add: locked_def lock_def ensureVersionTable_def Applied_def wrapping_def execute_quiet no_effect_def
      select_versions_def ensured_def)

text \<open>C19: rolling back as many migrations as an upward run applied reverts exactly those, newest first, and
  leaves the schema and the version table as they were, when each down script undoes its up script
  and the migrations were newer than those recorded before.\<close>

theorem down_undoes_up:
  assumes load: "load x files = Inr ms" and quiet: "outcomes w = []"
    and up: "Up x sql files w = ((None, run), w1)" "run \<noteq> []"
    and scripts: "\<forall>m \<in> set (todo ms (db w)). reversible sql m"
    and newest: "\<forall>m \<in> set (todo ms (db w)). \<forall>v \<in> recorded (db w). v \<le> mg_version m"
  shows "\<exists>w2. Down x sql files (int (length run)) w1 = ((None, rev run), w2) \<and> db w2 = ensured (db w)"
proof -
  let ?T = "todo ms (db w)"
  have w1: "outcomes w1 = []" "run = map mg_version ?T"
      "upgraded_all x sql (db_now w) ?T (ensured (db w)) = Some (db w1)"
    using Up_effect [OF load up(1)] quiet
    by (auto simp: partial_upgrade_def same_process_def acknowledged_def)
  obtain vs where vs: "md_versions (ensured (db w)) = Some vs" by (cases "md_versions (ensured (db w))") auto
  have all: "md_versions (db w1) = Some (vs @ map (version_row x (db_now w)) ?T)"
    by (rule upgraded_all_versions [OF w1(3) vs])
  have asc: "sorted_wrt (<) (map mg_version ?T)"
    using load_ascending [OF load] by (simp add: todo_def sorted_wrt_map sorted_wrt_filter)
  have rec: "recorded (db w) = am_version ` set vs"
    using vs ensured_simps(1) [of "db w"] by (simp add: recorded_def)
  have sorted: "sort_key am_version (vs @ map (version_row x (db_now w)) ?T)
      = sort_key am_version vs @ map (version_row x (db_now w)) ?T"
    by (rule sort_key_newest) (use asc newest rec in \<open>auto simp: comp_def strict_sorted_iff\<close>)
  have "distinct (map mg_version ms)" using load_ascending [OF load] by (simp add: strict_sorted_iff)
  then have "\<forall>m \<in> set ?T. reversible sql m \<and> by_version ms (mg_version m) = Some m \<and> mg_version m \<notin> recorded (ensured (db w))"
    using scripts by (auto simp: todo_def by_version_lookup)
  moreover have "distinct (map mg_version ?T)" using asc by (simp add: strict_sorted_iff)
  ultimately obtain w2 where "revert_rows sql (by_version ms) (map (version_row x (db_now w)) (rev ?T)) [] w1
      = ((None, [] @ map mg_version (rev ?T)), w2)" "db w2 = ensured (db w)"
    using revert_undoes [OF w1(3,1) ensured_simps(4)] by blast
  moreover have "0 < length run" using up(2) by simp
  moreover have "sort_key am_version (sort_key am_version vs @ map (version_row x (db_now w)) ?T)
      = sort_key am_version vs @ map (version_row x (db_now w)) ?T"
    by (subst sorted [symmetric])+ (rule sort_key_id_if_sorted, simp)
  ultimately show ?thesis
    using all sorted w1(1,2) quiet_start [OF w1(1) all]
    by (simp add: Down_def load rev_map)
qed

lemma matches_record_upgraded:
  assumes "upgraded_all x sql t ms d = Some d'" "md_versions d \<noteq> None" "matches_record x d m \<or> m \<in> set ms"
  shows "matches_record x d' m"
proof -
  obtain vs where vs: "md_versions d = Some vs" using assms(2) by auto
  note all = upgraded_all_versions [OF assms(1) vs]
  from assms(3) show ?thesis
  proof
    assume "m \<in> set ms"
    then have "version_row x t m \<in> set (vs @ map (version_row x t) ms)" by simp
    with all show ?thesis unfolding matches_record_def by (metis version_row_simps)
  qed (use vs all in \<open>auto simp: matches_record_def\<close>)
qed

text \<open>C18: whatever fails and whenever, an upward run leaves either the database it found or one with a
  whole number of the pending migrations applied, in ascending order from the first, each with its
  row; it reports those done, up to one whose commit went unanswered; and a run without an error
  has applied all of them and every file agrees with its recorded checksum.\<close>

theorem migrations_apply_whole_and_in_order:
  assumes load: "load x files = Inr ms" and up: "Up x sql files w = ((err, run), w')"
  shows "sorted_wrt (<) (map mg_version ms)
    \<and> (db w' = db w \<and> run = [] \<or>
        (\<exists>j k. j \<le> k \<and> k \<le> Suc j \<and> k \<le> length (todo ms (db w))
           \<and> run = map mg_version (take j (todo ms (db w)))
           \<and> upgraded_all x sql (db_now w) (take k (todo ms (db w))) (ensured (db w)) = Some (db w')
           \<and> (acknowledged w \<longrightarrow> k = j)))
    \<and> (err = None \<longrightarrow> run = map mg_version (todo ms (db w))
        \<and> upgraded_all x sql (db_now w) (todo ms (db w)) (ensured (db w)) = Some (db w')
        \<and> (\<forall>m \<in> set ms. matches_record x (db w') m))"
proof -
  let ?T = "todo ms (db w)"
  from conjunct2 [OF Up_effect [OF load up]] show ?thesis
  proof
    assume "db w' = db w \<and> run = [] \<and> err \<noteq> None"
    with load_ascending [OF load] show ?thesis by auto
  next
    assume fx: "partial_upgrade x sql (db_now w) (acknowledged w) ?T (db w) err run (db w')
      \<and> (err = None \<longrightarrow> (\<forall>m \<in> set ms. mg_version m \<in> recorded (db w) \<longrightarrow> matches_record x (ensured (db w)) m))"
    then obtain j k where jk: "j \<le> k" "k \<le> Suc j" "k \<le> length ?T" "run = map mg_version (take j ?T)"
        "upgraded_all x sql (db_now w) (take k ?T) (ensured (db w)) = Some (db w')"
        "acknowledged w \<longrightarrow> k = j" "err = None \<longrightarrow> j = length ?T"
      unfolding partial_upgrade_def by blast
    have "matches_record x (db w') m" if "m \<in> set ms" "err = None" for m
      using jk(1,3,5,7) that fx by (intro matches_record_upgraded [OF jk(5)]) (auto simp: todo_def)
    moreover have "take k ?T = ?T" "take j ?T = ?T" if "err = None" using jk(1,3,7) that by simp_all
    ultimately have "err = None \<longrightarrow> run = map mg_version ?T
        \<and> upgraded_all x sql (db_now w) ?T (ensured (db w)) = Some (db w') \<and> (\<forall>m \<in> set ms. matches_record x (db w') m)"
      using jk(4,5) by metis
    with load_ascending [OF load] jk(1-6) show ?thesis by blast
  qed
qed

text \<open>\<open>status\<close> reads the version table before anything has created it.\<close>

lemma status_needs_the_table:
  assumes "outcomes w = []" "md_versions (db w) = None"
  shows "migrate_command x sql files [''status''] w = (Inl (Wrapf ''read schema_migrations'' [undefined_table]), w)"
  using assms
  by (simp add: migrate_command_def printStatus_def Applied_def wrapping_def execute_quiet select_versions_def)

section \<open>Witnesses\<close>

text \<open>A schema is a list of names; a script adds or drops one.\<close>

definition sample_script :: "string list script" where
  "sample_script s t d =
    (if take 1 s = ''+'' then Inr (d @ [drop 1 s])
     else if d \<noteq> [] \<and> last d = drop 1 s then Inr (butlast d)
     else Inl (PgError ''42P01'' []))"

definition sample_files :: "dir_entry list" where
  "sample_files = [\<lparr>de_name = ''0001_init.down.sql'', de_dir = False, de_body = Inr ''-init''\<rparr>,
     \<lparr>de_name = ''0001_init.up.sql'', de_dir = False, de_body = Inr ''+init''\<rparr>,
     \<lparr>de_name = ''embed.go'', de_dir = False, de_body = Inr ''package migrations''\<rparr>]"

definition init_migration :: migration where
  "init_migration = \<lparr>mg_version = 1, mg_name = ''init'', mg_up = ''+init'', mg_down = ''-init''\<rparr>"

definition fresh_database :: "outcome list \<Rightarrow> string list migrated machine" where
  "fresh_database qs = \<lparr>db = \<lparr>md_schema = [], md_versions = None\<rparr>, outcomes = qs, db_now = 0, clock = 0,
     uuid_stream = (\<lambda>n. 0), uuid_next = 0, entropy = (\<lambda>n. CHR ''a''), entropy_next = 0, bus_log = [], app_log = [], bcrypt_runs = 0\<rparr>"

lemma sample_names:
  "migrationFilePattern ''0001_init.up.sql'' = Some (''0001'', ''init'', ''up'')"
  "migrationFilePattern ''0001_init.down.sql'' = Some (''0001'', ''init'', ''down'')"
  "migrationFilePattern ''embed.go'' = None" "atoi ''0001'' = Some 1"
  by code_simp+

lemma sample_loads: "load x (Inr sample_files) = Inr [init_migration]"
  by (simp add: load_def sample_files_def sample_names has_suffix_def init_migration_def set_script_def
      trim_space_def trim_both_def is_space_def)

text \<open>The commit of the first migration goes unanswered: it is in place, and not reported.\<close>

theorem migrations_apply_whole_and_in_order_witness:
  "\<exists>err run w. Up sample_library sample_script (Inr sample_files)
      (fresh_database [Done, Done, Done, Done, Done, Done, Done, Unacknowledged DeadlinePassed]) = ((err, run), w)
    \<and> sorted_wrt (<) (map mg_version [init_migration]) \<and> (err = None \<longrightarrow> run = [1])"
proof -
  let ?w = "fresh_database [Done, Done, Done, Done, Done, Done, Done, Unacknowledged DeadlinePassed]"
  obtain err run w where u: "Up sample_library sample_script (Inr sample_files) ?w = ((err, run), w)"
    by (metis prod.exhaust)
  have "todo [init_migration] (db ?w) = [init_migration]"
    by (simp add: todo_def fresh_database_def recorded_def)
  with migrations_apply_whole_and_in_order [OF sample_loads u] u show ?thesis
    by (auto simp: init_migration_def)
qed

lemma sample_migrates:
  "\<exists>w. Up sample_library sample_script (Inr sample_files) (fresh_database []) = ((None, [1]), w)"
  by (simp add: Up_def sample_loads locked_def lock_def wrapping_def execute_quiet no_effect_def fresh_database_def
      ensureVersionTable_def appliedByVersion_def Applied_def select_versions_def ensured_def applyUp_def InTx_def
      begin_tx_def round_trip_no_outcomes run_script_def sample_script_def insert_version_def init_migration_def)

theorem down_undoes_up_witness:
  "\<exists>w w2. Up sample_library sample_script (Inr sample_files) (fresh_database []) = ((None, [1]), w)
    \<and> Down sample_library sample_script (Inr sample_files) 1 w = ((None, [1]), w2) \<and> md_schema (db w2) = []"
proof -
  obtain w where u: "Up sample_library sample_script (Inr sample_files) (fresh_database []) = ((None, [1]), w)"
    using sample_migrates by blast
  have t: "todo [init_migration] (db (fresh_database [])) = [init_migration]"
    by (simp add: todo_def fresh_database_def recorded_def)
  have r: "reversible sample_script init_migration"
    by (simp add: reversible_def init_migration_def sample_script_def trim_space_def trim_both_def is_space_def)
  have "\<exists>w2. Down sample_library sample_script (Inr sample_files) (int (length [1::int])) w = ((None, rev [1]), w2)
      \<and> db w2 = ensured (db (fresh_database []))"
    by (rule down_undoes_up [OF sample_loads _ u]) (simp_all add: t r, simp_all add: fresh_database_def recorded_def)
  with u show ?thesis by (auto simp: fresh_database_def)
qed

end
