(* ===== verification/Startup.thy ===== *)
theory Startup
  imports Server Migrate
begin

text \<open>
  The \<open>main\<close> of \<open>cmd/migrate\<close>: its arguments, its configuration and its pool around the commands of
  theory Migrate. The database a pool leads to is the one the command runs on. Lemmas: the pool is
  closed whatever the command does, and nothing is run without one.
\<close>

definition usage :: string where
  "usage = text_lines
    [''migrate '' @ [CHR 0xE2, CHR 0x80, CHR 0x94] @ '' apply database migrations'',
     [],
     ''Usage:'',
     ''  migrate up              apply all pending migrations'',
     ''  migrate down [n]        revert the newest n migrations (default 1)'',
     ''  migrate status          show applied and pending migrations'',
     [],
     ''Configuration is read from the environment; DATABASE_URL and JWT_SECRET are'',
     ''required (JWT_SECRET only because configuration is validated as a whole).'']"

text \<open>What is written to the standard error stream before the result; an unknown command is only noticed
  once the database is connected.\<close>

definition usage_shown :: "bool \<Rightarrow> string list \<Rightarrow> string" where
  "usage_shown online args = (case args of [] \<Rightarrow> usage
     | cmd # _ \<Rightarrow> if online \<and> cmd \<notin> {''up'', ''down'', ''status''} then usage else [])"

definition migrate_run :: "ext \<Rightarrow> env \<Rightarrow> 'p pg_driver \<Rightarrow> 'd script \<Rightarrow> gerr + dir_entry list \<Rightarrow> string list
    \<Rightarrow> 'd migrated machine \<Rightarrow> (gerr + report) \<times> 'p list \<times> 'd migrated machine" where
  "migrate_run x env driver sql files args w =
    (if args = [] then (Inl (LibError ''a command is required''), [], w)
     else (case Load x env of (cfg, errs) \<Rightarrow>
      (case errors_join errs of
         Some e \<Rightarrow> (Inl (Wrapf ''load configuration'' [e]), [], w)
       | None \<Rightarrow>
          (case Connect driver (cf_db cfg) of
             (Inl e, released) \<Rightarrow> (Inl (Wrapf ''connect to database'' [e]), released, w)
           | (Inr p, released) \<Rightarrow>
              (case migrate_command x sql files args w of (r, w1) \<Rightarrow> (r, released @ [p], w1))))))"

definition migrate_exit :: "gerr + report \<Rightarrow> int" where
  "migrate_exit r = (case r of Inl _ \<Rightarrow> 1 | Inr _ \<Rightarrow> 0)"

lemma migrate_run_closes_its_pool:
  assumes "migrate_run x env d sql files args w = (r, released, w')" and "args \<noteq> []"
  shows "released = (if snd (Load x env) = [] then case opened d (cf_db (fst (Load x env))) of None \<Rightarrow> [] | Some p \<Rightarrow> [p] else [])"
proof -
  obtain cfg errs where l: "Load x env = (cfg, errs)" by fastforce
  obtain c rel where c: "Connect d (cf_db cfg) = (c, rel)" by fastforce
  show ?thesis
  proof (cases c)
    case (Inl e)
    with assms l c Connect_error [of d "cf_db cfg" e rel] show ?thesis
      by (auto simp: migrate_run_def errors_join_def split: if_splits option.splits prod.splits)
  next
    case (Inr p)
    with assms l c Connect_ok(1,2) [of d "cf_db cfg" p rel] show ?thesis
      by (auto simp: migrate_run_def errors_join_def split: if_splits prod.splits)
  qed
qed

lemma unconnected_runs_nothing:
  assumes "migrate_run x env d sql files args w = (r, [], w')"
  shows "w' = w" "migrate_exit r = 1"
  using assms by (auto simp: migrate_run_def migrate_exit_def split: prod.splits option.splits sum.splits if_splits)

end
