(* ===== verification/Concurrency.thy ===== *)
theory Concurrency
  imports Ownership Privileges
begin

text \<open>
  Requests that run at the same time. The HTTP server serves each request in a goroutine of its own and
  the processes share nothing but the database, so requests interleave at their repository calls, each
  one SQL statement or one transaction (\<open>repo_call\<close>, one rule per method of the three repositories that
  the program calls); a \<open>schedule\<close> is any sequence of such calls, by anybody. PostgreSQL is taken to run
  the calls one after the other, in any order; where that fails is in theory Isolation. Lemmas: no schedule breaks a table, loses a row
  or revives a session, so what a request has read of ids, owners and revocations stays true while
  others run; and a refresh token is rotated at most once in any schedule.
\<close>

section \<open>Repository calls\<close>

text \<open>A successful rotation is told apart from the other calls; a failed one may still have taken place.\<close>

datatype call_kind = Rotation string | Other_call

inductive repo_call :: "ext \<Rightarrow> call_kind \<Rightarrow> database \<Rightarrow> database \<Rightarrow> bool" for x where
  call_read: "repo_call x Other_call d d"
| call_user_Create: "user_Create x u v = (ru, v') \<Longrightarrow> role u = RoleUser \<Longrightarrow> repo_call x Other_call (db v) (db v')"
| call_UpdateProfile: "user_UpdateProfile x i n v = (ru, v') \<Longrightarrow> repo_call x Other_call (db v) (db v')"
| call_session_Create: "session_Create s v = (rs, v') \<Longrightarrow> repo_call x Other_call (db v) (db v')"
| call_Rotate_ok: "session_Rotate h s v = (Inr s', v') \<Longrightarrow> repo_call x (Rotation h) (db v) (db v')"
| call_Rotate_failed: "session_Rotate h s v = (Inl e, v') \<Longrightarrow> repo_call x Other_call (db v) (db v')"
| call_Revoke: "session_Revoke h v = (r0, v') \<Longrightarrow> repo_call x Other_call (db v) (db v')"
| call_RevokeAll: "session_RevokeAllForUser i v = (rn, v') \<Longrightarrow> repo_call x Other_call (db v) (db v')"
| call_post_Create: "post_Create p v = (rp, v') \<Longrightarrow> repo_call x Other_call (db v) (db v')"
| call_post_Update: "post_Update i ch v = (rp, v') \<Longrightarrow> repo_call x Other_call (db v) (db v')"
| call_post_Delete: "post_Delete i v = (r0, v') \<Longrightarrow> repo_call x Other_call (db v) (db v')"
| call_comment_Create: "comment_Create c v = (rc, v') \<Longrightarrow> repo_call x Other_call (db v) (db v')"
| call_comment_Update: "comment_Update i txt v = (rc, v') \<Longrightarrow> repo_call x Other_call (db v) (db v')"
| call_comment_Delete: "comment_Delete i q v = (r0, v') \<Longrightarrow> \<forall>c \<in> set (comments (db v)). cr_id c = i \<longrightarrow> cr_post c = q
    \<Longrightarrow> repo_call x Other_call (db v) (db v')"

inductive_cases repo_callE: "repo_call x k d d'"
inductive_cases RotationE: "repo_call x (Rotation h) d d'"

section \<open>What every call keeps\<close>

lemma delete_of_gone_comment:
  assumes "comment_Delete i q w = (r, w')" "\<forall>c \<in> set (comments (db w)). cr_id c = i \<longrightarrow> \<not> comment_live c"
  shows "db w' = db w"
proof -
  have gone: False if "comment_delete_body i q v = (Inr u, v')" "db v = db w" for u v v'
  proof -
    have "thread_of (comments (db w)) i = []" using assms(2) by (simp add: thread_of_def filter_empty_conv)
    then have zero: "n = 0" if "soft_delete_thread i t (db w) = Inr (n, d)" for t n d
      using that by (auto simp: soft_delete_thread_def count_where_def)
    with that show False
      by (auto simp: comment_delete_body_def split: prod.splits sum.splits if_splits dest!: execute_ok dest: zero)
  qed
  from assms(1) [unfolded comment_Delete_def] show ?thesis
    by (cases rule: InTx_cases) (use gone in auto)
qed

lemma comment_Delete_keeps_blog:
  assumes "comment_Delete i q w = (r, w')" "\<forall>c \<in> set (comments (db w)). cr_id c = i \<longrightarrow> cr_post c = q" "blog_wf (db w)"
  shows "blog_wf (db w')"
proof (cases "live_comment w i")
  case None
  have "distinct (map cr_id (comments (db w)))" using assms(3) by (simp add: blog_wf_def comments_wf_def)
  from live_comment_row [OF this] None have "\<forall>c \<in> set (comments (db w)). cr_id c = i \<longrightarrow> \<not> comment_live c" by fastforce
  from delete_of_gone_comment [OF assms(1) this] assms(3) show ?thesis by simp
next
  case (Some c)
  then have "cmt_post c = q" using assms(2) by (auto elim: in_thread_row_live)
  from comment_rows.delete_inv [unfolded comment_repository_simps, OF assms(1,3) Some this] show ?thesis .
qed

lemmas sessions_inv = sessions.create_inv [unfolded session_repository_simps] sessions.rotate_inv [unfolded session_repository_simps]
  sessions.revoke_inv [unfolded session_repository_simps] sessions.revoke_all_inv [unfolded session_repository_simps]

lemmas blog_inv = post_rows.create_inv [unfolded post_repository_simps] post_rows.update_inv [unfolded post_repository_simps]
  post_rows.delete_inv [unfolded post_repository_simps] comment_rows.create_inv [unfolded comment_repository_simps]
  comment_rows.update_inv [unfolded comment_repository_simps]

lemma accounts_leave_sessions:
  "user_Create x u w = (r, w') \<Longrightarrow> tokens (db w') = tokens (db w)"
  "user_UpdateProfile x i n w = (r, w') \<Longrightarrow> tokens (db w') = tokens (db w)"
proof -
  assume "user_Create x u w = (r, w')"
  then obtain r1 where "execute (insert_user x u) w = (r1, w')" by (auto dest: user_Create_execute)
  then show "tokens (db w') = tokens (db w)"
    by (rule execute_invariant [where I = "\<lambda>d. tokens d = tokens (db w)"]) (auto dest: insert_user_Inr(2))
next
  assume "user_UpdateProfile x i n w = (r, w')"
  then obtain r1 where "execute (update_display_name x i n) w = (r1, w')" by (auto dest: user_UpdateProfile_execute)
  then show "tokens (db w') = tokens (db w)"
    by (rule execute_invariant [where I = "\<lambda>d. tokens d = tokens (db w)"]) (auto elim: update_display_name_Inr)
qed

lemma tables_beside:
  "beside d d' \<Longrightarrow> (tokens_wf (tokens d) \<Longrightarrow> tokens_wf (tokens d')) \<Longrightarrow> tables_wf d \<Longrightarrow> tables_wf d'"
  using blog_wf_beside [of d d'] by (simp add: tables_wf_def beside_def)

lemma tables_blog:
  "same_accounts d d' \<Longrightarrow> (blog_wf d \<Longrightarrow> blog_wf d') \<Longrightarrow> tables_wf d \<Longrightarrow> tables_wf d'"
  by (simp add: tables_wf_def same_accounts_def sessions_owned_def)

lemma calls_keep_tables:
  "user_Create x u v = (ru, v') \<Longrightarrow> tables_wf (db v) \<Longrightarrow> tables_wf (db v')"
  "user_UpdateProfile x i n v = (ru, v') \<Longrightarrow> tables_wf (db v) \<Longrightarrow> tables_wf (db v')"
  "session_Create s v = (rs, v') \<Longrightarrow> tables_wf (db v) \<Longrightarrow> tables_wf (db v')"
  "session_Rotate h s v = (rs, v') \<Longrightarrow> tables_wf (db v) \<Longrightarrow> tables_wf (db v')"
  "session_Revoke h v = (r0, v') \<Longrightarrow> tables_wf (db v) \<Longrightarrow> tables_wf (db v')"
  "session_RevokeAllForUser i v = (rn, v') \<Longrightarrow> tables_wf (db v) \<Longrightarrow> tables_wf (db v')"
  "post_Create p v = (rp, v') \<Longrightarrow> tables_wf (db v) \<Longrightarrow> tables_wf (db v')"
  "post_Update i ch v = (rp, v') \<Longrightarrow> tables_wf (db v) \<Longrightarrow> tables_wf (db v')"
  "post_Delete i v = (r0, v') \<Longrightarrow> tables_wf (db v) \<Longrightarrow> tables_wf (db v')"
  "comment_Create c v = (rc, v') \<Longrightarrow> tables_wf (db v) \<Longrightarrow> tables_wf (db v')"
  "comment_Update i txt v = (rc, v') \<Longrightarrow> tables_wf (db v) \<Longrightarrow> tables_wf (db v')"
proof -
  note account = tables_beside [OF account_methods_beside(1)] tables_beside [OF account_methods_beside(2)]
    tables_beside [OF account_methods_beside(3)] tables_beside [OF account_methods_beside(7)]
    tables_beside [OF account_methods_beside(4)] tables_beside [OF account_methods_beside(5)]
  note blog = tables_blog [OF blog_writes_same_accounts(1)] tables_blog [OF blog_writes_same_accounts(2)]
    tables_blog [OF blog_writes_same_accounts(3)] tables_blog [OF blog_writes_same_accounts(4)] tables_blog [OF blog_writes_same_accounts(5)]
  show "tables_wf (db v')" if "user_Create x u v = (ru, v')" "tables_wf (db v)"
    using accounts_leave_sessions(1) [OF that(1)] by (intro account(1) [OF that(1) _ that(2)]) simp
  show "tables_wf (db v')" if "user_UpdateProfile x i n v = (ru, v')" "tables_wf (db v)"
    using accounts_leave_sessions(2) [OF that(1)] by (intro account(2) [OF that(1) _ that(2)]) simp
  show "tables_wf (db v')" if "session_Create s v = (rs, v')" "tables_wf (db v)"
    by (rule account(3) [OF that(1) sessions_inv(1) [OF that(1)] that(2)])
  show "tables_wf (db v')" if "session_Rotate h s v = (rs, v')" "tables_wf (db v)"
    by (rule account(4) [OF that(1) sessions_inv(2) [OF that(1)] that(2)])
  show "tables_wf (db v')" if "session_Revoke h v = (r0, v')" "tables_wf (db v)"
    by (rule account(5) [OF that(1) sessions_inv(3) [OF that(1)] that(2)])
  show "tables_wf (db v')" if "session_RevokeAllForUser i v = (rn, v')" "tables_wf (db v)"
    by (rule account(6) [OF that(1) sessions_inv(4) [OF that(1)] that(2)])
  show "tables_wf (db v')" if "post_Create p v = (rp, v')" "tables_wf (db v)"
    by (rule blog(1) [OF that(1) blog_inv(1) [OF that(1)] that(2)])
  show "tables_wf (db v')" if "post_Update i ch v = (rp, v')" "tables_wf (db v)"
    by (rule blog(2) [OF that(1) blog_inv(2) [OF that(1)] that(2)])
  show "tables_wf (db v')" if "post_Delete i v = (r0, v')" "tables_wf (db v)"
    by (rule blog(3) [OF that(1) blog_inv(3) [OF that(1)] that(2)])
  show "tables_wf (db v')" if "comment_Create c v = (rc, v')" "tables_wf (db v)"
    by (rule blog(4) [OF that(1) blog_inv(4) [OF that(1)] that(2)])
  show "tables_wf (db v')" if "comment_Update i txt v = (rc, v')" "tables_wf (db v)"
    by (rule blog(5) [OF that(1) blog_inv(5) [OF that(1)] that(2)])
qed

lemma call_tables: "repo_call x k d d' \<Longrightarrow> tables_wf d \<Longrightarrow> tables_wf d'"
proof (induction rule: repo_call.induct)
  case (call_comment_Delete i q v r0 v')
  from tables_blog [OF blog_writes_same_accounts(6) [OF call_comment_Delete(1)] _ call_comment_Delete(3)]
    comment_Delete_keeps_blog [OF call_comment_Delete(1,2)]
  show ?case by blast
qed (auto dest: calls_keep_tables)

text \<open>Rows, and the revocation of a session, are for ever.\<close>

lemma call_grows: "repo_call x k d d' \<Longrightarrow> grows d d'"
proof (induction rule: repo_call.induct)
qed (auto simp: removes_def beside_def intro: grows_same dest!: account_methods_beside methods_remove)

lemma call_sessions: "repo_call x k d d' \<Longrightarrow> tokens_wf (tokens d) \<Longrightarrow> kept_from d d'"
proof (induction rule: repo_call.induct)
qed (auto simp: kept_from_lookup same_accounts_def lookup_session_def [abs_def] dest!: blog_writes_same_accounts accounts_leave_sessions
    dest: sessions.create_keeps [unfolded session_repository_simps] sessions.rotate_keeps [unfolded session_repository_simps]
      sessions.revoke_keeps [unfolded session_repository_simps] sessions.revoke_all_keeps [unfolded session_repository_simps])

text \<open>A rotation needs its session unrevoked and leaves it revoked.\<close>

definition revoked :: "string \<Rightarrow> database \<Rightarrow> bool" where
  "revoked h d \<longleftrightarrow> (\<exists>r. first_row (\<lambda>r. rt_hash r = h) (tokens d) = Some r \<and> rt_revoked r \<noteq> None)"

lemma revoked_lookup: "revoked h (db w) \<longleftrightarrow> (\<exists>s. lookup_session w h = Some s \<and> se_revoked s \<noteq> None)"
  by (auto simp: revoked_def lookup_session_def scanSession_def)

lemma Rotation_revokes:
  assumes "repo_call x (Rotation h) d d'" "tokens_wf (tokens d)"
  shows "\<not> revoked h d \<and> revoked h d'"
  using assms(1)
proof (rule RotationE)
  fix s v s' v' assume d: "d = db v" "d' = db v'" and "session_Rotate h s v = (Inr s', v')"
  then obtain w0 w2 where body: "rotate_body h s w0 = (Inr s', w2)" "db w0 = d" "d' = db w2"
    unfolding session_Rotate_body by (auto elim: InTx_cases)
  then obtain w1 k where i: "execute (insert_token s) w0 = (Inr s', w1)"
      and u: "execute (revoke_replaced h (se_id s)) w1 = (Inr k, w2)" and k: "0 < k"
    by (auto simp: rotate_body_def split: sum.splits prod.splits if_splits)
  let ?t = "db_now w1" and ?f = "\<lambda>r. r\<lparr>rt_revoked := Some (db_now w1), rt_replaced := Some (se_id s)\<rparr>"
  have wf1: "tokens_wf (tokens (db w1))" using insert_token_wf [OF execute_ok [OF i]] assms(2) body(2) by simp
  have old: "set (tokens d) \<subseteq> set (tokens (db w1))" using insert_token_Inr(2) [OF execute_ok [OF i]] body(2) by auto
  from execute_ok [OF u, symmetric] have n: "k = count_where (rotatable h ?t) (tokens (db w1))"
      and new: "tokens d' = update_where (rotatable h ?t) ?f (tokens (db w1))"
    by (simp_all add: revoke_replaced_def body(3))
  from n k obtain r where r: "r \<in> set (tokens (db w1))" "rotatable h ?t r" by (auto simp: count_where_pos_iff)
  have row: "first_row (\<lambda>q. rt_hash q = h) (tokens (db w1)) = Some r"
    using wf1 r by (intro first_row_key_exists) (auto simp: tokens_wf_def rotatable_def)
  have "\<not> revoked h d"
  proof
    assume "revoked h d"
    then obtain q where q: "q \<in> set (tokens d)" "rt_hash q = h" "rt_revoked q \<noteq> None"
      by (auto simp: revoked_def dest: first_row_Some)
    then have "first_row (\<lambda>q. rt_hash q = h) (tokens (db w1)) = Some q"
      using wf1 old by (intro first_row_key_exists) (auto simp: tokens_wf_def)
    with row q(3) r(2) show False by (simp add: rotatable_def)
  qed
  moreover have "revoked h d'"
    using row r(2) unfolding revoked_def new by (subst first_row_update) (auto simp: rotatable_def)
  ultimately show ?thesis by blast
qed

lemma revoked_kept:
  assumes "kept_from d d'" "revoked h d"
  shows "revoked h d'"
proof -
  from assms(2) obtain r where r: "first_row (\<lambda>r. rt_hash r = h) (tokens d) = Some r" "rt_revoked r \<noteq> None"
    by (auto simp: revoked_def)
  from sessions_kept_Some [OF assms(1) [unfolded kept_from_def], of h "scanSession r"] r
  show ?thesis by (auto simp: revoked_def scanSession_def outlives_def)
qed

section \<open>Schedules\<close>

text \<open>The calls of a schedule in the order the database runs them, with whose they are.\<close>

type_synonym turn = "bool \<times> call_kind \<times> database \<times> database"

inductive schedule :: "ext \<Rightarrow> turn list \<Rightarrow> database \<Rightarrow> database \<Rightarrow> bool" for x where
  over: "schedule x [] d d"
| turn: "repo_call x k d d1 \<Longrightarrow> schedule x ts d1 d2 \<Longrightarrow> schedule x ((own, k, d, d1) # ts) d d2"

inductive_cases scheduleE: "schedule x ts d d'"
inductive_simps schedule_simps [simp]: "schedule x [] d d'" "schedule x (t # ts) d d'"

lemma schedule_append: "schedule x (ts @ us) d d' \<longleftrightarrow> (\<exists>d1. schedule x ts d d1 \<and> schedule x us d1 d')"
  by (induction ts arbitrary: d) auto

lemma schedule_tables: "schedule x ts d d' \<Longrightarrow> tables_wf d \<Longrightarrow> tables_wf d'"
  by (induction rule: schedule.induct) (auto dest: call_tables)

lemma schedule_grows: "schedule x ts d d' \<Longrightarrow> grows d d'"
  by (induction rule: schedule.induct) (auto intro: grows_trans dest: call_grows)

lemma schedule_sessions: "schedule x ts d d' \<Longrightarrow> tables_wf d \<Longrightarrow> kept_from d d'"
proof (induction rule: schedule.induct)
  case (turn k d d1 ts d2 own)
  then have "kept_from d d1" "tables_wf d1" using call_sessions call_tables by (auto simp: tables_wf_def)
  with turn.IH show ?case by (blast intro: kept_from_trans)
qed simp

definition rotations :: "string \<Rightarrow> turn list \<Rightarrow> turn list" where
  "rotations h ts = filter (\<lambda>(own, k, d, d'). k = Rotation h) ts"

lemma no_rotation_when_revoked:
  "schedule x ts d d' \<Longrightarrow> tables_wf d \<Longrightarrow> revoked h d \<Longrightarrow> rotations h ts = []"
proof (induction rule: schedule.induct)
  case (turn k d d1 ts d2 own)
  have t: "tokens_wf (tokens d)" using turn.prems(1) by (simp add: tables_wf_def)
  have "k \<noteq> Rotation h" using Rotation_revokes [OF _ t] turn.hyps(1) turn.prems(2) by blast
  moreover have "tables_wf d1" "revoked h d1"
    using call_tables [OF turn.hyps(1) turn.prems(1)] revoked_kept [OF call_sessions [OF turn.hyps(1) t] turn.prems(2)] by auto
  ultimately show ?case using turn.IH by (simp add: rotations_def)
qed (simp add: rotations_def)

lemma rotated_once: "schedule x ts d d' \<Longrightarrow> tables_wf d \<Longrightarrow> length (rotations h ts) \<le> 1"
proof (induction rule: schedule.induct)
  case (turn k d d1 ts d2 own)
  have wf: "tables_wf d1" using call_tables [OF turn.hyps(1) turn.prems] .
  show ?case
  proof (cases "k = Rotation h")
    case True
    then have "revoked h d1" using Rotation_revokes turn.hyps(1) turn.prems by (auto simp: tables_wf_def)
    with no_rotation_when_revoked [OF turn.hyps(2) wf] True show ?thesis by (simp add: rotations_def)
  next
    case False
    with turn.IH [OF wf] show ?thesis by (simp add: rotations_def)
  qed
qed (simp add: rotations_def)

end
