(* ===== verification/Interleaving.thy ===== *)
theory Interleaving
  imports Concurrency
begin

text \<open>
  The services run while other requests do: before each call of a repository method anything the others
  may have done in the meantime happens (\<open>env\<close>, any function of the world whose effect on the tables is
  a schedule of calls of others). The services are those of the other theories, over stores that let the
  others go first (\<open>shared_users\<close> and its like); an interleaving is free to differ at every call, as \<open>env\<close>
  sees the whole world. Lemmas: what a request does together with the others is a schedule in which its
  own calls are within its actor's rights, although it checks them some calls before it acts; and its
  refresh token is exchanged by it alone.
\<close>

section \<open>Stores shared with other requests\<close>

definition before_each :: "(world \<Rightarrow> world) \<Rightarrow> 'a prog \<Rightarrow> 'a prog" where
  "before_each env m w = m (env w)"

definition shared_users :: "(world \<Rightarrow> world) \<Rightarrow> user_store \<Rightarrow> user_store" where
  "shared_users env st = \<lparr>us_Create = \<lambda>u. before_each env (us_Create st u), us_ByID = \<lambda>i. before_each env (us_ByID st i),
     us_ByEmail = \<lambda>e. before_each env (us_ByEmail st e),
     us_UpdateProfile = \<lambda>i n. before_each env (us_UpdateProfile st i n)\<rparr>"

definition shared_sessions :: "(world \<Rightarrow> world) \<Rightarrow> session_store \<Rightarrow> session_store" where
  "shared_sessions env st = \<lparr>ss_Create = \<lambda>s. before_each env (ss_Create st s), ss_ByHash = \<lambda>h. before_each env (ss_ByHash st h),
     ss_Rotate = \<lambda>h s. before_each env (ss_Rotate st h s), ss_Revoke = \<lambda>h. before_each env (ss_Revoke st h),
     ss_RevokeAllForUser = \<lambda>i. before_each env (ss_RevokeAllForUser st i)\<rparr>"

definition shared_posts :: "(world \<Rightarrow> world) \<Rightarrow> post_store \<Rightarrow> post_store" where
  "shared_posts env st = \<lparr>ps_Create = \<lambda>p. before_each env (ps_Create st p), ps_ByID = \<lambda>i. before_each env (ps_ByID st i),
     ps_AuthorOf = \<lambda>i. before_each env (ps_AuthorOf st i), ps_List = \<lambda>f. before_each env (ps_List st f),
     ps_Update = \<lambda>i u. before_each env (ps_Update st i u), ps_Delete = \<lambda>i. before_each env (ps_Delete st i)\<rparr>"

definition shared_comments :: "(world \<Rightarrow> world) \<Rightarrow> comment_store \<Rightarrow> comment_store" where
  "shared_comments env st = \<lparr>cs_Create = \<lambda>c. before_each env (cs_Create st c), cs_ByID = \<lambda>i. before_each env (cs_ByID st i),
     cs_AuthorAndPostOf = \<lambda>i. before_each env (cs_AuthorAndPostOf st i),
     cs_ListByPost = \<lambda>i pg. before_each env (cs_ListByPost st i pg),
     cs_Update = \<lambda>i s. before_each env (cs_Update st i s), cs_Delete = \<lambda>i q. before_each env (cs_Delete st i q)\<rparr>"

lemma shared_simps [simp]:
  "us_Create (shared_users env us) u w = us_Create us u (env w)" "us_ByID (shared_users env us) i w = us_ByID us i (env w)"
  "us_ByEmail (shared_users env us) e w = us_ByEmail us e (env w)"
  "us_UpdateProfile (shared_users env us) i n w = us_UpdateProfile us i n (env w)"
  "ss_Create (shared_sessions env ss) s w = ss_Create ss s (env w)" "ss_ByHash (shared_sessions env ss) h w = ss_ByHash ss h (env w)"
  "ss_Rotate (shared_sessions env ss) h s w = ss_Rotate ss h s (env w)" "ss_Revoke (shared_sessions env ss) h w = ss_Revoke ss h (env w)"
  "ss_RevokeAllForUser (shared_sessions env ss) i w = ss_RevokeAllForUser ss i (env w)"
  "ps_Create (shared_posts env ps) p w = ps_Create ps p (env w)" "ps_ByID (shared_posts env ps) i w = ps_ByID ps i (env w)"
  "ps_AuthorOf (shared_posts env ps) i w = ps_AuthorOf ps i (env w)"
  "ps_Update (shared_posts env ps) i c w = ps_Update ps i c (env w)" "ps_Delete (shared_posts env ps) i w = ps_Delete ps i (env w)"
  "cs_Create (shared_comments env cs) b w = cs_Create cs b (env w)"
  "cs_AuthorAndPostOf (shared_comments env cs) i w = cs_AuthorAndPostOf cs i (env w)"
  "cs_Update (shared_comments env cs) i n w = cs_Update cs i n (env w)"
  "cs_Delete (shared_comments env cs) i q w = cs_Delete cs i q (env w)"
  by (simp_all add: shared_users_def shared_sessions_def shared_posts_def shared_comments_def before_each_def)

definition rely :: "ext \<Rightarrow> (world \<Rightarrow> world) \<Rightarrow> bool" where
  "rely x env \<longleftrightarrow> (\<forall>w. \<exists>ts. schedule x ts (db w) (db (env w)) \<and> (\<forall>t \<in> set ts. \<not> fst t))"

section \<open>Progress\<close>

definition rightful :: "(uuid \<Rightarrow> bool) \<Rightarrow> (uuid \<Rightarrow> bool) \<Rightarrow> turn \<Rightarrow> bool" where
  "rightful may self t \<longleftrightarrow> (case t of (own, k, d, d') \<Rightarrow> own \<longrightarrow> owners_kept may self d d' \<and> removals may d d')"

definition progress :: "ext \<Rightarrow> (uuid \<Rightarrow> bool) \<Rightarrow> (uuid \<Rightarrow> bool) \<Rightarrow> world \<Rightarrow> world \<Rightarrow> bool" where
  "progress x may self w w' \<longleftrightarrow> (tables_wf (db w) \<longrightarrow>
     (\<exists>ts. schedule x ts (db w) (db w') \<and> (\<forall>t \<in> set ts. rightful may self t)))"

lemma progressE:
  assumes "progress x may self w w'" "tables_wf (db w)"
  obtains ts where "schedule x ts (db w) (db w')" "\<forall>t \<in> set ts. rightful may self t" "tables_wf (db w')" "grows (db w) (db w')"
  using assms schedule_tables schedule_grows unfolding progress_def by blast

lemma progress_same: "db w' = db w \<Longrightarrow> progress x may self w w'"
  unfolding progress_def by (intro impI exI [of _ "[]"]) simp

lemma progress_refl [simp, intro]: "progress x may self w w"
  by (rule progress_same) simp

lemma progress_then:
  assumes "progress x may self w w1" and "tables_wf (db w1) \<Longrightarrow> grows (db w) (db w1) \<Longrightarrow> progress x may self w1 w2"
  shows "progress x may self w w2"
  unfolding progress_def
proof
  assume "tables_wf (db w)"
  with assms(1) obtain ts where ts: "schedule x ts (db w) (db w1)" "\<forall>t \<in> set ts. rightful may self t" "tables_wf (db w1)"
      "grows (db w) (db w1)" by (rule progressE)
  from progressE [OF assms(2) [OF ts(3,4)] ts(3)] obtain us where
      "schedule x us (db w1) (db w2)" "\<forall>t \<in> set us. rightful may self t" .
  with ts show "\<exists>ts. schedule x ts (db w) (db w2) \<and> (\<forall>t \<in> set ts. rightful may self t)"
    by (intro exI [of _ "ts @ us"]) (auto simp: schedule_append)
qed

lemma progress_trans: "progress x may self w w1 \<Longrightarrow> progress x may self w1 w2 \<Longrightarrow> progress x may self w w2"
  by (rule progress_then)

lemma rightful_other: "\<not> fst t \<Longrightarrow> rightful may self t"
  by (cases t) (simp add: rightful_def)

lemma progress_env: "rely x env \<Longrightarrow> progress x may self w (env w)"
  unfolding rely_def progress_def by (blast intro: rightful_other)

text \<open>A call of one's own after the others, and one that touches neither posts nor comments.\<close>

lemma progress_call:
  assumes "rely x env" "repo_call x k (db (env w)) (db w')"
    and "tables_wf (db (env w)) \<Longrightarrow> grows (db w) (db (env w)) \<Longrightarrow> owners_kept may self (db (env w)) (db w') \<and> removals may (db (env w)) (db w')"
  shows "progress x may self w w'"
proof (rule progress_then [OF progress_env [OF assms(1)]])
  assume "tables_wf (db (env w))" "grows (db w) (db (env w))"
  with assms(2,3) show "progress x may self (env w) w'"
    unfolding progress_def by (intro impI exI [of _ "[(True, k, db (env w), db w')]"]) (auto simp: rightful_def intro!: exI [of _ True])
qed

lemma progress_account:
  assumes "rely x env" "repo_call x k (db (env w)) (db w')" "beside (db (env w)) (db w')"
  shows "progress x may self w w'"
  by (rule progress_call [OF assms(1,2)]) (use assms(3) in \<open>simp add: beside_def owners_kept_same removals_same\<close>)

lemma progress_read:
  assumes "rely x env" "db w' = db (env w)"
  shows "progress x may self w w'"
  using progress_env [OF assms(1)] assms(2) by (simp add: progress_def)

section \<open>Account requests\<close>

lemma account_calls_progress:
  assumes "rely x env"
  shows "user_Create x u (env w) = (r1, w') \<Longrightarrow> role u = RoleUser \<Longrightarrow> progress x may self w w'"
    "user_UpdateProfile x i n (env w) = (r1, w') \<Longrightarrow> progress x may self w w'"
    "session_Create s (env w) = (r2, w') \<Longrightarrow> progress x may self w w'"
    "session_Rotate h s (env w) = (r2, w') \<Longrightarrow> progress x may self w w'"
    "session_Revoke h (env w) = (r3, w') \<Longrightarrow> progress x may self w w'"
    "session_RevokeAllForUser i (env w) = (r4, w') \<Longrightarrow> progress x may self w w'"
    "user_ByID i (env w) = (r1, w') \<Longrightarrow> progress x may self w w'"
    "user_ByEmail n (env w) = (r1, w') \<Longrightarrow> progress x may self w w'"
    "session_ByHash h (env w) = (r2, w') \<Longrightarrow> progress x may self w w'"
proof -
  note call = progress_account [OF assms] and read = progress_read [OF assms]
  show "progress x may self w w'" if c: "session_Rotate h s (env w) = (r2, w')"
  proof (cases r2)
    case (Inl e)
    from call [OF call_Rotate_failed account_methods_beside(7)] c Inl show ?thesis by blast
  next
    case (Inr s')
    from call [OF call_Rotate_ok account_methods_beside(7)] c Inr show ?thesis by blast
  qed
qed (auto intro: progress_account [OF assms call_user_Create account_methods_beside(1)]
    progress_account [OF assms call_UpdateProfile account_methods_beside(2)]
    progress_account [OF assms call_session_Create account_methods_beside(3)]
    progress_account [OF assms call_Revoke account_methods_beside(4)]
    progress_account [OF assms call_RevokeAll account_methods_beside(5)]
    progress_read [OF assms] dest: session_ByHash_db accounts.byid_frame [unfolded user_repository_simps]
      accounts.byemail_frame [unfolded user_repository_simps])

lemma local_progress:
  "IssueAccessToken x' ts u rl w = (q1, w') \<Longrightarrow> progress x may self w w'"
  "NewRefreshToken x' ts w = (q2, w') \<Longrightarrow> progress x may self w w'"
  "new_uuid w = (i, w') \<Longrightarrow> progress x may self w w'"
  "Hash x' h p w = (q3, w') \<Longrightarrow> progress x may self w w'"
  "Verify x' dg p w = (q4, w') \<Longrightarrow> progress x may self w w'"
  by (auto intro!: progress_same dest!: IssueAccessToken_frame NewRefreshToken_frame new_uuid_frame Hash_frame Verify_frame)

lemma publish_progress [simp]: "progress x may self w (publish e w') = progress x may self w w'"
  "progress x may self w (BurnComparison x' p w') = progress x may self w w'"
  "progress x may self w (log_app l w') = progress x may self w w'"
  "progress x may self (log_app l w) w' = progress x may self w w'"
  by (simp_all add: progress_def)

definition shared_accounts :: "ext \<Rightarrow> (world \<Rightarrow> world) \<Rightarrow> hasher \<Rightarrow> token_service \<Rightarrow> user_svc" where
  "shared_accounts x env h ts = user_NewService (shared_users env (user_repository x)) (shared_sessions env session_repository) h ts"

lemma shared_accounts_simps [simp]:
  "sv_users (shared_accounts x env h ts) = shared_users env (user_repository x)"
  "sv_sessions (shared_accounts x env h ts) = shared_sessions env session_repository"
  "sv_hasher (shared_accounts x env h ts) = h" "sv_tokens (shared_accounts x env h ts) = ts"
  by (simp_all add: shared_accounts_def user_NewService_def)

lemma issue_progress:
  assumes "rely x env"
  shows "issue x (shared_accounts x env h ts) u ua w = (r, w') \<Longrightarrow> progress x may self w w'"
  by (auto simp: issue_def split: sum.splits prod.splits 
      dest!: local_progress [where x = x and may = may and self = self] account_calls_progress(3) [OF assms, where may = may and self = self]
      intro: progress_trans)

lemma account_requests_progress:
  assumes "rely x env"
  shows "Register x (shared_accounts x env h ts) i w = (r1, w') \<Longrightarrow> progress x may self w w'"
    "Login x (shared_accounts x env h ts) mail password ua w = (r2, w') \<Longrightarrow> progress x may self w w'"
    "Refresh x (shared_accounts x env h ts) tok ua w = (r2, w') \<Longrightarrow> progress x may self w w'"
    "Logout x (shared_accounts x env h ts) tok w = (r3, w') \<Longrightarrow> progress x may self w w'"
    "LogoutAll x (shared_accounts x env h ts) a w = (r4, w') \<Longrightarrow> progress x may self w w'"
    "user_svc_UpdateProfile (shared_accounts x env h ts) a name w = (r1, w') \<Longrightarrow> progress x may self w w'"
  by (auto simp: Register_def Login_def Refresh_def Logout_def LogoutAll_def user_svc_UpdateProfile_def Let_def
      split: sum.splits prod.splits option.splits if_splits
      dest!: local_progress [where x = x and may = may and self = self] issue_progress [OF assms, where may = may and self = self]
        account_calls_progress [OF assms, where may = may and self = self])
    (meson progress_trans)+

section \<open>Blog requests\<close>

text \<open>What a request has read about an owner; true for good, as rows stay and keys are unique.\<close>

definition post_by :: "uuid \<Rightarrow> uuid \<Rightarrow> database \<Rightarrow> bool" where
  "post_by au i d \<longleftrightarrow> (\<exists>q \<in> set (posts d). pr_id q = i \<and> pr_author q = au)"

definition comment_by :: "uuid \<Rightarrow> uuid \<Rightarrow> uuid \<Rightarrow> database \<Rightarrow> bool" where
  "comment_by au po i d \<longleftrightarrow> (\<exists>c \<in> set (comments d). cr_id c = i \<and> cr_author c = au \<and> cr_post c = po)"

lemma by_stable: "post_by au i d \<Longrightarrow> grows d d' \<Longrightarrow> post_by au i d'" "comment_by au po i d \<Longrightarrow> grows d d' \<Longrightarrow> comment_by au po i d'"
  unfolding post_by_def comment_by_def grows_def by metis+

lemma by_unique:
  assumes "tables_wf d"
  shows "post_by au i d \<Longrightarrow> q \<in> set (posts d) \<Longrightarrow> pr_id q = i \<Longrightarrow> pr_author q = au"
    and "comment_by au po i d \<Longrightarrow> c \<in> set (comments d) \<Longrightarrow> cr_id c = i \<Longrightarrow> cr_author c = au \<and> cr_post c = po"
  using grows_keys(1) [OF grows_refl, of d _ q] grows_keys(2) [OF grows_refl, of d _ c] assms
  unfolding post_by_def comment_by_def tables_wf_def by metis+

lemma owners_read:
  "post_AuthorOf i w = (Inr (au, st), w') \<Longrightarrow> post_by au i (db w') \<and> db w' = db w"
  "comment_AuthorAndPostOf i w = (Inr (au, po), w') \<Longrightarrow> comment_by au po i (db w') \<and> db w' = db w"
proof -
  assume "post_AuthorOf i w = (Inr (au, st), w')"
  from owner_reads(1) [OF this] obtain p where p: "live_post w i = Some p" "post_author p = au" "db w' = db w" by blast
  then obtain r where "live_row (db w) i = Some r" "p = plain_post r" by (auto simp: live_post_def)
  with p live_row_Some [of "db w" i r] show "post_by au i (db w') \<and> db w' = db w" by (auto simp: post_by_def)
next
  assume r: "comment_AuthorAndPostOf i w = (Inr (au, po), w')"
  from comment_rows.owner_ok [unfolded comment_repository_simps, OF r] obtain c where
      c: "live_comment w i = Some c" "cmt_author c = au" "cmt_post c = po" by blast
  from c(1) obtain b where "b \<in> set (comments (db w))" "cr_id b = i" "c = plain_comment b" by (rule in_thread_row_live)
  with c have "comment_by au po i (db w)" by (auto simp: comment_by_def)
  with owner_reads(2) [OF r] show "comment_by au po i (db w') \<and> db w' = db w" by auto
qed

text \<open>A write to a row whose owner is known is within the rights of those who may act for the owner.\<close>

lemma progress_write:
  assumes "rely x env" "repo_call x k (db (env w)) (db w')" "kept I J A (db (env w)) (db w')" "removes I T (db (env w)) (db w')"
    and "tables_wf (db (env w)) \<Longrightarrow> grows (db w) (db (env w)) \<Longrightarrow>
      (\<forall>q \<in> set (posts (db (env w))). pr_id q \<in> I \<longrightarrow> may (pr_author q))
      \<and> (\<forall>c \<in> set (comments (db (env w))). cr_id c \<in> J \<longrightarrow> may (cr_author c))
      \<and> (\<forall>i \<in> T. \<exists>b \<in> set (comments (db (env w))). cr_id b = i \<and> may (cr_author b))"
    and "\<forall>a \<in> A. self a"
  shows "progress x may self w w'"
proof (rule progress_call [OF assms(1,2)])
  assume wf: "tables_wf (db (env w))" and g: "grows (db w) (db (env w))"
  note t = assms(5) [OF this]
  have "owners_kept may self (db (env w)) (db w')" by (rule kept_owners [OF assms(3)]) (use t assms(6) in blast)+
  moreover have "removals may (db (env w)) (db w')"
    by (rule removes_removals [OF assms(4)]) (use t wf in \<open>auto simp: tables_wf_def\<close>)
  ultimately show "owners_kept may self (db (env w)) (db w') \<and> removals may (db (env w)) (db w')" by blast
qed

lemma removes_weaken: "removes {} {} d d' \<Longrightarrow> removes I T d d'"
  by (auto simp: removes_def stays_def)

lemma blog_calls_progress:
  assumes "rely x env"
  shows "post_Create p (env w) = (r1, w') \<Longrightarrow> self (post_author p) \<Longrightarrow> progress x may self w w'"
    "post_Update i ch (env w) = (r1, w') \<Longrightarrow> post_by au i (db w) \<Longrightarrow> may au \<Longrightarrow> progress x may self w w'"
    "post_Delete i (env w) = (r2, w') \<Longrightarrow> post_by au i (db w) \<Longrightarrow> may au \<Longrightarrow> progress x may self w w'"
    "comment_Create c (env w) = (r3, w') \<Longrightarrow> self (cmt_author c) \<Longrightarrow> progress x may self w w'"
    "comment_Update i s (env w) = (r3, w') \<Longrightarrow> comment_by au po i (db w) \<Longrightarrow> may au \<Longrightarrow> progress x may self w w'"
    "comment_Delete i po (env w) = (r2, w') \<Longrightarrow> comment_by au po i (db w) \<Longrightarrow> may au \<Longrightarrow> progress x may self w w'"
proof -
  note own = progress_write [OF assms]
  show "progress x may self w w'" if c: "post_Create p (env w) = (r1, w')" "self (post_author p)"
    by (rule own [OF call_post_Create [OF c(1)] methods_kept(1) [OF c(1)] methods_remove(1) [OF c(1)]]) (use c(2) in auto)
  show "progress x may self w w'" if m: "comment_Create c (env w) = (r3, w')" "self (cmt_author c)"
    by (rule own [OF call_comment_Create [OF m(1)] methods_kept(4) [OF m(1)] methods_remove(4) [OF m(1)]]) (use m(2) in auto)
  have post: "\<forall>q \<in> set (posts (db (env w))). pr_id q \<in> {i} \<longrightarrow> may (pr_author q)"
    if "post_by au i (db w)" "may au" "tables_wf (db (env w))" "grows (db w) (db (env w))"
    using by_unique(1) [OF that(3) by_stable(1) [OF that(1,4)]] that(2) by auto
  have comment: "(\<forall>c \<in> set (comments (db (env w))). cr_id c \<in> {i} \<longrightarrow> may (cr_author c))
      \<and> (\<exists>b \<in> set (comments (db (env w))). cr_id b = i \<and> may (cr_author b))"
    if "comment_by au po i (db w)" "may au" "tables_wf (db (env w))" "grows (db w) (db (env w))"
  proof -
    note b = by_stable(2) [OF that(1,4)]
    from b obtain c where c: "c \<in> set (comments (db (env w)))" "cr_id c = i" unfolding comment_by_def by blast
    have may: "may (cr_author c)" if m: "c \<in> set (comments (db (env w)))" "cr_id c = i" for c
      using by_unique(2) [OF \<open>tables_wf (db (env w))\<close> b m] \<open>may au\<close> by simp
    show ?thesis by (intro conjI ballI impI bexI [OF _ c(1)]) (simp_all add: may c)
  qed
  show "progress x may self w w'" if c: "post_Update i ch (env w) = (r1, w')" "post_by au i (db w)" "may au"
    by (rule own [OF call_post_Update [OF c(1)] methods_kept(2) [OF c(1)] removes_weaken [OF methods_remove(2) [OF c(1)]], where T = "{}"])
      (use post [OF c(2,3)] in auto)
  show "progress x may self w w'" if c: "post_Delete i (env w) = (r2, w')" "post_by au i (db w)" "may au"
    by (rule own [OF call_post_Delete [OF c(1)] methods_kept(3) [OF c(1)] methods_remove(3) [OF c(1)]])
      (use post [OF c(2,3)] in auto)
  show "progress x may self w w'" if c: "comment_Update i s (env w) = (r3, w')" "comment_by au po i (db w)" "may au"
    by (rule own [OF call_comment_Update [OF c(1)] methods_kept(5) [OF c(1)] methods_remove(5) [OF c(1)]])
      (use comment [OF c(2,3)] in auto)
  show "progress x may self w w'" if c: "comment_Delete i po (env w) = (r2, w')" "comment_by au po i (db w)" "may au"
  proof (cases "tables_wf (db (env w)) \<and> grows (db w) (db (env w))")
    case True
    then have g: "\<forall>b \<in> set (comments (db (env w))). cr_id b = i \<longrightarrow> cr_post b = po"
      using by_unique(2) by_stable(2) c(2) by blast
    show ?thesis
      by (rule own [OF call_comment_Delete [OF c(1) g] methods_kept(6) [OF c(1)] methods_remove(6) [OF c(1)]])
        (use comment [OF c(2,3)] in auto)
  next
    case False
    then show ?thesis using progressE [OF progress_env [OF assms]] unfolding progress_def by metis
  qed
qed

lemma blog_local_progress:
  "slug_of_title x' t w = (b, w') \<Longrightarrow> progress x may self w w'"
  "slug_candidate k b w = (b', w') \<Longrightarrow> progress x may self w w'"
  "update_of_request x' cur req w = (ch, w') \<Longrightarrow> progress x may self w w'"
  by (auto intro!: progress_same dest: blog_reads_same_db(4,5) update_of_request_frame)

lemma read_progress:
  assumes "rely x env"
  shows "post_svc_ByID (shared_posts env (post_repository x)) a i w = (r, w') \<Longrightarrow> progress x may self w w'"
    "post_AuthorOf i (env w) = (r2, w') \<Longrightarrow> progress x may self w w'"
    "comment_AuthorAndPostOf i (env w) = (r3, w') \<Longrightarrow> progress x may self w w'"
proof -
  assume "post_svc_ByID (shared_posts env (post_repository x)) a i w = (r, w')"
  then have "post_svc_ByID (post_repository x) a i (env w) = (r, w')" by (simp add: post_svc_ByID_def)
  from progress_read [OF assms blog_reads_same_db(1) [OF this]] show "progress x may self w w'" .
qed (auto intro: progress_read [OF assms] dest: blog_reads_same_db(2,3))

lemma create_attempts_progress:
  assumes "rely x env" "self (post_author p)"
  shows "create_attempts x (shared_posts env (post_repository x)) p base n err w = (r, w') \<Longrightarrow> progress x may self w w'"
proof (induction n arbitrary: err w)
  case (Suc n)
  obtain i w1 where i: "new_uuid w = (i, w1)" by fastforce
  obtain s w2 where s: "slug_candidate (slugAttempts - Suc n) base w1 = (s, w2)" by fastforce
  obtain q w3 where q: "post_Create (p\<lparr>post_id := i, slug := s\<rparr>) (env w2) = (q, w3)" by fastforce
  have "progress x may self w2 w3" by (rule blog_calls_progress(1) [where may = may and self = self, OF assms(1) q]) (simp add: assms(2))
  with local_progress(3) [OF i] blog_local_progress(2) [OF s] have k: "progress x may self w w3" by (blast intro: progress_trans)
  from Suc.prems i s q consider "db w' = db w3"
    | e where "create_attempts x (shared_posts env (post_repository x)) p base n (Some e) w3 = (r, w')"
    by (auto simp: shared_posts_def before_each_def split: sum.splits if_splits)
  then show ?case using Suc.IH progress_trans [OF k] by cases (auto intro: progress_same)
qed simp

lemma update_attempts_progress:
  assumes "rely x env" "may au"
  shows "update_attempts (shared_posts env (post_repository x)) i u base n err w = (r, w') \<Longrightarrow> post_by au i (db w) \<Longrightarrow> progress x may self w w'"
proof (induction n arbitrary: err w)
  case (Suc n)
  obtain s w1 where s: "slug_candidate (slugAttempts - Suc n) base w = (s, w1)" by fastforce
  obtain q w2 where q: "post_Update i (u\<lparr>up_slug := Some s\<rparr>) (env w1) = (q, w2)" by fastforce
  have known: "post_by au i (db w1)" using Suc.prems(2) blog_reads_same_db(5) [OF s] by simp
  from blog_calls_progress(2) [where may = may and self = self, OF assms(1) q known assms(2)] blog_local_progress(2) [OF s] have k: "progress x may self w w2"
    by (blast intro: progress_trans)
  from Suc.prems(1) s q consider "w' = w2" | e where "update_attempts (shared_posts env (post_repository x)) i u base n (Some e) w2 = (r, w')"
    by (auto split: sum.splits if_splits)
  then show ?case
  proof cases
    case (2 e)
    from Suc.IH [OF this] by_stable(1) [OF Suc.prems(2)] show ?thesis by (blast intro: progress_then [OF k])
  qed (use k in simp)
qed simp

lemma post_requests_progress:
  assumes "rely x env" "acts_within may self a"
  shows "post_svc_Create x (shared_posts env (post_repository x)) a ci w = (r1, w') \<Longrightarrow> progress x may self w w'"
    "post_svc_Update x (shared_posts env (post_repository x)) a i req w = (r1, w') \<Longrightarrow> progress x may self w w'"
    "post_svc_Delete x (shared_posts env (post_repository x)) a i w = (r2, w') \<Longrightarrow> progress x may self w w'"
proof -
  have may: "may o'" if "CanModify a o'" for o' using assms(2) that by (simp add: acts_within_def)
  have self: "self (actor_id a)" using assms(2) by (simp add: acts_within_def)
  let ?st = "shared_posts env (post_repository x)"
  show "progress x may self w w'" if "post_svc_Create x ?st a ci w = (r1, w')"
    using that self by (auto simp: post_svc_Create_def Let_def split: prod.splits if_splits
      dest!: blog_local_progress(1) [where x = x and may = may and self = self] create_attempts_progress [OF assms(1), rotated, where may = may and self = self]
      intro: progress_trans)
  have owner: "authorize a au st = None \<Longrightarrow> may au" for au st by (auto simp: authorize_def intro: may split: if_splits)
  show "progress x may self w w'" if u: "post_svc_Update x ?st a i req w = (r1, w')"
  proof -
    obtain q w1 where q: "post_AuthorOf i (env w) = (q, w1)" by fastforce
    note p1 = read_progress(2) [OF assms(1) q, of may self]
    show ?thesis
    proof (cases "\<exists>au cur. q = Inr (au, cur) \<and> authorize a au cur = None")
      case True
      then obtain au cur where ok: "q = Inr (au, cur)" "authorize a au cur = None" by blast
      note known = owners_read(1) [OF q [unfolded ok(1)]]
      obtain c w2 where c: "update_of_request x cur req w1 = (c, w2)" by fastforce
      have w2: "progress x may self w1 w2" "post_by au i (db w2)"
        using blog_local_progress(3) [OF c] update_of_request_frame [OF c] known by auto
      have "progress x may self w2 w'" if "c = Inr ch" for ch
      proof -
        obtain q3 w3 where r: "updateWithSlugRetry ?st i ch w2 = (q3, w3)" by fastforce
        then have "progress x may self w2 w3"
          using blog_calls_progress(2) [where may = may and self = self, OF assms(1) _ w2(2) owner [OF ok(2)]] update_attempts_progress [where may = may and self = self, OF assms(1) owner [OF ok(2)] _ w2(2)]
          by (auto simp: updateWithSlugRetry_def split: option.splits)
        with u q ok c r that show ?thesis by (auto simp: post_svc_Update_def split: sum.splits)
      qed
      with u q ok c w2(1) have "progress x may self w1 w'"
        by (cases c) (auto simp: post_svc_Update_def intro: progress_trans)
      with p1 show ?thesis by (rule progress_trans)
    qed (use u q p1 in \<open>auto simp: post_svc_Update_def split: sum.splits option.splits\<close>)
  qed
  show "progress x may self w w'" if d: "post_svc_Delete x ?st a i w = (r2, w')"
  proof -
    obtain q w1 where q: "post_AuthorOf i (env w) = (q, w1)" by fastforce
    note p1 = read_progress(2) [OF assms(1) q, of may self]
    show ?thesis
    proof (cases "\<exists>au cur. q = Inr (au, cur) \<and> authorize a au cur = None")
      case True
      then obtain au cur where ok: "q = Inr (au, cur)" "authorize a au cur = None" by blast
      obtain q2 w2 where r: "post_Delete i (env w1) = (q2, w2)" by fastforce
      from blog_calls_progress(3) [where may = may and self = self, OF assms(1) r _ owner [OF ok(2)]] owners_read(1) [OF q [unfolded ok(1)]]
      have "progress x may self w1 w2" by blast
      with d q ok r p1 show ?thesis by (auto simp: post_svc_Delete_def split: sum.splits intro: progress_trans)
    qed (use d q p1 in \<open>auto simp: post_svc_Delete_def split: sum.splits option.splits\<close>)
  qed
qed

lemma comment_requests_progress:
  assumes "rely x env" "acts_within may self a"
  shows "comment_svc_Create x (shared_comments env comment_repository) (post_svc_ByID (shared_posts env (post_repository x))) a cc w = (r3, w')
      \<Longrightarrow> progress x may self w w'"
    "comment_svc_Update x (shared_comments env comment_repository) a i s w = (r3, w') \<Longrightarrow> progress x may self w w'"
    "comment_svc_Delete x (shared_comments env comment_repository) a i w = (r2, w') \<Longrightarrow> progress x may self w w'"
proof -
  have may: "may o'" if "CanModify a o'" for o' using assms(2) that by (simp add: acts_within_def)
  have self: "self (actor_id a)" using assms(2) by (simp add: acts_within_def)
  let ?st = "shared_comments env comment_repository" and ?read = "post_svc_ByID (shared_posts env (post_repository x))"
  show "progress x may self w w'" if m: "comment_svc_Create x ?st ?read a cc w = (r3, w')"
  proof -
    obtain q w1 where q: "?read (Some a) (cc_post cc) w = (q, w1)" by fastforce
    obtain j w2 where j: "new_uuid w1 = (j, w2)" by fastforce
    have w2: "progress x may self w w1" "progress x may self w w2"
      using read_progress(1) [OF assms(1) q] local_progress(3) [OF j] by (blast intro: progress_trans)+
    have "progress x may self w2 w3" if "comment_Create c (env w2) = (p, w3)" "cmt_author c = actor_id a" for c p w3
      using blog_calls_progress(4) [where may = may and self = self, OF assms(1) that(1)] that(2) self by simp
    with m q j w2 show ?thesis
      by (auto simp: comment_svc_Create_def Let_def split: sum.splits prod.splits intro: progress_trans)
  qed
  show "progress x may self w w'" if u: "comment_svc_Update x ?st a i s w = (r3, w')"
  proof -
    obtain q w1 where q: "comment_AuthorAndPostOf i (env w) = (q, w1)" by fastforce
    note p1 = read_progress(3) [OF assms(1) q, of may self]
    show ?thesis
    proof (cases "\<exists>au po. q = Inr (au, po) \<and> CanModify a au")
      case True
      then obtain au po where ok: "q = Inr (au, po)" "CanModify a au" by blast
      obtain q2 w2 where r: "comment_Update i (trim_space s) (env w1) = (q2, w2)" by fastforce
      from blog_calls_progress(5) [where may = may and self = self, OF assms(1) r _ may [OF ok(2)]] owners_read(2) [OF q [unfolded ok(1)]]
      have "progress x may self w1 w2" by blast
      with u q ok r p1 show ?thesis by (auto simp: comment_svc_Update_def split: sum.splits intro: progress_trans)
    qed (use u q p1 in \<open>auto simp: comment_svc_Update_def split: sum.splits if_splits\<close>)
  qed
  show "progress x may self w w'" if d: "comment_svc_Delete x ?st a i w = (r2, w')"
  proof -
    obtain q w1 where q: "comment_AuthorAndPostOf i (env w) = (q, w1)" by fastforce
    note p1 = read_progress(3) [OF assms(1) q, of may self]
    show ?thesis
    proof (cases "\<exists>au po. q = Inr (au, po) \<and> CanModify a au")
      case True
      then obtain au po where ok: "q = Inr (au, po)" "CanModify a au" by blast
      obtain q2 w2 where r: "comment_Delete i po (env w1) = (q2, w2)" by fastforce
      from blog_calls_progress(6) [where may = may and self = self, OF assms(1) r _ may [OF ok(2)]] owners_read(2) [OF q [unfolded ok(1)]]
      have "progress x may self w1 w2" by blast
      with d q ok r p1 show ?thesis by (auto simp: comment_svc_Delete_def split: sum.splits intro: progress_trans)
    qed (use d q p1 in \<open>auto simp: comment_svc_Delete_def split: sum.splits if_splits\<close>)
  qed
qed

section \<open>Concurrent requests\<close>

text \<open>One request, of an actor or of nobody, with the others running beside it.\<close>

inductive beside_others :: "ext \<Rightarrow> (world \<Rightarrow> world) \<Rightarrow> hasher \<Rightarrow> token_service \<Rightarrow> actor option \<Rightarrow> world \<Rightarrow> world \<Rightarrow> bool"
  for x env h ts where
  "Register x (shared_accounts x env h ts) i w = (r1, w') \<Longrightarrow> beside_others x env h ts who w w'"
| "Login x (shared_accounts x env h ts) mail password ua w = (r2, w') \<Longrightarrow> beside_others x env h ts who w w'"
| "Refresh x (shared_accounts x env h ts) tok ua w = (r2, w') \<Longrightarrow> beside_others x env h ts who w w'"
| "Logout x (shared_accounts x env h ts) tok w = (r3, w') \<Longrightarrow> beside_others x env h ts who w w'"
| "LogoutAll x (shared_accounts x env h ts) a w = (r4, w') \<Longrightarrow> beside_others x env h ts (Some a) w w'"
| "user_svc_UpdateProfile (shared_accounts x env h ts) a name w = (r1, w') \<Longrightarrow> beside_others x env h ts (Some a) w w'"
| "post_svc_Create x (shared_posts env (post_repository x)) a ci w = (r5, w') \<Longrightarrow> beside_others x env h ts (Some a) w w'"
| "post_svc_Update x (shared_posts env (post_repository x)) a i req w = (r5, w') \<Longrightarrow> beside_others x env h ts (Some a) w w'"
| "post_svc_Delete x (shared_posts env (post_repository x)) a i w = (r3, w') \<Longrightarrow> beside_others x env h ts (Some a) w w'"
| "comment_svc_Create x (shared_comments env comment_repository) (post_svc_ByID (shared_posts env (post_repository x))) a cc w = (r6, w')
    \<Longrightarrow> beside_others x env h ts (Some a) w w'"
| "comment_svc_Update x (shared_comments env comment_repository) a i s w = (r6, w') \<Longrightarrow> beside_others x env h ts (Some a) w w'"
| "comment_svc_Delete x (shared_comments env comment_repository) a i w = (r3, w') \<Longrightarrow> beside_others x env h ts (Some a) w w'"

lemma acts_within_rights: "acts_within (may_modify (Some a)) (signs_as (Some a)) a"
  by (simp add: acts_within_def may_modify_def signs_as_def)

lemma beside_others_progress:
  assumes "rely x env" "beside_others x env h ts who w w'"
  shows "progress x (may_modify who) (signs_as who) w w'"
  using assms(2)
  by induction (auto dest: account_requests_progress [OF assms(1)] post_requests_progress [OF assms(1) acts_within_rights]
    comment_requests_progress [OF assms(1) acts_within_rights])

text \<open>A successful refresh is a rotation of the presented token, after some progress.\<close>

lemma Refresh_exchanges:
  assumes "rely x env" "Refresh x (shared_accounts x env h ts) tok ua w = (Inr pair, w')"
  shows "\<exists>v s n v'. progress x may self w v \<and> session_Rotate (HashRefreshToken x tok) s (env v) = (Inr n, v') \<and> db w' = db v'"
proof -
  let ?sv = "shared_accounts x env h ts" and ?h = "HashRefreshToken x tok"
  from assms(2) obtain s w1 u w2 pl dg ex w3 sid w4 n w5 ac w6 where
      "session_ByHash ?h (env w) = (Inr s, w1)" "user_ByID (se_user s) (env w1) = (Inr u, w2)"
      "NewRefreshToken x ts w2 = (Inr (pl, dg, ex), w3)" "new_uuid w3 = (sid, w4)"
    and r: "session_Rotate ?h (new_session sid (user_id u) dg ex ua) (env w4) = (Inr n, w5)"
    and i: "IssueAccessToken x ts (user_id u) (role u) w5 = (Inr ac, w6)" "w' = w6"
    by (auto simp: Refresh_def Let_def split: option.splits sum.splits prod.splits if_splits)
  then have "progress x may self w w4"
    using account_calls_progress(7,9) [OF assms(1), where may = may and self = self]
      local_progress(2,3) [where x = x and may = may and self = self] by (meson progress_trans)
  moreover have "db w' = db w5" using IssueAccessToken_frame [OF i(1)] i(2) by simp
  ultimately show ?thesis using r by blast
qed

lemma call_accounts: "repo_call x k d d' \<Longrightarrow> accounts_kept d d'"
proof (induction rule: repo_call.induct)
qed (auto dest: account_methods_kept blog_writes_same_accounts same_accounts_kept)

lemma schedule_accounts: "schedule x ts d d' \<Longrightarrow> accounts_kept d d'"
  by (induction rule: schedule.induct) (auto intro: accounts_kept_trans dest: call_accounts)

section \<open>Properties\<close>



section \<open>Witnesses\<close>

text \<open>Somebody else keeps logging out everywhere.\<close>

definition restless :: "world \<Rightarrow> world" where
  "restless w = snd (session_RevokeAllForUser 3 w)"

lemma restless_rely: "rely x restless"
proof -
  have "repo_call x Other_call (db w) (db (restless w))" for w
    by (rule call_RevokeAll [of 3 _ "fst (session_RevokeAllForUser 3 w)"]) (simp add: restless_def)
  then show ?thesis unfolding rely_def by (auto intro!: exI [of _ "[(False, Other_call, db w, db (restless w))]" for w])
qed


lemma quiet_rely: "rely x id"
  unfolding rely_def by (auto intro!: exI [of _ "[]"])

lemma quiet_accounts: "shared_accounts sample_jwt id (NewHasher 12) sample_service = sample_accounts"
  by (simp add: shared_accounts_def blog_accounts_def shared_users_def shared_sessions_def before_each_def [abs_def]
      user_repository_def session_repository_def)

lemma ann_world_tables: "tables_wf (db ann_world)"
  using ann_world_wf by (simp add: tables_wf_def ann_world_def ann_def anns_session_def sessions_owned_def users_wf_def
      tokens_wf_def empty_blog)


end
