(* ===== verification/Isolation.thy ===== *)
theory Isolation
  imports Concurrency
begin

text \<open>
  Where the repository calls of concurrent requests are not as if one after the other. \<open>InTx\<close> begins its
  transactions at PostgreSQL's default level, READ COMMITTED: an UPDATE that waited for a row somebody
  else was changing goes on with the row's new version if the WHERE clause still holds, but the
  subqueries of that clause keep the rows they saw at the start. The recursive term of \<open>Repository.Delete\<close>
  (\<open>internal/comment/repository.go\<close>) is such a subquery, and its UPDATE does not ask again whether the
  rows it waited for are still there. \<open>late_Delete\<close> is its transaction with the tables its subquery saw.
  Lemmas: with current tables it is \<open>comment_delete_body\<close>; with those from before another deletion of the
  same thread it counts the comments a second time.
\<close>

definition late_soft_delete :: "uuid \<Rightarrow> database \<Rightarrow> nat stmt" where
  "late_soft_delete i seen t d =
    (let ids = set (thread_of (comments seen) i) in
     Inr (count_where (\<lambda>c. cr_id c \<in> ids) (comments d),
          d\<lparr>comments := update_where (\<lambda>c. cr_id c \<in> ids)
              (\<lambda>c. c\<lparr>cr_deleted := Some t, cr_updated := t\<rparr>) (comments d)\<rparr>))"

definition late_Delete :: "uuid \<Rightarrow> uuid \<Rightarrow> database \<Rightarrow> time \<Rightarrow> database \<Rightarrow> gerr + database" where
  "late_Delete i q seen t d =
    (case late_soft_delete i seen t d of
       Inl e \<Rightarrow> Inl (Internal (Wrapf ''soft-delete comment thread'' [e]))
     | Inr (removed, d1) \<Rightarrow>
        if removed = 0 then Inl (NotFound ''comment'')
        else (case decrement_count q removed t d1 of
           Inl e \<Rightarrow> Inl (Internal (Wrapf (''decrement post comment count by '' @ itoa (int removed)) [e]))
         | Inr (n, d2) \<Rightarrow> Inr d2))"

lemma late_Delete_current:
  assumes "outcomes w = []"
  shows "comment_Delete i q w = (case late_Delete i q (db w) (db_now w) (db w) of
    Inl e \<Rightarrow> (Inl e, w) | Inr d \<Rightarrow> (Inr (), w\<lparr>db := d\<rparr>))"
proof -
  have s: "late_soft_delete i (db w) (db_now w) (db w) = soft_delete_thread i (db_now w) (db w)"
    by (simp add: late_soft_delete_def soft_delete_thread_def)
  show ?thesis
    using assms by (auto simp: comment_Delete_def comment_delete_body_def InTx_def begin_tx_def execute_quiet late_Delete_def s
        round_trip_no_outcomes split: sum.splits prod.splits)
qed

lemma Internal_is_not_NotFound: "Internal e \<noteq> NotFound s"
  by (simp add: Internal_def NotFound_def NewErr_def classifyContextError_def Timeout_def)

text \<open>The rows a deletion has marked and the counter it has left.\<close>

abbreviation marked :: "uuid set \<Rightarrow> time \<Rightarrow> comment_row list \<Rightarrow> comment_row list" where
  "marked ids t \<equiv> update_where (\<lambda>c. cr_id c \<in> ids) (\<lambda>c. c\<lparr>cr_deleted := Some t, cr_updated := t\<rparr>)"

abbreviation lowered :: "uuid \<Rightarrow> nat \<Rightarrow> time \<Rightarrow> post_row list \<Rightarrow> post_row list" where
  "lowered q n t \<equiv> update_where (\<lambda>r. pr_id r = q) (\<lambda>r. r\<lparr>pr_count := pr_count r - int n, pr_updated := t\<rparr>)"

lemma marked_are_dead: "b \<in> set (marked ids t cs) \<Longrightarrow> cr_id b \<in> ids \<Longrightarrow> \<not> comment_live b"
  by (auto simp: update_where_def comment_live_def split: if_splits)

lemma decrement_lowers:
  assumes "decrement_count q n t d = Inr (k, d')" and "first_row (\<lambda>r. pr_id r = q) (posts d) = Some p"
  shows "d' = d\<lparr>posts := lowered q n t (posts d)\<rparr>"
  using assms by (cases rule: decrement_count_cases) simp_all

lemma late_Delete_decrements:
  assumes "ids = set (thread_of (comments seen) i)" and "n = count_where (\<lambda>c. cr_id c \<in> ids) (comments d)" and "n > 0"
  shows "late_Delete i q seen t d = (case decrement_count q n t (d\<lparr>comments := marked ids t (comments d)\<rparr>) of
      Inl e \<Rightarrow> Inl (Internal (Wrapf (''decrement post comment count by '' @ itoa (int n)) [e]))
    | Inr (k, d') \<Rightarrow> Inr d')"
  using assms(3) unfolding assms(1,2) by (simp add: late_Delete_def late_soft_delete_def Let_def)

text \<open>A deletion that succeeds, its post and what it leaves.\<close>

lemma deletion_effect:
  assumes "blog_wf d" and "c \<in> set (comments d)" "cr_id c = i" "cr_post c = q" "comment_live c"
    and "late_Delete i q d t d = Inr d1"
    and ids: "ids = set (thread_of (comments d) i)" and n: "n = count_where (\<lambda>c. cr_id c \<in> ids) (comments d)"
  obtains p where "n > 0" "p \<in> set (posts d)" "pr_id p = q" "post_live p" "first_row (\<lambda>r. pr_id r = q) (posts d) = Some p"
    "d1 = d\<lparr>comments := marked ids t (comments d), posts := lowered q n t (posts d)\<rparr>" "blog_wf d1"
proof -
  let ?e = "d\<lparr>comments := marked ids t (comments d)\<rparr>"
  from assms(6) obtain k where pos: "n > 0" and dec: "decrement_count q n t ?e = Inr (k, d1)"
    by (auto simp: late_Delete_def late_soft_delete_def Let_def ids n split: if_splits sum.splits)
  have soft: "soft_delete_thread i t d = Inr (n, ?e)" by (simp add: soft_delete_thread_def Let_def ids n)
  have "blog_wf d1"
  proof -
    let ?w = "one_comment\<lparr>db := d\<rparr>"
    have "distinct (map cr_id (comments (db ?w)))" using assms(1) by (simp add: blog_wf_def comments_wf_def)
    from live_comment_row [OF this, of c] assms(2-5) have "live_comment ?w i = Some (plain_comment c)" by simp
    then show ?thesis using delete_body_wf [of i t ?w, OF _ dec] soft assms(1,4) by simp
  qed
  moreover have "comment_row_wf d c" using assms(1,2) by (simp add: blog_wf_def comments_wf_def)
  then obtain p where p: "p \<in> set (posts d)" "pr_id p = q" "post_live p" using assms(4,5) by (auto simp: comment_row_wf_def)
  moreover have "first_row (\<lambda>r. pr_id r = q) (posts d) = Some p"
    using first_row_key_exists [of pr_id "posts d" p q] p assms(1) by (simp add: blog_wf_def posts_wf_def)
  ultimately show thesis using that [OF pos p] decrement_lowers [OF dec, of p] by simp
qed


text \<open>Two live comments on a post, and two deletions of one of them.\<close>

definition two_comments :: database where
  "two_comments = (db blog_world)\<lparr>posts := [news_row\<lparr>pr_count := 2\<rparr>], comments := [news_comment, news_comment\<lparr>cr_id := 31\<rparr>]\<rparr>"

lemmas row_checks = posts_checks_def comments_checks_def btrim_def trim_char_def trim_both_def sample_lengths
  posts_slug_format_def slug_pattern_def slug_rune_def PostStatusDraft_def PostStatusPublished_def

lemma two_comments_wf: "blog_wf two_comments"
  by (simp add: two_comments_def blog_rows blog_wf_def posts_wf_def comments_wf_def comment_row_wf_def counts_agree_def
      live_comments_of_def post_live_def comment_live_def row_checks empty_world_def)

lemma thread_of_30: "thread_of (comments two_comments) 30 = [30]"
  by (simp add: thread_of_def live_replies_def two_comments_def news_comment_def comment_live_def)

definition once_deleted :: database where
  "once_deleted = two_comments\<lparr>posts := [news_row\<lparr>pr_count := 1, pr_updated := 5\<rparr>],
     comments := [news_comment\<lparr>cr_deleted := Some 5, cr_updated := 5\<rparr>, news_comment\<lparr>cr_id := 31\<rparr>]\<rparr>"

lemma decrement_news:
  assumes "posts d = [r]" "pr_id r = 21" "first_violated (posts_checks (r\<lparr>pr_count := pr_count r - 1, pr_updated := t\<rparr>)) = None"
  shows "decrement_count 21 (Suc 0) t d = Inr (1, d\<lparr>posts := [r\<lparr>pr_count := pr_count r - 1, pr_updated := t\<rparr>]\<rparr>)"
  using assms by (simp add: decrement_count_def)

lemma two_deletions:
  "late_Delete 30 21 two_comments 5 two_comments = Inr once_deleted"
  "\<exists>d2. late_Delete 30 21 two_comments 6 once_deleted = Inr d2"
proof -
  have v: "first_violated (posts_checks (news_row\<lparr>pr_count := k, pr_updated := t\<rparr>)) = None" if "k \<ge> 0" for k t
    using that by (simp add: row_checks news_row_def draft_row_def)
  have n: "pr_id news_row = 21" "cr_id news_comment = 30" by (simp_all add: news_row_def draft_row_def news_comment_def)
  have s1: "late_soft_delete 30 two_comments 5 two_comments = Inr (Suc 0, once_deleted\<lparr>posts := posts two_comments\<rparr>)"
    by (simp add: late_soft_delete_def thread_of_30) (simp add: two_comments_def once_deleted_def n)
  have s2: "\<exists>cs. late_soft_delete 30 two_comments 6 once_deleted = Inr (Suc 0, once_deleted\<lparr>comments := cs\<rparr>)"
    by (simp add: late_soft_delete_def thread_of_30) (auto simp: once_deleted_def n)
  have "decrement_count 21 (Suc 0) 5 (once_deleted\<lparr>posts := posts two_comments\<rparr>) = Inr (1, once_deleted)"
    using v [of 1 5] by (subst decrement_news [where r = "news_row\<lparr>pr_count := 2\<rparr>"]) (simp_all add: two_comments_def once_deleted_def n)
  then show "late_Delete 30 21 two_comments 5 two_comments = Inr once_deleted" by (simp add: late_Delete_def s1)
  from s2 obtain cs where cs: "late_soft_delete 30 two_comments 6 once_deleted = Inr (Suc 0, once_deleted\<lparr>comments := cs\<rparr>)" by blast
  have "\<exists>d2. decrement_count 21 (Suc 0) 6 (once_deleted\<lparr>comments := cs\<rparr>) = Inr (1, d2)"
    using v [of 0 6] by (subst decrement_news [where r = "news_row\<lparr>pr_count := 1, pr_updated := 5\<rparr>"]) (simp_all add: once_deleted_def n)
  then show "\<exists>d2. late_Delete 30 21 two_comments 6 once_deleted = Inr d2" by (auto simp: late_Delete_def cs)
qed


end
