(* ===== verification/Spec2Isabelle.thy ===== *)
theory Spec2Isabelle
  imports Thread_Query Attempts Startup Interleaving Isolation
begin

text \<open>
  A verification development of the blog API of this repository: a Go program (\<open>cmd/\<close>, \<open>internal/\<close>,
  \<open>migrations/\<close>, \<open>api/\<close>) in front of PostgreSQL. This theory imports all others, describes them here,
  and holds the property that spans the handlers, the services and the tables.

  \<^bold>\<open>The program.\<close> \<open>cmd/api\<close> loads a configuration, opens a pool, wires a server and runs it until a
  signal; \<open>cmd/migrate\<close> applies migrations. The server is a middleware stack around a router of 23
  routes; a handler decodes and validates a request, calls a service and writes one reply; a service
  decides who may do what, calls a repository and publishes events; a repository sends SQL. Beside
  the requests run the event bus' workers and two limiters' janitors.

  \<^bold>\<open>State and effects.\<close> A \<open>world\<close> (theory Database) is the process and its database: the four tables as
  row lists, the clock, \<open>now()\<close>, random bytes, published events, lines logged by services and migrator,
  counted bcrypt runs, and the outcomes of the round trips to come, each of which may be acknowledged, lost, or executed with its reply
  lost. A fallible Go function is a state transformer into a sum of the error (a tree of wrapped
  errors, theory Apierr) and the result. A \<open>site\<close> (theory Router) is a world with two limiters; an
  endpoint maps request, reply so far and site to a possible panic, a reply and a site. What middleware
  and responses log is part of the reply, what the process logs part of \<open>server\<close> and \<open>bus\<close>.

  \<^bold>\<open>Theories and sources\<close>, in the order of the calls.
  \<^item> Prelude: sums, rows selected, updated and deleted by a condition; locale \<open>keyed\<close> for tables with a
    primary key. Go_Strings, Go_Parse, Radix: UTF-8, \<open>strings\<close>, \<open>strconv\<close>, durations, base32 and base64
    as the program uses them.
  \<^item> Domain: \<open>internal/domain\<close>. Apierr: \<open>internal/platform/apierr\<close>. Externals: the libraries, one record
    of functions with the documented laws as predicates. Slug: \<open>internal/post/slug.go\<close>.
  \<^item> Database: \<open>internal/platform/postgres/postgres.go\<close> and the constraints of \<open>migrations/0001_init.up.sql\<close>.
    Pool: \<open>Connect\<close> of the same file. Migrate: \<open>migrate.go\<close> and the commands of \<open>cmd/migrate\<close>.
    Startup: the \<open>main\<close> of \<open>cmd/migrate\<close>.
  \<^item> Auth: \<open>internal/auth\<close>. User_Store, User_Repo, User_Service, User_Handler: \<open>internal/user\<close>, as the two
    interfaces with their contracts (locales), the SQL that meets them, the service proved from them,
    and the endpoints.
  \<^item> Blog, Post_Store, Post_Repo, Post_Service, Post_Handler: \<open>internal/post\<close> in the same way.
    Comment_Store, Comment_Repo, Comment_Service, Comment_Handler: \<open>internal/comment\<close>. Thread_Query: the
    recursive SQL of its \<open>Delete\<close>.
  \<^item> Paging, Httpx, Decoding, Handlers: \<open>internal/platform/httpx\<close>. Validator: \<open>internal/platform/validation\<close>.
    Logging: \<open>internal/platform/logging\<close>.
  \<^item> Middleware, Access, Rate_Limit, Janitor: \<open>internal/middleware\<close>. Event_Bus: \<open>internal/platform/events\<close>.
    Health: \<open>internal/health\<close>. Docs, Router: \<open>internal/server/docs.go\<close> and \<open>router.go\<close>.
  \<^item> Config: \<open>internal/config\<close>. Server: \<open>internal/server/server.go\<close> and \<open>cmd/api\<close>.
  \<^item> Blog_History, Privileges, Removals, Ownership: the requests of all services as one step relation, and
    what no sequence of them breaks. Stack, Traffic, Attempts: the same through the whole HTTP stack.
  \<^item> Concurrency, Interleaving, Isolation: requests that run at the same time. Concurrency has the calls of
    the repositories and their schedules, Interleaving the services with other requests' calls between
    their own, Isolation the transaction that READ COMMITTED does not isolate.

  \<^bold>\<open>What the lemmas show.\<close>
  \<^item> Tables: every statement keeps keys, references, checks and counters (\<open>blog_wf\<close>, \<open>tables_wf\<close>); \<open>InTx\<close> is
    all or nothing under every outcome; each repository satisfies the contract its service states, and
    each service is proved from the contract alone and then interpreted on the repository.
  \<^item> Accounts: sessions rotate, a used token is dead for ever, reuse ends every session, refusals look
    alike, nobody is promoted.
  \<^item> Posts and comments: what is created, changed, deleted and listed, drafts look missing, threads go
    with their root, the counter agrees; only owners and administrators change a text or make a
    comment go, by its post or by what it answers.
  \<^item> Concurrency: in any interleaving of repository calls the tables stay well formed, nobody is promoted,
    a request acts within the rights it checked some calls earlier, and a refresh token is exchanged by
    one of the requests racing for it. The arguments are rows that never go (\<open>grows\<close>) and revocations that
    stay (\<open>kept_from\<close>).
  \<^item> HTTP: whatever arrives is answered and logged once, panics included; no protected route runs without
    an accepted token; bodies that are not decoded are the client's fault; only configured origins
    are allowed; traffic is a history of the services' requests; credential attempts are bounded.
  \<^item> Processes: the bus as interleavings of publishers, workers and shutdown; a clean shutdown of the server
    with its complete audit trail; the limiter as a process with its janitor; migrations as whole steps in order, undone by \<open>Down\<close>; what an accepted
    configuration makes of all parts; pools that are closed.

  \<^bold>\<open>Loops.\<close> The slug retries and the update retries recurse on the attempts left (\<open>slugAttempts\<close> of the
  source). \<open>thread_of\<close> takes levels with fuel one more than the number of comments: replies are stored
  after what they reply to, so each level lies further down the table (\<open>live_replies_after\<close>); the query as
  PostgreSQL runs it is a \<open>while_option\<close>, shown to end with that result on well-formed tables, and not
  to end on a circle of replies (\<open>circular_reply_never_ends\<close>). Workers of the bus need a number of steps
  bounded by the work left. Everything else is structural.

  \<^bold>\<open>Parameters.\<close> bcrypt, SHA-256, the JWT library, uuid texts, the case tables of \<open>unicode\<close>, PostgreSQL's
  \<open>lower\<close> and full-text search, and the struct validator are fields of \<open>ext\<close>; a property that needs one of
  their documented laws says so, and a witness instantiates it. chi's matching is the argument \<open>mx\<close>, the
  JSON scanner is what a request record holds, the pool driver, the listener, the HTTP client of the
  self-probe, the scripts' effect on a schema, the embedded OpenAPI document and migration files are
  arguments.

  \<^bold>\<open>Findings\<close> are lemmas here: \<open>Offset_overflows\<close>, \<open>logout_refuses_stale_bearer\<close>, \<open>status_needs_the_table\<close>,
  \<open>odd_numbers_are_accepted\<close>, \<open>slow_buckets_are_forgotten\<close>, and the property of theory Isolation.

  \<^bold>\<open>Not modelled.\<close> Requests interleave at the calls of their repositories; the statements of two
  transactions do not, except for the deletions of theory Isolation: that the other transactions behave
  as if one after the other is left to PostgreSQL's row locks. Below the HTTP stack requests are
  concurrent, through it they are served one after the other. Deadlines and cancelled contexts appear
  as lost round trips only; what the listener does with its timeouts, the duration and byte count of an
  access line, how \<open>log/slog\<close> renders a line and how the status table of \<open>cmd/migrate\<close> is laid out are
  left out. \<open>float64\<close> is taken without rounding. The test-only options \<open>WithClock\<close> are the clock of the
  world.
\<close>

section \<open>From a 201 back to the post\<close>

lemma WriteJSON_location [simp]: "map_of (rp_headers (WriteJSON r st v rp)) ''Location'' = map_of (rp_headers rp) ''Location''"
  by (auto simp: WriteJSON_def write_header_def write_body_def update_conv' Let_def split: option.splits)

lemma fail_location [simp]: "map_of (rp_headers (fst (fail e r rp w))) ''Location'' = map_of (rp_headers rp) ''Location''"
  by (auto simp: fail_def WriteError_def Let_def split: option.splits)

text \<open>A reply of the create endpoint that names a location is a created post.\<close>

lemma post_create_location:
  assumes run: "post_create x st r rp w = (rp', w')" and rp: "unanswered rp" "map_of (rp_headers rp) ''Location'' = None"
    and reply: "rp_status rp' = Some 201" "map_of (rp_headers rp') ''Location'' = Some loc"
  obtains a d p where "Actor_of r = (a, True)" "decode_valid x r post_create_layout post_create_tags = Inr d"
    "post_svc_Create x st a \<lparr>cp_title = str_of d ''title'', cp_content = str_of d ''content'',
        cp_status = (if str_of d ''status'' \<noteq> [] then str_of d ''status'' else PostStatusDraft)\<rparr> w = (Inr p, w')"
    "loc = ''/api/v1/posts/'' @ uuid_string x (post_id p)"
    "rp_body rp' = Some (json_envelope (newPostResponse x p) None (RequestID r))"
    "marshals (json_envelope (newPostResponse x p) None (RequestID r))"
proof -
  have gone: "map_of (rp_headers q) ''Location'' = None" if "fail e r rp v = (q, v')" for e v q v'
    using that fail_location [of e r rp v] rp(2) by simp
  from run reply(2) gone obtain a d p where
      s: "Actor_of r = (a, True)" "decode_valid x r post_create_layout post_create_tags = Inr d"
        "post_svc_Create x st a \<lparr>cp_title = str_of d ''title'', cp_content = str_of d ''content'',
          cp_status = (if str_of d ''status'' \<noteq> [] then str_of d ''status'' else PostStatusDraft)\<rparr> w = (Inr p, w')"
      and q: "rp' = WriteData r 201 (newPostResponse x p) (set_header ''Location'' (''/api/v1/posts/'' @ uuid_string x (post_id p)) rp)"
    by (fastforce simp: post_create_def split: prod.splits sum.splits if_splits)
  have "unanswered (set_header ''Location'' l rp)" for l using rp(1) by simp
  note j = WriteJSON_answers [OF this, of r 201 "json_envelope (newPostResponse x p) None (RequestID r)"]
  have "marshals (json_envelope (newPostResponse x p) None (RequestID r))"
    using j(1) reply(1) by (auto simp: q WriteData_def split: if_splits)
  with that [OF s] j(2) reply(2) show thesis by (simp add: q WriteData_def update_conv')
qed

lemma post_response_marshals:
  "marshals (json_envelope (newPostResponse x p) None i) \<longleftrightarrow>
    (case published_at p of None \<Rightarrow> True | Some t \<Rightarrow> time_marshals t) \<and> time_marshals (post_created p) \<and> time_marshals (post_updated p)"
  by (auto simp: json_envelope_def newPostResponse_def json_author_def omit_nil_def omit_empty_def split: option.splits)

lemma without_author_cols [simp]:
  "published_at (without_author p) = published_at p" "post_created (without_author p) = post_created p"
  "post_updated (without_author p) = post_updated p"
  by (simp_all add: without_author_def)



text \<open>Bo posts a draft and reads it back.\<close>

definition hello_request :: http_request where
  "hello_request = (posted [Scanned (JObj [(''title'', JStr ''Hello ''), (''content'', JStr ''soon'')])])\<lparr>hr_actor := Some bo_actor\<rparr>"

lemma hello_decoded:
  "\<exists>d. decode_valid sample_jwt hello_request post_create_layout post_create_tags = Inr d
    \<and> str_of d ''title'' = ''Hello '' \<and> str_of d ''content'' = ''soon'' \<and> str_of d ''status'' = []"
proof -
  have f: "fold_key ''title'' \<noteq> fold_key ''content''" by (simp add: fold_key_def runes_def)
  have c: "rune_count ''Hello '' = 6" by (simp add: rune_count_def)
  show ?thesis
    by (simp add: decode_valid_def DecodeJSON_def hello_request_def posted_def decode_value_def find_field_def
        decode_member_def post_create_layout_def post_create_tags_def Struct_def sample_jwt_def sample_ext_def
        str_field_def str_of_def field_ok_def c f sample_lengths)
qed



end
